(* ===== verification/Chat_Prelude.thy ===== *)
theory Chat_Prelude
  imports Main "HOL-Library.Char_ord" "HOL-Library.List_Lexorder"
begin

section \<open>Shared types, containers and automation\<close>

text \<open>
  What every component of the development shares: C++ exceptions and results as sums, the
  decimal rendering \<open>std::to_string\<close>, the two standard containers whose behaviour the
  chat server depends on (\<open>std::unordered_map\<close> with its iteration order as a list and
  \<open>std::set<int>\<close> as a strictly sorted list), and the interface of a connection pool.
  The collections \<open>umap_simps\<close>, \<open>sset_simps\<close> and \<open>key_simps\<close> carry
  the component proofs.
\<close>

named_theorems umap_simps \<open>lookup after insertion, update and erasure in an unordered map\<close>
named_theorems sset_simps \<open>membership after insertion and erasure in a sorted set\<close>
named_theorems key_simps \<open>injectivity and disjointness of rendered keys\<close>

subsection \<open>Results\<close>

datatype cpp_exn =
    type_error nat
  | parse_error
  | out_of_range nat

text \<open>
  \<open>Ret\<close>: the call returned; \<open>Throw\<close>: an exception leaves it; \<open>Undef\<close>: the
  call has undefined behaviour (a null or uninitialised pointer is dereferenced, an element
  is popped from an empty container).
\<close>

datatype ('e, 'a) outcome = Ret 'a | Throw 'e | Undef

definition bindR :: "'e + 'a \<Rightarrow> ('a \<Rightarrow> 'e + 'b) \<Rightarrow> 'e + 'b" where
  "bindR r f = (case r of Inl e \<Rightarrow> Inl e | Inr x \<Rightarrow> f x)"

lemma bindR_simps [simp]:
  "bindR (Inl e) f = Inl e"
  "bindR (Inr x) f = f x"
  by (simp_all add: bindR_def)

lemma bindR_Inr_iff: "bindR r f = Inr y \<longleftrightarrow> (\<exists>x. r = Inr x \<and> f x = Inr y)"
  by (cases r) auto

fun mapR :: "('a \<Rightarrow> 'e + 'b) \<Rightarrow> 'a list \<Rightarrow> 'e + 'b list" where
  "mapR f [] = Inr []"
| "mapR f (x # xs) = bindR (f x) (\<lambda>y. bindR (mapR f xs) (\<lambda>ys. Inr (y # ys)))"

lemma mapR_length: "mapR f xs = Inr ys \<Longrightarrow> length ys = length xs"
  by (induction xs arbitrary: ys) (auto simp: bindR_Inr_iff)

lemma mapR_map: "(\<And>x. x \<in> set xs \<Longrightarrow> f x = Inr (g x)) \<Longrightarrow> mapR f xs = Inr (map g xs)"
  by (induction xs) simp_all

subsection \<open>Decimal rendering of integers\<close>

definition digit_char :: "nat \<Rightarrow> char" where
  "digit_char d = char_of (48 + d)"

definition char_digit :: "char \<Rightarrow> nat" where
  "char_digit c = of_char c - 48"

lemma char_digit_digit_char: "d < 10 \<Longrightarrow> char_digit (digit_char d) = d"
  by (simp add: char_digit_def digit_char_def)

fun nat_digits :: "nat \<Rightarrow> string" where
  "nat_digits n =
     (if n < 10 then [digit_char n] else nat_digits (n div 10) @ [digit_char (n mod 10)])"

declare nat_digits.simps [simp del]

definition digits_value :: "string \<Rightarrow> nat" where
  "digits_value s = foldl (\<lambda>a c. 10 * a + char_digit c) 0 s"

lemma digits_value_nat_digits: "digits_value (nat_digits n) = n"
proof (induction n rule: nat_digits.induct)
  case (1 n)
  show ?case
  proof (cases "n < 10")
    case True
    then show ?thesis
      by (simp add: nat_digits.simps [of n] digits_value_def char_digit_digit_char)
  next
    case False
    with "1.IH" have "digits_value (nat_digits (n div 10)) = n div 10" by simp
    with False show ?thesis
      by (simp add: nat_digits.simps [of n] digits_value_def char_digit_digit_char)
  qed
qed

lemma nat_digits_inject [key_simps]: "nat_digits m = nat_digits n \<longleftrightarrow> m = n"
  by (metis digits_value_nat_digits)

lemma nat_digits_chars: "c \<in> set (nat_digits n) \<Longrightarrow> 48 \<le> (of_char c :: nat) \<and> (of_char c :: nat) < 58"
proof (induction n rule: nat_digits.induct)
  case (1 n)
  have d: "48 \<le> (of_char (digit_char k) :: nat) \<and> (of_char (digit_char k) :: nat) < 58" if "k < 10" for k
    using that by (simp add: digit_char_def)
  show ?case
  proof (cases "n < 10")
    case True
    with "1.prems" have "c = digit_char n" by (simp add: nat_digits.simps [of n])
    with True d show ?thesis by simp
  next
    case False
    with "1.prems" consider "c \<in> set (nat_digits (n div 10))" | "c = digit_char (n mod 10)"
      by (auto simp: nat_digits.simps [of n])
    then show ?thesis
    proof cases
      case 1
      with False "1.IH" show ?thesis by simp
    next
      case 2
      with d show ?thesis by simp
    qed
  qed
qed

lemma nat_digits_no_minus: "nat_digits n \<noteq> CHR ''-'' # s"
proof
  assume "nat_digits n = CHR ''-'' # s"
  then have "CHR ''-'' \<in> set (nat_digits n)" by simp
  then have "48 \<le> (of_char (CHR ''-'') :: nat)" using nat_digits_chars by blast
  then show False by simp
qed

text \<open>\<open>std::to_string(int)\<close>.\<close>

definition to_string :: "int \<Rightarrow> string" where
  "to_string i = (if i < 0 then CHR ''-'' # nat_digits (nat (- i)) else nat_digits (nat i))"

lemma to_string_inject [key_simps]: "to_string i = to_string j \<longleftrightarrow> i = j"
  using nat_digits_no_minus [of "nat i"] nat_digits_no_minus [of "nat j"]
  by (auto simp: to_string_def nat_digits_inject split: if_splits) metis

lemma to_string_chars:
  "c \<in> set (to_string i) \<Longrightarrow> c = CHR ''-'' \<or> 48 \<le> (of_char c :: nat) \<and> (of_char c :: nat) < 58"
  using nat_digits_chars by (auto simp: to_string_def split: if_splits)

subsection \<open>std::unordered_map\<close>

text \<open>
  An unordered map is the list of its entries in iteration order. The standard leaves the
  order open, so every theorem holds for an arbitrary list; a new entry goes to the end.
\<close>

type_synonym ('k, 'v) umap = "('k \<times> 'v) list"

definition um_wf :: "('k, 'v) umap \<Rightarrow> bool" where
  "um_wf m \<longleftrightarrow> distinct (map fst m)"

text \<open>\<open>insert({k, v})\<close> keeps an entry that is already there.\<close>

definition um_insert :: "'k \<Rightarrow> 'v \<Rightarrow> ('k, 'v) umap \<Rightarrow> ('k, 'v) umap" where
  "um_insert k v m = (if map_of m k = None then m @ [(k, v)] else m)"

definition um_erase :: "'k \<Rightarrow> ('k, 'v) umap \<Rightarrow> ('k, 'v) umap" where
  "um_erase k m = filter (\<lambda>e. fst e \<noteq> k) m"

text \<open>\<open>f(m[k])\<close>: \<open>operator[]\<close> creates the entry with the default value first.\<close>

definition um_modify :: "'k \<Rightarrow> 'v \<Rightarrow> ('v \<Rightarrow> 'v) \<Rightarrow> ('k, 'v) umap \<Rightarrow> ('k, 'v) umap" where
  "um_modify k d f m =
     (if map_of m k = None then m @ [(k, f d)]
      else map (\<lambda>(k', v). (k', if k' = k then f v else v)) m)"

lemma map_of_snoc: "map_of (m @ [(k, v)]) x = (case map_of m x of None \<Rightarrow> (if x = k then Some v else None) | Some y \<Rightarrow> Some y)"
  by (simp add: map_add_def split: option.splits)

lemma um_insert_lookup [umap_simps]:
  "map_of (um_insert k v m) x =
     (if x = k \<and> map_of m k = None then Some v else map_of m x)"
  by (auto simp: um_insert_def map_add_def split: option.splits)

lemma um_erase_lookup [umap_simps]: "map_of (um_erase k m) x = (if x = k then None else map_of m x)"
  by (induction m) (auto simp: um_erase_def)

lemma map_of_modify: "map_of (map (\<lambda>(k', v). (k', if k' = k then f v else v)) m) x =
    (if x = k then map_option f (map_of m x) else map_of m x)"
  by (induction m) auto

lemma um_modify_lookup [umap_simps]:
  "map_of (um_modify k d f m) x =
     (if x = k then Some (f (case map_of m k of None \<Rightarrow> d | Some v \<Rightarrow> v)) else map_of m x)"
  by (auto simp: um_modify_def map_of_modify map_add_def split: option.splits)

lemma um_wf_Nil [simp]: "um_wf []"
  by (simp add: um_wf_def)

lemma um_insert_wf [simp]: "um_wf m \<Longrightarrow> um_wf (um_insert k v m)"
  by (auto simp: um_wf_def um_insert_def map_of_eq_None_iff)

lemma um_erase_wf [simp]: "um_wf m \<Longrightarrow> um_wf (um_erase k m)"
  by (simp add: um_wf_def um_erase_def distinct_map_filter)

lemma um_modify_wf [simp]: "um_wf m \<Longrightarrow> um_wf (um_modify k d f m)"
  by (auto simp: um_wf_def um_modify_def map_of_eq_None_iff comp_def split_def)

subsection \<open>std::set\<close>

text \<open>A set of integers is iterated in ascending order: a strictly sorted list.\<close>

definition ss_wf :: "'a::linorder list \<Rightarrow> bool" where
  "ss_wf xs \<longleftrightarrow> sorted_wrt (<) xs"

fun ss_insert :: "'a::linorder \<Rightarrow> 'a list \<Rightarrow> 'a list" where
  "ss_insert x [] = [x]"
| "ss_insert x (y # ys) =
     (if x < y then x # y # ys else if x = y then y # ys else y # ss_insert x ys)"

definition ss_erase :: "'a::linorder \<Rightarrow> 'a list \<Rightarrow> 'a list" where
  "ss_erase x xs = filter (\<lambda>y. y \<noteq> x) xs"

lemma set_ss_insert [sset_simps, simp]: "set (ss_insert x xs) = insert x (set xs)"
  by (induction xs) auto

lemma set_ss_erase [sset_simps, simp]: "set (ss_erase x xs) = set xs - {x}"
  by (auto simp: ss_erase_def)

lemma ss_wf_Nil [simp]: "ss_wf []"
  by (simp add: ss_wf_def)

lemma ss_insert_wf [simp]: "ss_wf xs \<Longrightarrow> ss_wf (ss_insert x xs)"
  by (induction xs) (auto simp: ss_wf_def)

lemma ss_erase_wf [simp]: "ss_wf xs \<Longrightarrow> ss_wf (ss_erase x xs)"
  by (simp add: ss_wf_def ss_erase_def sorted_wrt_filter)

lemma ss_wf_distinct: "ss_wf xs \<Longrightarrow> distinct xs"
  unfolding ss_wf_def by (induction xs) auto

subsection \<open>The interface of a connection pool\<close>

text \<open>
  Both pools of the server hand out idle connections in the order in which they were
  returned. \<open>take\<close> gives the oldest idle connection or none, \<open>give\<close> returns one.
\<close>

locale conn_pool =
  fixes take :: "'p \<Rightarrow> 'c option \<times> 'p"
    and give :: "'c \<Rightarrow> 'p \<Rightarrow> 'p"
    and idle :: "'p \<Rightarrow> 'c list"
    and pinv :: "'p \<Rightarrow> bool"
  assumes take_none: "pinv p \<Longrightarrow> idle p = [] \<Longrightarrow> take p = (None, p)"
    and take_some: "pinv p \<Longrightarrow> idle p = c # cs \<Longrightarrow>
      fst (take p) = Some c \<and> idle (snd (take p)) = cs \<and> pinv (snd (take p))"
    and idle_give: "pinv p \<Longrightarrow> idle (give c p) = idle p @ [c]"
    and pinv_give: "pinv p \<Longrightarrow> pinv (give c p)"
begin

lemma pinv_take: "pinv p \<Longrightarrow> pinv (snd (take p))"
  by (cases "idle p") (auto simp: take_none dest: take_some)

lemma idle_take: "pinv p \<Longrightarrow> idle (snd (take p)) = tl (idle p)"
  by (cases "idle p") (auto simp: take_none dest: take_some)

lemma take_eq_None: "pinv p \<Longrightarrow> fst (take p) = None \<longleftrightarrow> idle p = []"
  by (cases "idle p") (auto simp: take_none dest: take_some)

text \<open>Taking a connection and returning it moves it to the back and loses none.\<close>

lemma take_give_rotates:
  assumes "pinv p" and "fst (take p) = Some c"
  shows "idle (give c (snd (take p))) = rotate1 (idle p)"
proof (cases "idle p")
  case Nil
  with assms show ?thesis by (simp add: take_none)
next
  case (Cons x xs)
  with assms have "c = x" and "idle (snd (take p)) = xs" and "pinv (snd (take p))"
    using take_some [OF assms(1) Cons] by auto
  with Cons show ?thesis by (simp add: idle_give)
qed

text \<open>Taking \<open>n\<close> times without returning anything drops the \<open>n\<close> oldest.\<close>

lemma drain:
  assumes "pinv p"
  shows "pinv (((\<lambda>q. snd (take q)) ^^ n) p) \<and> idle (((\<lambda>q. snd (take q)) ^^ n) p) = drop n (idle p)"
proof (induction n)
  case 0
  with assms show ?case by simp
next
  case (Suc n)
  then show ?case by (simp add: pinv_take idle_take drop_Suc tl_drop)
qed

lemma drained:
  assumes "pinv p" and "length (idle p) \<le> n"
  shows "fst (take (((\<lambda>q. snd (take q)) ^^ n) p)) = None"
  using drain [OF assms(1), of n] assms(2) by (simp add: take_eq_None)

end

end
