(* ===== verification/Json_Value.thy ===== *)
theory Json_Value
  imports Chat_Prelude
begin

section \<open>JSON values (thirdparty/json.hpp, nlohmann 3.6.1)\<close>

text \<open>
  The part of \<open>nlohmann::json\<close> the chat server uses: the value type, element access with
  \<open>operator[]\<close> (which silently adds a missing key), \<open>contains\<close>/\<open>find\<close>, and the
  conversions \<open>get<int>\<close>, \<open>get<string>\<close> and \<open>get<vector<string>>\<close> with their
  exceptions. An object is the list of its entries in the order of \<open>std::map\<close>, ascending by
  key. \<open>number_integer\<close> is a 64-bit signed value, \<open>number_unsigned\<close> a 64-bit unsigned
  value, and a finite binary64 value is its mantissa and exponent, \<open>m * 2 ^ e\<close>.
  Printing and parsing (\<open>dump\<close>, \<open>parse\<close>) are parameters of the definitions that use
  them.
\<close>

datatype json =
    JNull
  | JBool bool
  | JInt int
  | JUint nat
  | JFloat int int
  | JStr string
  | JArr "json list"
  | JObj "(string \<times> json) list"

subsection \<open>Objects\<close>

fun obj_set :: "string \<Rightarrow> json \<Rightarrow> (string \<times> json) list \<Rightarrow> (string \<times> json) list" where
  "obj_set k v [] = [(k, v)]"
| "obj_set k v ((k', v') # kvs) =
     (if k < k' then (k, v) # (k', v') # kvs
      else if k = k' then (k, v) # kvs
      else (k', v') # obj_set k v kvs)"

lemma map_of_obj_set [simp]: "map_of (obj_set k v kvs) = (map_of kvs)(k \<mapsto> v)"
  by (induction kvs) auto

definition obj_wf :: "(string \<times> json) list \<Rightarrow> bool" where
  "obj_wf kvs \<longleftrightarrow> sorted_wrt (<) (map fst kvs)"

lemma keys_obj_set: "fst ` set (obj_set k v kvs) = insert k (fst ` set kvs)"
proof -
  have "set (map fst (obj_set k v kvs)) = insert k (set (map fst kvs))"
    by (induction k v kvs rule: obj_set.induct) auto
  then show ?thesis by simp
qed

lemma obj_set_wf: "obj_wf kvs \<Longrightarrow> obj_wf (obj_set k v kvs)"
proof (induction kvs)
  case Nil
  then show ?case by (simp add: obj_wf_def)
next
  case (Cons e kvs)
  obtain k' v' where e: "e = (k', v')" by (cases e)
  from Cons.prems have "obj_wf kvs" and lt: "\<forall>x \<in> fst ` set kvs. k' < x"
    by (auto simp: obj_wf_def e)
  with Cons.IH have IH: "obj_wf (obj_set k v kvs)" by simp
  show ?case
    using Cons.prems IH lt keys_obj_set [of k v kvs]
    by (auto simp: obj_wf_def e intro: less_trans)
qed

text \<open>A value built by a sequence of assignments \<open>j["k"] = v\<close> to an empty value.\<close>

definition json_obj :: "(string \<times> json) list \<Rightarrow> json" where
  "json_obj kvs = JObj (fold (\<lambda>(k, v). obj_set k v) kvs [])"

definition json_get :: "string \<Rightarrow> json \<Rightarrow> json option" where
  "json_get k j = (case j of JObj kvs \<Rightarrow> map_of kvs k | _ \<Rightarrow> None)"

lemma map_of_fold_obj_set:
  "map_of (fold (\<lambda>(k, v). obj_set k v) kvs acc) x =
     (case map_of (rev kvs) x of None \<Rightarrow> map_of acc x | Some v \<Rightarrow> Some v)"
proof (induction kvs arbitrary: acc)
  case Nil
  then show ?case by simp
next
  case (Cons e kvs)
  obtain k v where e: "e = (k, v)" by (cases e)
  show ?case by (auto simp: Cons.IH e map_add_def split: option.splits)
qed

lemma json_get_json_obj: "json_get k (json_obj kvs) = map_of (rev kvs) k"
  by (simp add: json_get_def json_obj_def map_of_fold_obj_set split: option.splits)

lemma json_obj_wf: "\<exists>kvs'. json_obj kvs = JObj kvs' \<and> obj_wf kvs'"
proof -
  have "obj_wf (fold (\<lambda>(k, v). obj_set k v) kvs acc)" if "obj_wf acc" for acc
    using that
  proof (induction kvs arbitrary: acc)
    case Nil
    then show ?case by simp
  next
    case (Cons e kvs)
    then show ?case by (cases e) (simp add: obj_set_wf)
  qed
  moreover have "obj_wf []" by (simp add: obj_wf_def)
  ultimately show ?thesis by (simp add: json_obj_def)
qed

subsection \<open>Element access\<close>

text \<open>
  \<open>j[key]\<close> on a mutable value: the element and the value afterwards, which has gained a
  null entry when the key was missing.
\<close>

fun json_index :: "string \<Rightarrow> json \<Rightarrow> cpp_exn + json \<times> json" where
  "json_index k JNull = Inr (JNull, JObj [(k, JNull)])"
| "json_index k (JObj kvs) =
     (case map_of kvs k of
        Some v \<Rightarrow> Inr (v, JObj kvs)
      | None \<Rightarrow> Inr (JNull, JObj (obj_set k JNull kvs)))"
| "json_index k _ = Inl (type_error 305)"

definition json_contains :: "string \<Rightarrow> json \<Rightarrow> bool" where
  "json_contains k j = (case j of JObj kvs \<Rightarrow> map_of kvs k \<noteq> None | _ \<Rightarrow> False)"

definition json_is_null :: "json \<Rightarrow> bool" where
  "json_is_null j \<longleftrightarrow> j = JNull"

lemma json_index_present: "json_get k j = Some v \<Longrightarrow> json_index k j = Inr (v, j)"
  by (cases j) (auto simp: json_get_def)

lemma json_contains_get: "json_contains k j \<longleftrightarrow> json_get k j \<noteq> None"
  by (simp add: json_contains_def json_get_def split: json.splits)

subsection \<open>Conversions\<close>

text \<open>\<open>static_cast<int>\<close> of an integer: reduction modulo \<open>2 ^ 32\<close> into the signed range.\<close>

definition to_int32 :: "int \<Rightarrow> int" where
  "to_int32 i = (i + 2 ^ 31) mod 2 ^ 32 - 2 ^ 31"

definition double_trunc :: "int \<Rightarrow> int \<Rightarrow> int" where
  "double_trunc m e =
     (if 0 \<le> e then m * 2 ^ nat e else sgn m * (\<bar>m\<bar> div 2 ^ nat (- e)))"

text \<open>
  \<open>static_cast<int>\<close> of a double truncates towards zero; outside the range of \<open>int\<close>
  the x86-64 conversion instruction the server is built for gives \<open>INT_MIN\<close>.
\<close>

fun get_int :: "json \<Rightarrow> cpp_exn + int" where
  "get_int (JUint n) = Inr (to_int32 (int n))"
| "get_int (JInt i) = Inr (to_int32 i)"
| "get_int (JFloat m e) =
     (let t = double_trunc m e
      in if - (2 ^ 31) \<le> t \<and> t < 2 ^ 31 then Inr t else Inr (- (2 ^ 31)))"
| "get_int (JBool b) = Inr (if b then 1 else 0)"
| "get_int _ = Inl (type_error 302)"

fun get_string :: "json \<Rightarrow> cpp_exn + string" where
  "get_string (JStr s) = Inr s"
| "get_string _ = Inl (type_error 302)"

fun get_string_vector :: "json \<Rightarrow> cpp_exn + string list" where
  "get_string_vector (JArr js) = mapR get_string js"
| "get_string_vector _ = Inl (type_error 302)"

fun_cases get_int_InrE: "get_int j = Inr i"
fun_cases get_string_InrE: "get_string j = Inr s"

lemma to_int32_range: "- (2 ^ 31) \<le> to_int32 i \<and> to_int32 i < 2 ^ 31"
  by (simp add: to_int32_def)

lemma to_int32_id: "- (2 ^ 31) \<le> i \<Longrightarrow> i < 2 ^ 31 \<Longrightarrow> to_int32 i = i"
  by (simp add: to_int32_def)

lemma to_int32_cong: "(to_int32 i - i) mod 2 ^ 32 = 0"
proof -
  have "to_int32 i - i = - (2 ^ 32 * ((i + 2 ^ 31) div 2 ^ 32))"
    by (simp add: to_int32_def minus_mult_div_eq_mod [symmetric])
  then show ?thesis by simp
qed

text \<open>Reading an \<open>int\<close> or a \<open>string\<close> field: \<open>int x = js["k"]\<close>.\<close>

definition field_int :: "string \<Rightarrow> json \<Rightarrow> cpp_exn + int \<times> json" where
  "field_int k js =
     bindR (json_index k js) (\<lambda>(v, js'). bindR (get_int v) (\<lambda>i. Inr (i, js')))"

definition field_string :: "string \<Rightarrow> json \<Rightarrow> cpp_exn + string \<times> json" where
  "field_string k js =
     bindR (json_index k js) (\<lambda>(v, js'). bindR (get_string v) (\<lambda>s. Inr (s, js')))"

lemma field_int_present: "json_get k j = Some v \<Longrightarrow> get_int v = Inr i \<Longrightarrow> field_int k j = Inr (i, j)"
  by (simp add: field_int_def json_index_present)

lemma field_string_present:
  "json_get k j = Some (JStr s) \<Longrightarrow> field_string k j = Inr (s, j)"
  by (simp add: field_string_def json_index_present)

lemma json_index_missing:
  "json_get k j = None \<Longrightarrow> json_index k j = Inl (type_error 305) \<or> (\<exists>j'. json_index k j = Inr (JNull, j'))"
  by (cases j) (auto simp: json_get_def)

lemma field_int_missing: "json_get k j = None \<Longrightarrow> \<exists>n. field_int k j = Inl (type_error n)"
  using json_index_missing [of k j] by (auto simp: field_int_def)

lemma field_string_missing: "json_get k j = None \<Longrightarrow> \<exists>n. field_string k j = Inl (type_error n)"
  using json_index_missing [of k j] by (auto simp: field_string_def)

lemma field_int_InrD: "field_int k j = Inr (i, j') \<Longrightarrow> j' = j \<and> (\<exists>v. json_get k j = Some v \<and> get_int v = Inr i)"
proof -
  assume a: "field_int k j = Inr (i, j')"
  show ?thesis
  proof (cases "json_get k j")
    case None
    with a field_int_missing [OF None] show ?thesis by auto
  next
    case (Some v)
    with a show ?thesis
      by (auto simp: field_int_def json_index_present bindR_Inr_iff)
  qed
qed

lemma get_int_range: "get_int j = Inr i \<Longrightarrow> - (2 ^ 31) \<le> i \<and> i < 2 ^ 31"
  using to_int32_range by (elim get_int_InrE) (auto simp: Let_def split: if_splits)

lemmas json_field_simps = field_int_def field_string_def json_get_json_obj

end
