(* ===== verification/Sql_Database.thy ===== *)
theory Sql_Database
  imports Chat_Prelude "HOL-Library.Multiset"
begin

section \<open>The MySQL database the server talks to\<close>

text \<open>
  The fifteen SQL statements of the source with their bound parameters, their texts, and what
  the server may rely on of the database: the tables of \<open>sql/init_chat.sql\<close> and the effect
  of each statement on them. The database itself is a service outside the source: every model
  of a data class takes its \<open>exec\<close> function as a parameter, over an arbitrary state
  \<open>'db\<close>. The locale \<open>mysql_server\<close> states the documented behaviour the code relies
  on: a statement that succeeds has the effect SQL gives it on the tables the state represents,
  a statement that raises changes no table, and a statement that violates no constraint can be
  executed. \<open>ref_sql\<close> is a concrete server with that behaviour.
\<close>

subsection \<open>Statements\<close>

datatype sql_exc = SQLException

datatype sql_stmt =
    InsertUser string string string
  | SelectUser int
  | UpdateUserState string int
  | ResetUserState
  | InsertFriend int int
  | SelectFriends int
  | InsertAllGroup string string
  | LastInsertId
  | InsertGroupUser int int string
  | SelectGroupsOf int
  | SelectGroupMembers int
  | SelectGroupUserIds int int
  | InsertOffline int string
  | DeleteOffline int
  | SelectOffline int

text \<open>
  The text handed to \<open>prepareStatement\<close> or \<open>executeQuery\<close>. Insertions, updates and
  deletions bind their parameters; the selections concatenate integers.
\<close>

fun sql_text :: "sql_stmt \<Rightarrow> string" where
  "sql_text (InsertUser n p s) = ''insert into User(name, password, state) values(?, ?, ?)''"
| "sql_text (SelectUser i) = ''select * from User where id='' @ to_string i"
| "sql_text (UpdateUserState s i) = ''UPDATE User set state=? where id=?''"
| "sql_text ResetUserState =
     ''UPDATE User set state='' @ [CHR 0x27] @ ''offline'' @ [CHR 0x27] @
     '' where state='' @ [CHR 0x27] @ ''online'' @ [CHR 0x27]"
| "sql_text (InsertFriend a b) = ''insert into Friend(userid, friendid) values(?, ?)''"
| "sql_text (SelectFriends u) =
     ''SELECT a.id, a.name, a.state FROM User as a JOIN Friend as b ON a.id = b.friendid where b.userid='' @
     to_string u"
| "sql_text (InsertAllGroup n d) = ''insert into AllGroup(groupname, groupdesc) values(?, ?)''"
| "sql_text LastInsertId = ''SELECT LAST_INSERT_ID() AS last_id''"
| "sql_text (InsertGroupUser g u r) = ''insert into GroupUser(groupid, userid, grouprole) values(?, ?, ?)''"
| "sql_text (SelectGroupsOf u) =
     ''select a.id, a.groupname, a.groupdesc from AllGroup as a join GroupUser as b on a.id=b.groupid where b.userid='' @
     to_string u"
| "sql_text (SelectGroupMembers g) =
     ''select a.id, a.name, a.state, b.grouprole from User as a join GroupUser as b on a.id=b.userid where b.groupid='' @
     to_string g"
| "sql_text (SelectGroupUserIds g u) =
     ''select userid from GroupUser where groupid='' @ to_string g @ '' and userid<>'' @ to_string u"
| "sql_text (InsertOffline u m) = ''INSERT INTO OfflineMessage (userid, message) VALUES (?, ?)''"
| "sql_text (DeleteOffline u) = ''DELETE FROM OfflineMessage where userid=?''"
| "sql_text (SelectOffline u) =
     ''select userid, message from OfflineMessage where userid='' @ to_string u"

text \<open>
  A result row: every query of the program selects one integer column, read with
  \<open>getInt(1)\<close>, and then character columns, read with \<open>getString(2)\<close>, ... Reading a
  column that is not there raises.
\<close>

type_synonym sql_row = "int \<times> string list"

type_synonym 'db sql_exec = "nat \<Rightarrow> sql_stmt \<Rightarrow> 'db \<Rightarrow> (sql_exc + sql_row list) \<times> 'db"

definition getInt1 :: "sql_row \<Rightarrow> int" where
  "getInt1 r = fst r"

definition getString :: "nat \<Rightarrow> sql_row \<Rightarrow> sql_exc + string" where
  "getString i r =
     (if 2 \<le> i \<and> i - 2 < length (snd r) then Inr (snd r ! (i - 2)) else Inl SQLException)"


subsection \<open>Tables\<close>

record tables =
  t_User :: "(int \<times> string \<times> string \<times> string) list"
  t_Friend :: "(int \<times> int) list"
  t_AllGroup :: "(int \<times> string \<times> string) list"
  t_GroupUser :: "(int \<times> int \<times> string) list"
  t_OfflineMessage :: "(int \<times> int \<times> string) list"
  last_id :: "nat \<Rightarrow> int"

text \<open>
  What depends on the installation: the collation by which \<open>UNIQUE\<close> compares names, and
  whether \<open>CHECK\<close> constraints are enforced (MySQL parses and ignores them before 8.0.16;
  the README names 5.7.36).
\<close>

record sql_config =
  collation :: "string \<Rightarrow> string"
  check_enforced :: bool

text \<open>\<open>VARCHAR\<close> lengths count characters: the bytes that do not continue a UTF-8 sequence.\<close>

definition utf8_length :: "string \<Rightarrow> nat" where
  "utf8_length s = length (filter (\<lambda>c. \<not> (128 \<le> (of_char c :: nat) \<and> (of_char c :: nat) < 192)) s)"

definition user_ids :: "tables \<Rightarrow> int list" where
  "user_ids t = map fst (t_User t)"

definition group_ids :: "tables \<Rightarrow> int list" where
  "group_ids t = map fst (t_AllGroup t)"

definition fresh_key :: "int \<Rightarrow> int list \<Rightarrow> bool" where
  "fresh_key i is \<longleftrightarrow> 0 < i \<and> i < 2 ^ 31 \<and> i \<notin> set is"

definition user_row_ok :: "sql_config \<Rightarrow> tables \<Rightarrow> string \<Rightarrow> string \<Rightarrow> string \<Rightarrow> bool" where
  "user_row_ok cfg t n p s \<longleftrightarrow> utf8_length n \<le> 50 \<and> utf8_length p \<le> 100 \<and>
     s \<in> {''online'', ''offline''} \<and>
     collation cfg n \<notin> (\<lambda>(i, n', p', s'). collation cfg n') ` set (t_User t)"

definition friend_row_ok :: "sql_config \<Rightarrow> tables \<Rightarrow> int \<Rightarrow> int \<Rightarrow> bool" where
  "friend_row_ok cfg t a b \<longleftrightarrow> a \<in> set (user_ids t) \<and> b \<in> set (user_ids t) \<and>
     (a, b) \<notin> set (t_Friend t) \<and> (check_enforced cfg \<longrightarrow> a < b)"

definition group_row_ok :: "sql_config \<Rightarrow> tables \<Rightarrow> string \<Rightarrow> string \<Rightarrow> bool" where
  "group_row_ok cfg t n d \<longleftrightarrow> utf8_length n \<le> 50 \<and> utf8_length d \<le> 200 \<and>
     collation cfg n \<notin> (\<lambda>(i, n', d'). collation cfg n') ` set (t_AllGroup t)"

definition member_row_ok :: "tables \<Rightarrow> int \<Rightarrow> int \<Rightarrow> string \<Rightarrow> bool" where
  "member_row_ok t g u r \<longleftrightarrow> g \<in> set (group_ids t) \<and> u \<in> set (user_ids t) \<and>
     r \<in> {''creator'', ''normal''} \<and> (g, u) \<notin> (\<lambda>(g', u', r'). (g', u')) ` set (t_GroupUser t)"

definition offline_row_ok :: "tables \<Rightarrow> int \<Rightarrow> string \<Rightarrow> bool" where
  "offline_row_ok t u m \<longleftrightarrow> u \<in> set (user_ids t) \<and> utf8_length m \<le> 500"

definition user_rows :: "tables \<Rightarrow> int \<Rightarrow> sql_row list" where
  "user_rows t i = [(i', [n, p, s]). (i', n, p, s) \<leftarrow> t_User t, i' = i]"

definition friend_rows :: "tables \<Rightarrow> int \<Rightarrow> sql_row list" where
  "friend_rows t u = [(i, [n, s]). (a, b) \<leftarrow> t_Friend t, a = u, (i, n, p, s) \<leftarrow> t_User t, i = b]"

definition group_rows :: "tables \<Rightarrow> int \<Rightarrow> sql_row list" where
  "group_rows t u = [(i, [n, d]). (g, u', r) \<leftarrow> t_GroupUser t, u' = u, (i, n, d) \<leftarrow> t_AllGroup t, i = g]"

definition member_rows :: "tables \<Rightarrow> int \<Rightarrow> sql_row list" where
  "member_rows t g = [(i, [n, s, r]). (g', u, r) \<leftarrow> t_GroupUser t, g' = g, (i, n, p, s) \<leftarrow> t_User t, i = u]"

definition member_id_rows :: "tables \<Rightarrow> int \<Rightarrow> int \<Rightarrow> sql_row list" where
  "member_id_rows t g u = [(u', []). (g', u', r) \<leftarrow> t_GroupUser t, g' = g, u' \<noteq> u]"

definition offline_rows :: "tables \<Rightarrow> int \<Rightarrow> sql_row list" where
  "offline_rows t u = [(u', [m]). (i, u', m) \<leftarrow> t_OfflineMessage t, u' = u]"

definition add_user :: "nat \<Rightarrow> int \<Rightarrow> string \<Rightarrow> string \<Rightarrow> string \<Rightarrow> tables \<Rightarrow> tables" where
  "add_user c i n p s t = t\<lparr>t_User := t_User t @ [(i, n, p, s)], last_id := (last_id t)(c := i)\<rparr>"

definition add_group :: "nat \<Rightarrow> int \<Rightarrow> string \<Rightarrow> string \<Rightarrow> tables \<Rightarrow> tables" where
  "add_group c i n d t = t\<lparr>t_AllGroup := t_AllGroup t @ [(i, n, d)], last_id := (last_id t)(c := i)\<rparr>"

definition add_offline :: "nat \<Rightarrow> int \<Rightarrow> int \<Rightarrow> string \<Rightarrow> tables \<Rightarrow> tables" where
  "add_offline c i u m t =
     t\<lparr>t_OfflineMessage := t_OfflineMessage t @ [(i, u, m)], last_id := (last_id t)(c := i)\<rparr>"

definition offline_ids :: "tables \<Rightarrow> int list" where
  "offline_ids t = map fst (t_OfflineMessage t)"

text \<open>
  \<open>sql_effect cfg c s t rows t'\<close>: statement \<open>s\<close> on connection \<open>c\<close> may answer
  \<open>rows\<close> and take the tables from \<open>t\<close> to \<open>t'\<close>. The key an
  \<open>AUTO_INCREMENT\<close> column gets and the order of the rows of a selection are open.
\<close>

fun sql_effect :: "sql_config \<Rightarrow> nat \<Rightarrow> sql_stmt \<Rightarrow> tables \<Rightarrow> sql_row list \<Rightarrow> tables \<Rightarrow> bool" where
  "sql_effect cfg c (InsertUser n p s) t rows t' \<longleftrightarrow>
     user_row_ok cfg t n p s \<and> rows = [] \<and> (\<exists>i. fresh_key i (user_ids t) \<and> t' = add_user c i n p s t)"
| "sql_effect cfg c (SelectUser i) t rows t' \<longleftrightarrow> mset rows = mset (user_rows t i) \<and> t' = t"
| "sql_effect cfg c (UpdateUserState s i) t rows t' \<longleftrightarrow> s \<in> {''online'', ''offline''} \<and> rows = [] \<and>
     t' = t\<lparr>t_User := map (\<lambda>(i', n, p, s'). (i', n, p, if i' = i then s else s')) (t_User t)\<rparr>"
| "sql_effect cfg c ResetUserState t rows t' \<longleftrightarrow> rows = [] \<and>
     t' = t\<lparr>t_User := map (\<lambda>(i, n, p, s). (i, n, p, if s = ''online'' then ''offline'' else s)) (t_User t)\<rparr>"
| "sql_effect cfg c (InsertFriend a b) t rows t' \<longleftrightarrow>
     friend_row_ok cfg t a b \<and> rows = [] \<and> t' = t\<lparr>t_Friend := t_Friend t @ [(a, b)]\<rparr>"
| "sql_effect cfg c (SelectFriends u) t rows t' \<longleftrightarrow> mset rows = mset (friend_rows t u) \<and> t' = t"
| "sql_effect cfg c (InsertAllGroup n d) t rows t' \<longleftrightarrow>
     group_row_ok cfg t n d \<and> rows = [] \<and> (\<exists>i. fresh_key i (group_ids t) \<and> t' = add_group c i n d t)"
| "sql_effect cfg c LastInsertId t rows t' \<longleftrightarrow> rows = [(last_id t c, [])] \<and> t' = t"
| "sql_effect cfg c (InsertGroupUser g u r) t rows t' \<longleftrightarrow>
     member_row_ok t g u r \<and> rows = [] \<and> t' = t\<lparr>t_GroupUser := t_GroupUser t @ [(g, u, r)]\<rparr>"
| "sql_effect cfg c (SelectGroupsOf u) t rows t' \<longleftrightarrow> mset rows = mset (group_rows t u) \<and> t' = t"
| "sql_effect cfg c (SelectGroupMembers g) t rows t' \<longleftrightarrow> mset rows = mset (member_rows t g) \<and> t' = t"
| "sql_effect cfg c (SelectGroupUserIds g u) t rows t' \<longleftrightarrow> mset rows = mset (member_id_rows t g u) \<and> t' = t"
| "sql_effect cfg c (InsertOffline u m) t rows t' \<longleftrightarrow>
     offline_row_ok t u m \<and> rows = [] \<and> (\<exists>i. fresh_key i (offline_ids t) \<and> t' = add_offline c i u m t)"
| "sql_effect cfg c (DeleteOffline u) t rows t' \<longleftrightarrow> rows = [] \<and>
     t' = t\<lparr>t_OfflineMessage := filter (\<lambda>(i, u', m). u' \<noteq> u) (t_OfflineMessage t)\<rparr>"
| "sql_effect cfg c (SelectOffline u) t rows t' \<longleftrightarrow> mset rows = mset (offline_rows t u) \<and> t' = t"

subsection \<open>Integrity\<close>

text \<open>The constraints of the schema: primary, unique and foreign keys, and the checks.\<close>

definition tables_wf :: "sql_config \<Rightarrow> tables \<Rightarrow> bool" where
  "tables_wf cfg t \<longleftrightarrow>
     distinct (user_ids t) \<and> distinct (map (\<lambda>(i, n, p, s). collation cfg n) (t_User t)) \<and>
     distinct (t_Friend t) \<and>
     (\<forall>(a, b) \<in> set (t_Friend t). a \<in> set (user_ids t) \<and> b \<in> set (user_ids t) \<and> (check_enforced cfg \<longrightarrow> a < b)) \<and>
     distinct (group_ids t) \<and> distinct (map (\<lambda>(i, n, d). collation cfg n) (t_AllGroup t)) \<and>
     distinct (map (\<lambda>(g, u, r). (g, u)) (t_GroupUser t)) \<and>
     (\<forall>(g, u, r) \<in> set (t_GroupUser t). g \<in> set (group_ids t) \<and> u \<in> set (user_ids t)) \<and>
     distinct (offline_ids t) \<and>
     (\<forall>(i, u, m) \<in> set (t_OfflineMessage t). u \<in> set (user_ids t) \<and> utf8_length m \<le> 500)"

lemmas row_ok_defs = user_row_ok_def friend_row_ok_def group_row_ok_def member_row_ok_def
  offline_row_ok_def fresh_key_def

lemmas table_defs = user_ids_def group_ids_def offline_ids_def add_user_def add_group_def add_offline_def

lemma set_state_wf:
  assumes "tables_wf cfg t"
  shows "tables_wf cfg (t\<lparr>t_User := map (\<lambda>(i, n, p, s). (i, n, p, f i s)) (t_User t)\<rparr>)"
proof -
  let ?t = "t\<lparr>t_User := map (\<lambda>(i, n, p, s). (i, n, p, f i s)) (t_User t)\<rparr>"
  have ids: "user_ids ?t = user_ids t" by (auto simp: user_ids_def)
  have names: "(\<lambda>(i, n, p, s). collation cfg n) \<circ> (\<lambda>(i, n, p, s). (i, n, p, f i s)) =
      (\<lambda>(i :: int, n, p :: string, s :: string). collation cfg n)"
    by auto
  from assms ids names show ?thesis
    unfolding tables_wf_def by (simp add: group_ids_def offline_ids_def)
qed

lemma offline_filter_wf:
  "distinct (map fst ms) \<Longrightarrow> distinct (map fst (filter P ms))"
  by (simp add: distinct_map_filter)

lemma sql_effect_wf_rows:
  assumes "tables_wf cfg t" and "sql_effect cfg c s t rows t'"
  shows "tables_wf cfg t'"
proof (cases s)
  case (UpdateUserState st i)
  with assms set_state_wf [of cfg t "\<lambda>i' s'. if i' = i then st else s'"] show ?thesis by simp
next
  case ResetUserState
  with assms set_state_wf [of cfg t "\<lambda>i s. if s = ''online'' then ''offline'' else s"] show ?thesis by simp
next
  case (DeleteOffline u)
  with assms show ?thesis
    by (auto simp: tables_wf_def table_defs offline_filter_wf)
next
  case (InsertOffline u m)
  with assms obtain i where "offline_row_ok t u m" "fresh_key i (offline_ids t)" "t' = add_offline c i u m t"
    by auto
  with assms(1) show ?thesis
    by (simp add: tables_wf_def row_ok_defs add_offline_def user_ids_def group_ids_def offline_ids_def)
qed (use assms in \<open>auto simp: tables_wf_def table_defs row_ok_defs\<close>)

subsection \<open>What the code relies on\<close>

locale mysql_server =
  fixes cfg :: sql_config
    and exec :: "'db sql_exec"
    and view :: "'db \<Rightarrow> tables"
  assumes exec_effect: "exec c s d = (Inr rows, d') \<Longrightarrow> sql_effect cfg c s (view d) rows (view d')"
    and exec_raise: "exec c s d = (Inl e, d') \<Longrightarrow> \<exists>l. view d' = (view d)\<lparr>last_id := l\<rparr>"
begin

text \<open>Every execution, raising or not, keeps the integrity of the tables.\<close>

lemma exec_wf: "tables_wf cfg (view d) \<Longrightarrow> tables_wf cfg (view (snd (exec c s d)))"
proof -
  assume wf: "tables_wf cfg (view d)"
  obtain r d' where e: "exec c s d = (r, d')" by fastforce
  show ?thesis
  proof (cases r)
    case (Inl x)
    with e exec_raise [of c s d x d'] obtain l where "view d' = (view d)\<lparr>last_id := l\<rparr>" by auto
    with wf e show ?thesis by (simp add: tables_wf_def table_defs)
  next
    case (Inr rows)
    with e exec_effect have "sql_effect cfg c s (view d) rows (view d')" by simp
    with wf e show ?thesis by (simp add: sql_effect_wf_rows)
  qed
qed

end

definition keys_left :: "int list \<Rightarrow> bool" where
  "keys_left is \<longleftrightarrow> list_all (\<lambda>i. i < 2 ^ 31 - 1) is"

text \<open>The statement violates no constraint and the key counters are not exhausted.\<close>

fun sql_enabled :: "sql_config \<Rightarrow> sql_stmt \<Rightarrow> tables \<Rightarrow> bool" where
  "sql_enabled cfg (InsertUser n p s) t \<longleftrightarrow> user_row_ok cfg t n p s \<and> keys_left (user_ids t)"
| "sql_enabled cfg (UpdateUserState s i) t \<longleftrightarrow> s \<in> {''online'', ''offline''}"
| "sql_enabled cfg (InsertFriend a b) t \<longleftrightarrow> friend_row_ok cfg t a b"
| "sql_enabled cfg (InsertAllGroup n d) t \<longleftrightarrow> group_row_ok cfg t n d \<and> keys_left (group_ids t)"
| "sql_enabled cfg (InsertGroupUser g u r) t \<longleftrightarrow> member_row_ok t g u r"
| "sql_enabled cfg (InsertOffline u m) t \<longleftrightarrow> offline_row_ok t u m \<and> keys_left (offline_ids t)"
| "sql_enabled cfg _ t \<longleftrightarrow> True"

locale mysql_reliable = mysql_server +
  assumes exec_enabled: "sql_enabled cfg s (view d) \<Longrightarrow> \<exists>rows d'. exec c s d = (Inr rows, d')"
begin

lemma exec_ok:
  assumes "sql_enabled cfg s (view d)"
  obtains rows d' where "exec c s d = (Inr rows, d')" and "sql_effect cfg c s (view d) rows (view d')"
  using exec_enabled [OF assms] exec_effect by blast

end

subsection \<open>A concrete server\<close>

definition next_key :: "int list \<Rightarrow> int" where
  "next_key is = 1 + foldr max is 0"

lemma foldr_max_ge: "i \<in> set is \<Longrightarrow> i \<le> foldr max is (b :: int)" and foldr_max_base: "b \<le> foldr max is (b :: int)"
  by (induction "is") auto

lemma foldr_max_less: "list_all (\<lambda>i. i < m) is \<Longrightarrow> b < m \<Longrightarrow> foldr max is b < (m :: int)"
  by (induction "is") auto

lemma next_key_fresh: "keys_left is \<Longrightarrow> fresh_key (next_key is) is"
proof -
  assume k: "keys_left is"
  have "i < next_key is" if "i \<in> set is" for i
    using foldr_max_ge [OF that, of 0] by (simp add: next_key_def)
  moreover have "0 < next_key is" using foldr_max_base [of 0 "is"] by (simp add: next_key_def)
  moreover have "next_key is < 2 ^ 31"
    using foldr_max_less [of "2 ^ 31 - 1" "is" 0] k by (simp add: next_key_def keys_left_def)
  ultimately show ?thesis by (auto simp: fresh_key_def)
qed

fun ref_rows :: "sql_stmt \<Rightarrow> nat \<Rightarrow> tables \<Rightarrow> sql_row list" where
  "ref_rows (SelectUser i) c t = user_rows t i"
| "ref_rows (SelectFriends u) c t = friend_rows t u"
| "ref_rows LastInsertId c t = [(last_id t c, [])]"
| "ref_rows (SelectGroupsOf u) c t = group_rows t u"
| "ref_rows (SelectGroupMembers g) c t = member_rows t g"
| "ref_rows (SelectGroupUserIds g u) c t = member_id_rows t g u"
| "ref_rows (SelectOffline u) c t = offline_rows t u"
| "ref_rows _ c t = []"

fun ref_update :: "nat \<Rightarrow> sql_stmt \<Rightarrow> tables \<Rightarrow> tables" where
  "ref_update c (InsertUser n p s) t = add_user c (next_key (user_ids t)) n p s t"
| "ref_update c (UpdateUserState s i) t =
     t\<lparr>t_User := map (\<lambda>(i', n, p, s'). (i', n, p, if i' = i then s else s')) (t_User t)\<rparr>"
| "ref_update c ResetUserState t =
     t\<lparr>t_User := map (\<lambda>(i, n, p, s). (i, n, p, if s = ''online'' then ''offline'' else s)) (t_User t)\<rparr>"
| "ref_update c (InsertFriend a b) t = t\<lparr>t_Friend := t_Friend t @ [(a, b)]\<rparr>"
| "ref_update c (InsertAllGroup n d) t = add_group c (next_key (group_ids t)) n d t"
| "ref_update c (InsertGroupUser g u r) t = t\<lparr>t_GroupUser := t_GroupUser t @ [(g, u, r)]\<rparr>"
| "ref_update c (InsertOffline u m) t = add_offline c (next_key (offline_ids t)) u m t"
| "ref_update c (DeleteOffline u) t =
     t\<lparr>t_OfflineMessage := filter (\<lambda>(i, u', m). u' \<noteq> u) (t_OfflineMessage t)\<rparr>"
| "ref_update c _ t = t"

definition ref_sql :: "sql_config \<Rightarrow> tables sql_exec" where
  "ref_sql cfg c s t =
     (if sql_enabled cfg s t then (Inr (ref_rows s c t), ref_update c s t) else (Inl SQLException, t))"

interpretation ref_mysql: mysql_reliable cfg "ref_sql cfg" "\<lambda>t. t" for cfg
proof unfold_locales
  fix c s d rows d'
  assume "ref_sql cfg c s d = (Inr rows, d')"
  then have e: "sql_enabled cfg s d" "rows = ref_rows s c d" "d' = ref_update c s d"
    by (auto simp: ref_sql_def split: if_splits)
  then show "sql_effect cfg c s d rows d'"
    by (cases s) (auto intro: next_key_fresh)
next
  fix c s d e d'
  assume "ref_sql cfg c s d = (Inl e, d')"
  then show "\<exists>l. d' = d\<lparr>last_id := l\<rparr>"
    by (auto simp: ref_sql_def split: if_splits intro!: exI [of _ "last_id d"])
next
  fix s d c
  assume "sql_enabled cfg s d"
  then show "\<exists>rows d'. ref_sql cfg c s d = (Inr rows, d')"
    by (simp add: ref_sql_def)
qed

lemmas ref_sql_simps = ref_sql_def row_ok_defs table_defs keys_left_def next_key_def utf8_length_def
  user_rows_def friend_rows_def group_rows_def member_rows_def member_id_rows_def offline_rows_def

end
