(* ===== verification/Mysql_Pool.thy ===== *)
theory Mysql_Pool
  imports Sql_Database
begin

section \<open>MySQLConnectionPool\<close>

text \<open>
  \<open>src/server/mysqlconnectionpool/\<close>: the singleton pool of MySQL connections. A
  \<open>sql::Connection *\<close> is a number, \<open>nullptr\<close> is \<open>None\<close>; the deque
  \<open>connections_\<close> is a list, front first. The connector (\<open>sql::Driver\<close>) is a
  parameter. The second half models the threads of the server that call
  \<open>getConnection\<close> concurrently, as a step relation whose steps are the parts of the two
  operations between lock operations.
\<close>

record mysql_pool =
  mp_url :: string
  mp_datebaseName :: string
  mp_user :: string
  mp_password :: string
  mp_poolSize :: int
  mp_driver :: bool \<comment> \<open>the pointer has been set\<close>
  connections :: "nat option list"

text \<open>The connector: what \<open>sql::Driver\<close> and \<open>sql::Connection\<close> offer beside statements.\<close>

record 'db sql_driver =
  drv_instance :: bool \<comment> \<open>\<open>get_mysql_driver_instance\<close> returns; otherwise it raises\<close>
  drv_connect :: "string \<Rightarrow> string \<Rightarrow> string \<Rightarrow> 'db \<Rightarrow> (sql_exc + nat option) \<times> 'db"
  drv_setSchema :: "nat \<Rightarrow> string \<Rightarrow> 'db \<Rightarrow> (sql_exc + unit) \<times> 'db"
  drv_close :: "nat \<Rightarrow> 'db \<Rightarrow> (sql_exc + unit) \<times> 'db"

definition createConnection ::
  "'db sql_driver \<Rightarrow> mysql_pool \<Rightarrow> 'db \<Rightarrow> (sql_exc, nat option) outcome \<times> 'db" where
  "createConnection D p d =
     (if \<not> mp_driver p then (Undef, d)
      else case drv_connect D (mp_url p) (mp_user p) (mp_password p) d of
        (Inl e, d1) \<Rightarrow> (Throw e, d1)
      | (Inr None, d1) \<Rightarrow> (Undef, d1)
      | (Inr (Some c), d1) \<Rightarrow>
          (case drv_setSchema D c (mp_datebaseName p) d1 of
             (Inl e, d2) \<Rightarrow> (Throw e, d2)
           | (Inr _, d2) \<Rightarrow> (Ret (Some c), d2)))"

text \<open>The loop of \<open>initConnection\<close>, by the number of iterations left.\<close>

fun initConnection_loop ::
  "'db sql_driver \<Rightarrow> nat \<Rightarrow> mysql_pool \<Rightarrow> 'db \<Rightarrow> (sql_exc, unit) outcome \<times> mysql_pool \<times> 'db" where
  "initConnection_loop D 0 p d = (Ret (), p, d)"
| "initConnection_loop D (Suc n) p d =
     (case createConnection D p d of
        (Ret c, d1) \<Rightarrow> initConnection_loop D n (p\<lparr>connections := connections p @ [c]\<rparr>) d1
      | (Throw e, d1) \<Rightarrow> (Throw e, p, d1)
      | (Undef, d1) \<Rightarrow> (Undef, p, d1))"

definition initConnection ::
  "'db sql_driver \<Rightarrow> int \<Rightarrow> mysql_pool \<Rightarrow> 'db \<Rightarrow> (sql_exc, unit) outcome \<times> mysql_pool \<times> 'db" where
  "initConnection D poolSize p d = initConnection_loop D (nat poolSize) p d"

text \<open>A failure to get the driver is logged and the pointer stays as it was.\<close>

definition initPool ::
  "'db sql_driver \<Rightarrow> string \<Rightarrow> string \<Rightarrow> string \<Rightarrow> string \<Rightarrow> int \<Rightarrow> mysql_pool \<Rightarrow> 'db \<Rightarrow>
   (sql_exc, unit) outcome \<times> mysql_pool \<times> 'db" where
  "initPool D url datebaseName user password poolSize p d =
     (let p1 = p\<lparr>mp_url := url, mp_datebaseName := datebaseName, mp_user := user,
                 mp_password := password, mp_poolSize := poolSize\<rparr>;
          p2 = (if drv_instance D then p1\<lparr>mp_driver := True\<rparr> else p1)
      in initConnection D poolSize p2 d)"

definition getConnection :: "mysql_pool \<Rightarrow> nat option \<times> mysql_pool" where
  "getConnection p =
     (case connections p of
        [] \<Rightarrow> (None, p)
      | conn # rest \<Rightarrow> (conn, p\<lparr>connections := rest\<rparr>))"

definition releaseConnection :: "nat option \<Rightarrow> mysql_pool \<Rightarrow> bool \<times> mysql_pool" where
  "releaseConnection conn p =
     (if conn = None then (False, p)
      else (True, p\<lparr>connections := connections p @ [conn]\<rparr>))"

definition destoryConnection :: "'db sql_driver \<Rightarrow> nat option \<Rightarrow> 'db \<Rightarrow> 'db" where
  "destoryConnection D conn d =
     (case conn of None \<Rightarrow> d | Some c \<Rightarrow> snd (drv_close D c d))"

definition destoryConnectionPool :: "'db sql_driver \<Rightarrow> mysql_pool \<Rightarrow> 'db \<Rightarrow> mysql_pool \<times> 'db" where
  "destoryConnectionPool D p d =
     (p\<lparr>connections := []\<rparr>, fold (destoryConnection D) (connections p) d)"

subsection \<open>The pool is a connection pool\<close>

definition idle_conns :: "mysql_pool \<Rightarrow> nat list" where
  "idle_conns p = map the (connections p)"

definition no_null :: "mysql_pool \<Rightarrow> bool" where
  "no_null p \<longleftrightarrow> None \<notin> set (connections p)"

definition give_back :: "nat \<Rightarrow> mysql_pool \<Rightarrow> mysql_pool" where
  "give_back c p = snd (releaseConnection (Some c) p)"

interpretation mysql: conn_pool getConnection give_back idle_conns no_null
proof unfold_locales
  fix p
  assume "no_null p" and "idle_conns p = []"
  then show "getConnection p = (None, p)"
    by (simp add: getConnection_def idle_conns_def)
next
  fix p c cs
  assume nn: "no_null p" and "idle_conns p = c # cs"
  then obtain x xs where x: "connections p = x # xs" "the x = c" "map the xs = cs"
    by (auto simp: idle_conns_def map_eq_Cons_conv)
  with nn have "x = Some c" by (cases x) (auto simp: no_null_def)
  with x nn show "fst (getConnection p) = Some c \<and> idle_conns (snd (getConnection p)) = cs \<and>
      no_null (snd (getConnection p))"
    by (simp add: getConnection_def idle_conns_def no_null_def)
next
  fix p c
  assume "no_null p"
  then show "idle_conns (give_back c p) = idle_conns p @ [c]"
    by (simp add: give_back_def releaseConnection_def idle_conns_def)
next
  fix p c
  assume "no_null p"
  then show "no_null (give_back c p)"
    by (auto simp: give_back_def releaseConnection_def no_null_def)
qed

lemma createConnection_Ret: "createConnection D p d = (Ret c, d') \<Longrightarrow> c \<noteq> None"
  by (auto simp: createConnection_def split: if_splits sum.splits option.splits prod.splits)

lemma initConnection_loop_Ret:
  assumes "initConnection_loop D n p d = (Ret (), p', d')" and "no_null p"
  shows "no_null p' \<and> length (connections p') = length (connections p) + n"
  using assms
proof (induction n arbitrary: p d)
  case 0
  then show ?case by simp
next
  case (Suc n)
  then obtain c d1 where c: "createConnection D p d = (Ret c, d1)"
    and l: "initConnection_loop D n (p\<lparr>connections := connections p @ [c]\<rparr>) d1 = (Ret (), p', d')"
    by (auto split: outcome.splits prod.splits)
  from createConnection_Ret [OF c] Suc.prems(2)
  have "no_null (p\<lparr>connections := connections p @ [c]\<rparr>)"
    by (auto simp: no_null_def)
  from Suc.IH [OF l this] show ?case by simp
qed

lemma initConnection_loop_failure:
  assumes "initConnection_loop D n p d = (r, p', d')" and "r \<noteq> Ret ()"
  shows "length (connections p') < length (connections p) + n"
  using assms
proof (induction n arbitrary: p d)
  case 0
  then show ?case by simp
next
  case (Suc n)
  then show ?case by (fastforce split: outcome.splits prod.splits)
qed

subsection \<open>Concurrent callers\<close>

text \<open>
  \<open>getConnection\<close> reads \<open>connections_.size()\<close> before it takes \<open>mutex_\<close>, and
  does not look again once it holds it. A thread is outside, has seen a non-empty pool, or holds a
  connection; \<open>undefined_behaviour\<close> records that \<open>front\<close> and \<open>pop_front\<close> were called on an
  empty deque, and \<open>answers\<close> what every finished call of \<open>getConnection\<close> has given its thread, a
  connection or \<open>nullptr\<close>, in order.
\<close>

datatype thread_pc = Outside | SawNonEmpty | Holding nat

record pool_sys =
  queue :: "nat list"
  pcs :: "nat \<Rightarrow> thread_pc"
  undefined_behaviour :: bool
  answers :: "(nat \<times> nat option) list"

inductive pool_step :: "pool_sys \<Rightarrow> pool_sys \<Rightarrow> bool" where
  size_zero: "\<lbrakk>\<not> undefined_behaviour s; pcs s t = Outside; queue s = []\<rbrakk> \<Longrightarrow>
    pool_step s (s\<lparr>answers := answers s @ [(t, None)]\<rparr>)"
| size_positive: "\<lbrakk>\<not> undefined_behaviour s; pcs s t = Outside; queue s \<noteq> []\<rbrakk> \<Longrightarrow>
    pool_step s (s\<lparr>pcs := (pcs s)(t := SawNonEmpty)\<rparr>)"
| pop: "\<lbrakk>\<not> undefined_behaviour s; pcs s t = SawNonEmpty; queue s = c # cs\<rbrakk> \<Longrightarrow>
    pool_step s (s\<lparr>queue := cs, pcs := (pcs s)(t := Holding c), answers := answers s @ [(t, Some c)]\<rparr>)"
| pop_empty: "\<lbrakk>\<not> undefined_behaviour s; pcs s t = SawNonEmpty; queue s = []\<rbrakk> \<Longrightarrow>
    pool_step s (s\<lparr>undefined_behaviour := True\<rparr>)"
| release: "\<lbrakk>\<not> undefined_behaviour s; pcs s t = Holding c\<rbrakk> \<Longrightarrow>
    pool_step s (s\<lparr>queue := queue s @ [c], pcs := (pcs s)(t := Outside)\<rparr>)"

definition pool_init :: "nat list \<Rightarrow> pool_sys" where
  "pool_init cs = \<lparr>queue = cs, pcs = (\<lambda>_. Outside), undefined_behaviour = False, answers = []\<rparr>"

inductive pool_reach :: "nat list \<Rightarrow> pool_sys \<Rightarrow> bool" where
  start: "pool_reach cs (pool_init cs)"
| step: "pool_reach cs s \<Longrightarrow> pool_step s s' \<Longrightarrow> pool_reach cs s'"

inductive_cases pool_stepE: "pool_step s s'"

text \<open>Connections are neither lost nor duplicated: idle or held by exactly one thread.\<close>

definition pool_sys_inv :: "nat list \<Rightarrow> pool_sys \<Rightarrow> bool" where
  "pool_sys_inv cs s \<longleftrightarrow>
     distinct (queue s) \<and> set (queue s) \<subseteq> set cs \<and>
     (\<forall>t c. pcs s t = Holding c \<longrightarrow> c \<in> set cs \<and> c \<notin> set (queue s)) \<and>
     (\<forall>t t' c. pcs s t = Holding c \<longrightarrow> pcs s t' = Holding c \<longrightarrow> t = t') \<and>
     (\<forall>c \<in> set cs. c \<in> set (queue s) \<or> (\<exists>t. pcs s t = Holding c))"

lemma pool_sys_inv_init: "distinct cs \<Longrightarrow> pool_sys_inv cs (pool_init cs)"
  by (simp add: pool_sys_inv_def pool_init_def)

lemma pool_step_inv_release:
  assumes "pool_sys_inv cs s" and "pcs s t = Holding c"
  shows "pool_sys_inv cs (s\<lparr>queue := queue s @ [c], pcs := (pcs s)(t := Outside)\<rparr>)"
  using assms unfolding pool_sys_inv_def by (auto split: if_splits) (metis thread_pc.inject)

lemma pool_step_inv_pop:
  assumes "pool_sys_inv cs s" and "pcs s t = SawNonEmpty" and "queue s = c # q"
  shows "pool_sys_inv cs (s\<lparr>queue := q, pcs := (pcs s)(t := Holding c), answers := a\<rparr>)"
  using assms unfolding pool_sys_inv_def
  by (auto split: if_splits) (metis thread_pc.distinct(5))

lemma pool_step_inv:
  assumes "pool_step s s'" and "pool_sys_inv cs s"
  shows "pool_sys_inv cs s'"
  using assms
proof (cases rule: pool_step.cases)
  case (size_positive t)
  with assms(2) show ?thesis
    unfolding pool_sys_inv_def by (auto split: if_splits) (metis thread_pc.distinct(3))
next
  case (size_zero t)
  with assms(2) show ?thesis by (simp add: pool_sys_inv_def)
next
  case (pop_empty t)
  with assms(2) show ?thesis by (simp add: pool_sys_inv_def)
qed (use assms(2) pool_step_inv_release pool_step_inv_pop in auto)

lemma pool_reach_inv: "pool_reach cs s \<Longrightarrow> distinct cs \<Longrightarrow> pool_sys_inv cs s"
  by (induction rule: pool_reach.induct) (auto intro: pool_sys_inv_init pool_step_inv)

end
