(* ===== verification/Data_Models.thy ===== *)
theory Data_Models
  imports Mysql_Pool
begin

section \<open>The data classes: UserModel, FriendModel, GroupModel\<close>

text \<open>
  \<open>src/server/model/\<close>: the entity classes as records and the operations that read and
  write them through a pooled connection. Every operation takes the statement executor of the
  database as its parameter \<open>S\<close> and passes the state of the pool and of the database
  explicitly. All of them have one shape, \<open>sql_call\<close>: take a connection and give up if
  there is none, run the statements in a \<open>try\<close> block that returns the connection as its
  last step, and answer a default value when an exception was caught, in which case the
  connection is not returned.
\<close>

subsection \<open>Entities\<close>

record user =
  user_id :: int
  user_name :: string
  user_password :: string
  user_state :: string

record groupuser = user +
  gu_role :: string

record group =
  group_id :: int
  group_name :: string
  group_desc :: string
  group_users :: "groupuser list"

text \<open>\<open>User(int id = -1, string name = "", string pwd = "", string state = "offline")\<close>\<close>

definition User :: "int \<Rightarrow> string \<Rightarrow> string \<Rightarrow> string \<Rightarrow> user" where
  "User i n p s = \<lparr>user_id = i, user_name = n, user_password = p, user_state = s\<rparr>"

definition User_default :: user where
  "User_default = User (- 1) [] [] ''offline''"

text \<open>The converting constructor at work in \<open>return false\<close>: \<open>User(0)\<close>.\<close>

definition User_of_bool :: "bool \<Rightarrow> user" where
  "User_of_bool b = User (if b then 1 else 0) [] [] ''offline''"

definition Group :: "int \<Rightarrow> string \<Rightarrow> string \<Rightarrow> group" where
  "Group i n ds = \<lparr>group_id = i, group_name = n, group_desc = ds, group_users = []\<rparr>"

lemma User_sel [simp]:
  "user_id (User i n p s) = i" "user_name (User i n p s) = n"
  "user_password (User i n p s) = p" "user_state (User i n p s) = s"
  by (simp_all add: User_def)

lemma Group_sel [simp]:
  "group_id (Group i n ds) = i" "group_name (Group i n ds) = n"
  "group_desc (Group i n ds) = ds" "group_users (Group i n ds) = []"
  by (simp_all add: Group_def)

subsection \<open>Running statements on a pooled connection\<close>

record 'db mysql_state =
  pool :: mysql_pool
  db :: 'db

definition sql_call ::
  "'a \<Rightarrow> 'a \<Rightarrow> bool \<Rightarrow> (nat \<Rightarrow> 'db \<Rightarrow> (sql_exc + 'a) \<times> 'db) \<Rightarrow> 'db mysql_state \<Rightarrow> 'a \<times> 'db mysql_state" where
  "sql_call no_conn caught releases body m =
     (case getConnection (pool m) of
        (None, p) \<Rightarrow> (no_conn, m\<lparr>pool := p\<rparr>)
      | (Some c, p) \<Rightarrow>
          (case body c (db m) of
             (Inl e, d) \<Rightarrow> (caught, m\<lparr>pool := p, db := d\<rparr>)
           | (Inr v, d) \<Rightarrow>
               (v, m\<lparr>pool := (if releases then snd (releaseConnection (Some c) p) else p), db := d\<rparr>)))"

text \<open>Execute one statement and turn its rows into a result; reading a row may raise.\<close>

definition query_with ::
  "'db sql_exec \<Rightarrow> sql_stmt \<Rightarrow> (sql_row list \<Rightarrow> sql_exc + 'a) \<Rightarrow> nat \<Rightarrow> 'db \<Rightarrow> (sql_exc + 'a) \<times> 'db" where
  "query_with S s read c d =
     (case S c s d of (Inl e, d') \<Rightarrow> (Inl e, d') | (Inr rows, d') \<Rightarrow> (read rows, d'))"

subsection \<open>UserModel\<close>

definition UserModel_insert :: "'db sql_exec \<Rightarrow> user \<Rightarrow> 'db mysql_state \<Rightarrow> bool \<times> 'db mysql_state" where
  "UserModel_insert S u =
     sql_call False False True
       (query_with S (InsertUser (user_name u) (user_password u) (user_state u)) (\<lambda>_. Inr True))"

fun read_user :: "sql_row list \<Rightarrow> sql_exc + user" where
  "read_user [] = Inr User_default"
| "read_user (r # rs) =
     bindR (getString 2 r) (\<lambda>n. bindR (getString 3 r) (\<lambda>p. bindR (getString 4 r) (\<lambda>s.
       Inr (User (getInt1 r) n p s))))"

definition UserModel_query :: "'db sql_exec \<Rightarrow> int \<Rightarrow> 'db mysql_state \<Rightarrow> user \<times> 'db mysql_state" where
  "UserModel_query S i =
     sql_call (User_of_bool False) User_default True (query_with S (SelectUser i) read_user)"

definition UserModel_updateState :: "'db sql_exec \<Rightarrow> user \<Rightarrow> 'db mysql_state \<Rightarrow> unit \<times> 'db mysql_state" where
  "UserModel_updateState S u =
     sql_call () () True (query_with S (UpdateUserState (user_state u) (user_id u)) (\<lambda>_. Inr ()))"

definition UserModel_resetState :: "'db sql_exec \<Rightarrow> 'db mysql_state \<Rightarrow> unit \<times> 'db mysql_state" where
  "UserModel_resetState S = sql_call () () True (query_with S ResetUserState (\<lambda>_. Inr ()))"

subsection \<open>FriendModel\<close>

definition FriendModel_insert :: "'db sql_exec \<Rightarrow> int \<Rightarrow> int \<Rightarrow> 'db mysql_state \<Rightarrow> unit \<times> 'db mysql_state" where
  "FriendModel_insert S userid friendid =
     sql_call () () True
       (query_with S
          (if userid < friendid then InsertFriend userid friendid else InsertFriend friendid userid)
          (\<lambda>_. Inr ()))"

definition read_friend :: "sql_row \<Rightarrow> sql_exc + user" where
  "read_friend r =
     bindR (getString 2 r) (\<lambda>n. bindR (getString 3 r) (\<lambda>s.
       Inr (User_default\<lparr>user_id := getInt1 r, user_name := n, user_state := s\<rparr>)))"

text \<open>The \<open>try\<close> block of the query returns without giving the connection back.\<close>

definition FriendModel_query :: "'db sql_exec \<Rightarrow> int \<Rightarrow> 'db mysql_state \<Rightarrow> user list \<times> 'db mysql_state" where
  "FriendModel_query S userid =
     sql_call [] [] False (query_with S (SelectFriends userid) (mapR read_friend))"

subsection \<open>GroupModel\<close>

fun read_last_id :: "group \<Rightarrow> sql_row list \<Rightarrow> sql_exc + group" where
  "read_last_id g [] = Inr g"
| "read_last_id g (r # rs) = Inr (g\<lparr>group_id := getInt1 r\<rparr>)"

definition GroupModel_createGroup :: "'db sql_exec \<Rightarrow> group \<Rightarrow> 'db mysql_state \<Rightarrow> group \<times> 'db mysql_state" where
  "GroupModel_createGroup S g =
     sql_call g g True
       (\<lambda>c d. case S c (InsertAllGroup (group_name g) (group_desc g)) d of
                (Inl e, d1) \<Rightarrow> (Inl e, d1)
              | (Inr rows, d1) \<Rightarrow> query_with S LastInsertId (read_last_id g) c d1)"

definition GroupModel_joinGroup ::
  "'db sql_exec \<Rightarrow> int \<Rightarrow> int \<Rightarrow> string \<Rightarrow> 'db mysql_state \<Rightarrow> unit \<times> 'db mysql_state" where
  "GroupModel_joinGroup S userid groupid role =
     sql_call () () True (query_with S (InsertGroupUser groupid userid role) (\<lambda>_. Inr ()))"

definition read_group :: "sql_row \<Rightarrow> sql_exc + group" where
  "read_group r =
     bindR (getString 2 r) (\<lambda>n. bindR (getString 3 r) (\<lambda>ds. Inr (Group (getInt1 r) n ds)))"

definition read_member :: "sql_row \<Rightarrow> sql_exc + groupuser" where
  "read_member r =
     bindR (getString 2 r) (\<lambda>n. bindR (getString 3 r) (\<lambda>s. bindR (getString 4 r) (\<lambda>ro.
       Inr \<lparr>user_id = getInt1 r, user_name = n, user_password = [], user_state = s, gu_role = ro\<rparr>)))"

text \<open>
  \<open>for (Group it : vGroup)\<close>: the loop variable is a copy, so the members it collects are
  dropped with it; only the effect on the connection and a possible exception remain.
\<close>

fun queryGroups_members :: "'db sql_exec \<Rightarrow> nat \<Rightarrow> group list \<Rightarrow> 'db \<Rightarrow> (sql_exc + unit) \<times> 'db" where
  "queryGroups_members S c [] d = (Inr (), d)"
| "queryGroups_members S c (it # gs) d =
     (case query_with S (SelectGroupMembers (group_id it)) (mapR read_member) c d of
        (Inl e, d1) \<Rightarrow> (Inl e, d1)
      | (Inr vGroupUsers, d1) \<Rightarrow>
          (let it' = it\<lparr>group_users := vGroupUsers\<rparr> in queryGroups_members S c gs d1))"

definition GroupModel_queryGroups :: "'db sql_exec \<Rightarrow> int \<Rightarrow> 'db mysql_state \<Rightarrow> group list \<times> 'db mysql_state" where
  "GroupModel_queryGroups S userid =
     sql_call [] [] True
       (\<lambda>c d. case query_with S (SelectGroupsOf userid) (mapR read_group) c d of
                (Inl e, d1) \<Rightarrow> (Inl e, d1)
              | (Inr vGroup, d1) \<Rightarrow>
                  (case queryGroups_members S c vGroup d1 of
                     (Inl e, d2) \<Rightarrow> (Inl e, d2)
                   | (Inr _, d2) \<Rightarrow> (Inr vGroup, d2)))"

definition GroupModel_queryGroupUsers ::
  "'db sql_exec \<Rightarrow> int \<Rightarrow> int \<Rightarrow> 'db mysql_state \<Rightarrow> int list \<times> 'db mysql_state" where
  "GroupModel_queryGroupUsers S userid groupid =
     sql_call [] [] True
       (query_with S (SelectGroupUserIds groupid userid) (\<lambda>rows. Inr (map getInt1 rows)))"

subsection \<open>What every operation does to the pool\<close>

definition available :: "'db mysql_state \<Rightarrow> bool" where
  "available m \<longleftrightarrow> no_null (pool m) \<and> connections (pool m) \<noteq> []"

lemma sql_call_no_conn: "connections (pool m) = [] \<Longrightarrow> sql_call a b r body m = (a, m)"
  by (simp add: sql_call_def getConnection_def)

lemma sql_call_conn:
  assumes "connections (pool m) = Some c # cs"
  shows "sql_call a b r body m =
    (case body c (db m) of
       (Inl e, d) \<Rightarrow> (b, m\<lparr>pool := (pool m)\<lparr>connections := cs\<rparr>, db := d\<rparr>)
     | (Inr v, d) \<Rightarrow> (v, m\<lparr>pool := (pool m)\<lparr>connections := cs @ (if r then [Some c] else [])\<rparr>, db := d\<rparr>))"
  using assms
  by (simp add: sql_call_def getConnection_def releaseConnection_def split: sum.splits prod.splits)

lemma available_Cons:
  assumes "available m"
  obtains c cs where "connections (pool m) = Some c # cs"
proof (cases "connections (pool m)")
  case Nil
  with assms show thesis by (simp add: available_def)
next
  case (Cons x cs)
  with assms obtain c where "x = Some c" by (cases x) (auto simp: available_def no_null_def)
  with Cons that show thesis by simp
qed

lemma sql_call_cases:
  obtains (empty) "connections (pool m) = []" "sql_call a b r body m = (a, m)"
  | (null) cs where "connections (pool m) = None # cs"
      "sql_call a b r body m = (a, m\<lparr>pool := (pool m)\<lparr>connections := cs\<rparr>\<rparr>)"
  | (raised) c cs e d where "connections (pool m) = Some c # cs" "body c (db m) = (Inl e, d)"
      "sql_call a b r body m = (b, m\<lparr>pool := (pool m)\<lparr>connections := cs\<rparr>, db := d\<rparr>)"
  | (returned) c cs v d where "connections (pool m) = Some c # cs" "body c (db m) = (Inr v, d)"
      "sql_call a b r body m =
         (v, m\<lparr>pool := (pool m)\<lparr>connections := cs @ (if r then [Some c] else [])\<rparr>, db := d\<rparr>)"
proof (cases "connections (pool m)")
  case Nil
  then show thesis by (intro empty) (simp_all add: sql_call_no_conn)
next
  case (Cons x cs)
  show thesis
  proof (cases x)
    case None
    with Cons show thesis by (intro null) (simp_all add: sql_call_def getConnection_def)
  next
    case (Some c)
    with Cons have conns: "connections (pool m) = Some c # cs" by simp
    obtain res d where b: "body c (db m) = (res, d)" by fastforce
    show thesis
    proof (cases res)
      case (Inl e)
      with b conns show thesis by (intro raised) (simp_all add: sql_call_conn)
    next
      case (Inr v)
      with b conns show thesis by (intro returned) (simp_all add: sql_call_conn)
    qed
  qed
qed

text \<open>No operation invents connections, and none hands out more than it took.\<close>

lemma sql_call_subset:
  "mset (connections (pool (snd (sql_call a b r body m)))) \<subseteq># mset (connections (pool m))"
  by (cases rule: sql_call_cases [of m a b r body]) simp_all

lemma sql_call_no_null: "no_null (pool m) \<Longrightarrow> no_null (pool (snd (sql_call a b r body m)))"
  using set_mset_mono [OF sql_call_subset [of a b r body m]] by (auto simp: no_null_def)

lemma sql_call_raising:
  assumes "available m" and "\<And>c d. \<exists>e d'. body c d = (Inl e, d')"
  shows "fst (sql_call a b r body m) = b \<and>
    connections (pool (snd (sql_call a b r body m))) = tl (connections (pool m))"
proof -
  obtain c cs where "connections (pool m) = Some c # cs" using assms(1) by (rule available_Cons)
  moreover obtain e d' where "body c (db m) = (Inl e, d')" using assms(2) by blast
  ultimately show ?thesis by (simp add: sql_call_conn)
qed

lemma FriendModel_query_pool: "pool (snd (FriendModel_query S u m)) = snd (getConnection (pool m))"
  unfolding FriendModel_query_def
  by (simp add: sql_call_def split: option.splits prod.splits sum.splits)

lemma fold_FriendModel_query_pool:
  "pool (fold (\<lambda>u m. snd (FriendModel_query S u m)) us m) =
     ((\<lambda>p. snd (getConnection p)) ^^ length us) (pool m)"
  by (induction us arbitrary: m) (simp_all add: FriendModel_query_pool funpow_Suc_right del: funpow.simps(2))

subsection \<open>What the operations do on a reliable database\<close>

lemma user_rows_unique:
  assumes "distinct (user_ids t)" and "(i, n, p, s) \<in> set (t_User t)"
  shows "user_rows t i = [(i, [n, p, s])]"
proof -
  have "concat (map (\<lambda>(i', n, p, s). if i' = i then [(i', [n, p, s])] else []) rs) =
      map (\<lambda>(i, n, p, s). (i, [n, p, s])) (filter (\<lambda>r. fst r = i) rs)"
    for rs :: "(int \<times> string \<times> string \<times> string) list"
    by (induction rs) auto
  then have "user_rows t i = map (\<lambda>(i, n, p, s). (i, [n, p, s])) (filter (\<lambda>r. fst r = i) (t_User t))"
    by (simp add: user_rows_def)
  moreover have "filter (\<lambda>r. fst r = i) rs = [(i, n, p, s)]"
    if "distinct (map fst rs)" "(i, n, p, s) \<in> set rs" for rs :: "(int \<times> string \<times> string \<times> string) list"
    using that by (induction rs) (auto simp: filter_empty_conv image_iff)
  ultimately show ?thesis using assms by (simp add: user_ids_def)
qed

lemma getString_nth: "i < length vs \<Longrightarrow> getString (i + 2) (k, vs) = Inr (vs ! i)"
  by (simp add: getString_def)

lemma getString_simps [simp]:
  "getString 2 (k, v # vs) = Inr v"
  "getString 3 (k, v # w # vs) = Inr w"
  "getString 4 (k, v # w # x # vs) = Inr x"
  by (simp_all add: getString_def)

lemma getInt1_Pair [simp]: "getInt1 (k, vs) = k"
  by (simp add: getInt1_def)

lemma friend_rows_set:
  "set (friend_rows t u) = {(b, [n, s]) | b n p s. (u, b) \<in> set (t_Friend t) \<and> (b, n, p, s) \<in> set (t_User t)}"
  by (fastforce simp: friend_rows_def)

lemma member_id_rows_set:
  "set (member_id_rows t g u) = {(v, []) | v r. (g, v, r) \<in> set (t_GroupUser t) \<and> v \<noteq> u}"
  by (fastforce simp: member_id_rows_def)

lemma group_rows_set:
  "set (group_rows t u) = {(g, [n, ds]) | g n ds r. (g, u, r) \<in> set (t_GroupUser t) \<and> (g, n, ds) \<in> set (t_AllGroup t)}"
  by (fastforce simp: group_rows_def)

lemma member_rows_set:
  "set (member_rows t g) = {(v, [n, s, r]) | v n p s r. (g, v, r) \<in> set (t_GroupUser t) \<and> (v, n, p, s) \<in> set (t_User t)}"
  by (fastforce simp: member_rows_def)

lemmas rows_set = friend_rows_set member_id_rows_set group_rows_set member_rows_set

lemma mset_rows_set: "mset rows = mset rows' \<Longrightarrow> set rows = set rows'"
  by (metis set_mset_mset)

lemma read_friend_row: "read_friend (b, [n, s]) = Inr (User b n [] s)"
  by (simp add: read_friend_def User_default_def User_def)

lemma read_group_row: "read_group (g, [n, ds]) = Inr (Group g n ds)"
  by (simp add: read_group_def)

lemma mapR_read_friend:
  assumes "mset rows = mset (friend_rows t u)"
  shows "\<exists>us. mapR read_friend rows = Inr us \<and> set (map user_id us) = fst ` set (friend_rows t u)"
proof -
  have "mapR read_friend rows = Inr (map (\<lambda>(b, vs). User b (hd vs) [] (vs ! 1)) rows)"
    by (rule mapR_map) (auto simp: mset_rows_set [OF assms] friend_rows_set read_friend_row)
  moreover have "map user_id (map (\<lambda>(b, vs). User b (hd vs) [] (vs ! 1)) rows) = map fst rows"
    by auto
  then have "set (map user_id (map (\<lambda>(b, vs). User b (hd vs) [] (vs ! 1)) rows)) = fst ` set (friend_rows t u)"
    by (simp only: set_map mset_rows_set [OF assms])
  ultimately show ?thesis by blast
qed

lemma sql_call_exec:
  assumes "connections (pool m) = Some c # cs" and "S c s (db m) = (Inr rows, d')"
  shows "sql_call a b r (query_with S s read) m =
    (case read rows of
       Inl e \<Rightarrow> (b, m\<lparr>pool := (pool m)\<lparr>connections := cs\<rparr>, db := d'\<rparr>)
     | Inr v \<Rightarrow> (v, m\<lparr>pool := (pool m)\<lparr>connections := cs @ (if r then [Some c] else [])\<rparr>, db := d'\<rparr>))"
  using assms by (simp add: sql_call_conn query_with_def split: sum.splits)

context mysql_reliable
begin

text \<open>With a connection at hand an enabled statement is executed with its effect.\<close>

lemma call_ok:
  assumes "available m" and "sql_enabled cfg s (view (db m))"
  obtains c cs rows d' where "connections (pool m) = Some c # cs" and "None \<notin> set cs"
    and "exec c s (db m) = (Inr rows, d')" and "sql_effect cfg c s (view (db m)) rows (view d')"
proof -
  obtain c cs where conns: "connections (pool m) = Some c # cs" using assms(1) by (rule available_Cons)
  with assms(1) have "None \<notin> set cs" by (simp add: available_def no_null_def)
  with conns show thesis using assms(2) exec_ok that by metis
qed

lemma UserModel_insert_ok:
  assumes "available m" and "sql_enabled cfg (InsertUser (user_name u) (user_password u) (user_state u)) (view (db m))"
  shows "\<exists>c i. fst (UserModel_insert exec u m) \<and> available (snd (UserModel_insert exec u m)) \<and>
    fresh_key i (user_ids (view (db m))) \<and>
    view (db (snd (UserModel_insert exec u m))) =
      add_user c i (user_name u) (user_password u) (user_state u) (view (db m))"
proof -
  obtain c cs rows d' where c: "connections (pool m) = Some c # cs" "None \<notin> set cs"
    "exec c (InsertUser (user_name u) (user_password u) (user_state u)) (db m) = (Inr rows, d')"
    "sql_effect cfg c (InsertUser (user_name u) (user_password u) (user_state u)) (view (db m)) rows (view d')"
    using assms by (rule call_ok)
  then show ?thesis
    by (auto simp: UserModel_insert_def sql_call_exec available_def no_null_def)
qed

lemma UserModel_query_ok:
  assumes "available m" and "tables_wf cfg (view (db m))" and "(i, n, p, s) \<in> set (t_User (view (db m)))"
  shows "fst (UserModel_query exec i m) = User i n p s"
proof -
  obtain c cs rows d' where c: "connections (pool m) = Some c # cs"
    "exec c (SelectUser i) (db m) = (Inr rows, d')" "sql_effect cfg c (SelectUser i) (view (db m)) rows (view d')"
    by (rule call_ok [OF assms(1), of "SelectUser i"]) auto
  have "user_rows (view (db m)) i = [(i, [n, p, s])]"
    using assms(2,3) by (auto simp: tables_wf_def intro: user_rows_unique)
  with c show ?thesis by (simp add: UserModel_query_def sql_call_exec)
qed

lemma UserModel_query_absent:
  assumes "available m" and "i \<notin> set (user_ids (view (db m)))"
  shows "fst (UserModel_query exec i m) = User_default"
proof -
  obtain c cs rows d' where c: "connections (pool m) = Some c # cs"
    "exec c (SelectUser i) (db m) = (Inr rows, d')" "sql_effect cfg c (SelectUser i) (view (db m)) rows (view d')"
    by (rule call_ok [OF assms(1), of "SelectUser i"]) auto
  have "user_rows (view (db m)) i = []" using assms(2) by (auto simp: user_rows_def user_ids_def image_iff)
  with c show ?thesis by (simp add: UserModel_query_def sql_call_exec)
qed

lemma FriendModel_query_ok:
  assumes "available m"
  shows "set (map user_id (fst (FriendModel_query exec u m))) = fst ` set (friend_rows (view (db m)) u)"
proof -
  obtain c cs rows d' where c: "connections (pool m) = Some c # cs"
    "exec c (SelectFriends u) (db m) = (Inr rows, d')"
    "sql_effect cfg c (SelectFriends u) (view (db m)) rows (view d')"
    by (rule call_ok [OF assms, of "SelectFriends u"]) auto
  then obtain us where "mapR read_friend rows = Inr us"
      "set (map user_id us) = fst ` set (friend_rows (view (db m)) u)"
    using mapR_read_friend by fastforce
  with c show ?thesis by (simp add: FriendModel_query_def sql_call_exec)
qed

text \<open>The pair is stored once, the smaller identifier first.\<close>

lemma FriendModel_insert_ok:
  assumes "available m" and "sql_enabled cfg (InsertFriend (min u f) (max u f)) (view (db m))"
  shows "available (snd (FriendModel_insert exec u f m)) \<and>
    view (db (snd (FriendModel_insert exec u f m))) =
      (view (db m))\<lparr>t_Friend := t_Friend (view (db m)) @ [(min u f, max u f)]\<rparr>"
proof -
  obtain c cs rows d' where c: "connections (pool m) = Some c # cs" "None \<notin> set cs"
    "exec c (InsertFriend (min u f) (max u f)) (db m) = (Inr rows, d')"
    "sql_effect cfg c (InsertFriend (min u f) (max u f)) (view (db m)) rows (view d')"
    using assms by (rule call_ok)
  have "(if u < f then InsertFriend u f else InsertFriend f u) = InsertFriend (min u f) (max u f)"
    by auto
  with c show ?thesis
    by (simp add: FriendModel_insert_def sql_call_exec available_def no_null_def)
qed

lemma GroupModel_createGroup_ok:
  assumes "available m" and "sql_enabled cfg (InsertAllGroup (group_name g) (group_desc g)) (view (db m))"
  shows "\<exists>c i. fst (GroupModel_createGroup exec g m) = g\<lparr>group_id := i\<rparr> \<and>
    available (snd (GroupModel_createGroup exec g m)) \<and> fresh_key i (group_ids (view (db m))) \<and>
    view (db (snd (GroupModel_createGroup exec g m))) = add_group c i (group_name g) (group_desc g) (view (db m))"
proof -
  let ?s = "InsertAllGroup (group_name g) (group_desc g)"
  obtain c cs rows d1 where c: "connections (pool m) = Some c # cs" "None \<notin> set cs"
    "exec c ?s (db m) = (Inr rows, d1)" "sql_effect cfg c ?s (view (db m)) rows (view d1)"
    using assms by (rule call_ok)
  then obtain i where i: "fresh_key i (group_ids (view (db m)))"
    "view d1 = add_group c i (group_name g) (group_desc g) (view (db m))" by auto
  obtain rows2 d2 where l: "exec c LastInsertId d1 = (Inr rows2, d2)"
    "sql_effect cfg c LastInsertId (view d1) rows2 (view d2)"
    by (rule exec_ok [of LastInsertId d1 c]) auto
  with i have "rows2 = [(i, [])]" "view d2 = view d1" by (simp_all add: add_group_def)
  with c i l show ?thesis
    by (auto simp: GroupModel_createGroup_def sql_call_conn query_with_def available_def no_null_def)
qed

lemma GroupModel_queryGroupUsers_ok:
  assumes "available m"
  shows "set (fst (GroupModel_queryGroupUsers exec u g m)) =
    {v. v \<noteq> u \<and> (\<exists>r. (g, v, r) \<in> set (t_GroupUser (view (db m))))}"
proof -
  obtain c cs rows d' where c: "connections (pool m) = Some c # cs"
    "exec c (SelectGroupUserIds g u) (db m) = (Inr rows, d')"
    "sql_effect cfg c (SelectGroupUserIds g u) (view (db m)) rows (view d')"
    by (rule call_ok [OF assms, of "SelectGroupUserIds g u"]) auto
  from c(3) have "mset rows = mset (member_id_rows (view (db m)) g u)" by simp
  then have "set rows = set (member_id_rows (view (db m)) g u)" by (rule mset_rows_set)
  then have "getInt1 ` set rows = {v. v \<noteq> u \<and> (\<exists>r. (g, v, r) \<in> set (t_GroupUser (view (db m))))}"
    by (auto simp: member_id_rows_set getInt1_def image_iff)
  with c show ?thesis by (simp add: GroupModel_queryGroupUsers_def sql_call_exec)
qed

end

text \<open>Whatever the database answers, the groups of a user come without their members.\<close>

lemma mapR_read_group_users: "mapR read_group rows = Inr gs \<Longrightarrow> g \<in> set gs \<Longrightarrow> group_users g = []"
  by (induction rows arbitrary: gs) (auto simp: bindR_Inr_iff read_group_def)

end
