(* ===== verification/Offline_Store.thy ===== *)
theory Offline_Store
  imports Data_Models
begin

section \<open>OfflineMessage\<close>

text \<open>
  \<open>src/server/model/offlinemessage.cpp\<close>: messages for absent users, in the table
  \<open>OfflineMessage\<close>, with a retry loop around the insertion and an in-memory queue
  \<open>failedQueue_\<close> of messages that could not be stored. The loop counts only the attempts
  that found no connection; an attempt whose statement raised is repeated without being counted,
  so the loop is a \<open>partial_function\<close> and \<open>None\<close> means that it never returns.
\<close>

record 'db offline_state =
  ms :: "'db mysql_state"
  failedQueue :: "(int \<times> string) list"

text \<open>
  The inner loop: store the queued messages, oldest first, dropping each from the queue once
  it is stored; an exception leaves the loop with the rest still queued.
\<close>

fun flushQueue :: "'db sql_exec \<Rightarrow> nat \<Rightarrow> (int \<times> string) list \<Rightarrow> 'db \<Rightarrow> (sql_exc + unit) \<times> (int \<times> string) list \<times> 'db" where
  "flushQueue S c [] d = (Inr (), [], d)"
| "flushQueue S c ((u, msg) # q) d =
     (case S c (InsertOffline u msg) d of
        (Inl e, d1) \<Rightarrow> (Inl e, (u, msg) # q, d1)
      | (Inr _, d1) \<Rightarrow> flushQueue S c q d1)"

text \<open>The body of the \<open>try\<close> block: flush, then store the current message.\<close>

definition tryInsert ::
  "'db sql_exec \<Rightarrow> nat \<Rightarrow> int \<Rightarrow> string \<Rightarrow> (int \<times> string) list \<Rightarrow> 'db \<Rightarrow> bool \<times> (int \<times> string) list \<times> 'db" where
  "tryInsert S c userId message q d =
     (case flushQueue S c q d of
        (Inl e, q1, d1) \<Rightarrow> (False, q1, d1)
      | (Inr _, q1, d1) \<Rightarrow>
          (case S c (InsertOffline userId message) d1 of
             (Inl e, d2) \<Rightarrow> (False, q1, d2)
           | (Inr _, d2) \<Rightarrow> (True, q1, d2)))"

definition maxRetries :: nat where
  "maxRetries = 3"

partial_function (option) insert_loop ::
  "'db sql_exec \<Rightarrow> int \<Rightarrow> string \<Rightarrow> nat \<Rightarrow> 'db offline_state \<Rightarrow> (bool \<times> 'db offline_state) option" where
  "insert_loop S userId message retryCount st =
     (if \<not> retryCount < maxRetries then Some (False, st)
      else case getConnection (pool (ms st)) of
        (None, p) \<Rightarrow> insert_loop S userId message (retryCount + 1) (st\<lparr>ms := (ms st)\<lparr>pool := p\<rparr>\<rparr>)
      | (Some c, p) \<Rightarrow>
          (case tryInsert S c userId message (failedQueue st) (db (ms st)) of
             (success, q, d) \<Rightarrow>
               (let st' = st\<lparr>ms := (ms st)\<lparr>pool := snd (releaseConnection (Some c) p), db := d\<rparr>,
                              failedQueue := q\<rparr>
                in if success then Some (True, st') else insert_loop S userId message retryCount st')))"

definition OfflineMessage_insert ::
  "'db sql_exec \<Rightarrow> int \<Rightarrow> string \<Rightarrow> 'db offline_state \<Rightarrow> (bool \<times> 'db offline_state) option" where
  "OfflineMessage_insert S userId message st =
     (case insert_loop S userId message 0 st of
        None \<Rightarrow> None
      | Some (True, st') \<Rightarrow> Some (True, st')
      | Some (False, st') \<Rightarrow> Some (False, st'\<lparr>failedQueue := failedQueue st' @ [(userId, message)]\<rparr>))"

definition OfflineMessage_remove :: "'db sql_exec \<Rightarrow> int \<Rightarrow> 'db mysql_state \<Rightarrow> bool \<times> 'db mysql_state" where
  "OfflineMessage_remove S userId =
     sql_call False False True (query_with S (DeleteOffline userId) (\<lambda>_. Inr True))"

definition OfflineMessage_query :: "'db sql_exec \<Rightarrow> int \<Rightarrow> 'db mysql_state \<Rightarrow> string list \<times> 'db mysql_state" where
  "OfflineMessage_query S userId =
     sql_call [] [] True (query_with S (SelectOffline userId) (mapR (getString 2)))"

subsection \<open>Attempts\<close>

lemma insert_loop_exhausted: "\<not> r < maxRetries \<Longrightarrow> insert_loop S u m r st = Some (False, st)"
  by (simp add: insert_loop.simps)

lemma insert_loop_no_conn:
  "r < maxRetries \<Longrightarrow> connections (pool (ms st)) = [] \<Longrightarrow>
   insert_loop S u m r st = insert_loop S u m (Suc r) st"
  by (subst insert_loop.simps) (simp add: getConnection_def)

lemma insert_loop_conn:
  assumes "r < maxRetries" and "connections (pool (ms st)) = Some c # cs"
    and "tryInsert S c u m (failedQueue st) (db (ms st)) = (success, q, d)"
  shows "insert_loop S u m r st =
    (let st' = st\<lparr>ms := (ms st)\<lparr>pool := (pool (ms st))\<lparr>connections := cs @ [Some c]\<rparr>, db := d\<rparr>, failedQueue := q\<rparr>
     in if success then Some (True, st') else insert_loop S u m r st')"
  using assms by (subst insert_loop.simps) (simp add: getConnection_def releaseConnection_def Let_def)

text \<open>Three attempts without a connection: the message is queued, and the call returns.\<close>

lemma insert_loop_empty_pool:
  assumes "connections (pool (ms st)) = []"
  shows "insert_loop S u m r st = Some (False, st)"
proof (induction "maxRetries - r" arbitrary: r)
  case 0
  then show ?case by (simp add: insert_loop_exhausted)
next
  case (Suc k)
  then have "r < maxRetries" and "k = maxRetries - Suc r" by simp_all
  with Suc assms show ?case by (simp add: insert_loop_no_conn)
qed

text \<open>What a flush keeps: stored and queued messages together are what was queued.\<close>

lemma flushQueue_suffix:
  "flushQueue S c q d = (r, q', d') \<Longrightarrow> \<exists>k. q' = drop k q \<and> (r = Inr () \<longrightarrow> q' = [])"
proof (induction S c q d rule: flushQueue.induct)
  case (1 S c d)
  then show ?case by simp
next
  case (2 S c u msg q d)
  show ?case
  proof (cases "S c (InsertOffline u msg) d")
    case (Pair r1 d1)
    show ?thesis
    proof (cases r1)
      case (Inl e)
      with Pair 2 show ?thesis by (auto intro: exI [of _ 0])
    next
      case (Inr rows)
      with Pair 2 obtain k where "q' = drop k q \<and> (r = Inr () \<longrightarrow> q' = [])" by auto
      then show ?thesis by (auto intro: exI [of _ "Suc k"])
    qed
  qed
qed

subsection \<open>Stored messages\<close>

text \<open>The messages of the table in the order in which they were stored.\<close>

definition stored :: "tables \<Rightarrow> (int \<times> string) list" where
  "stored t = map (\<lambda>(i, u, m). (u, m)) (t_OfflineMessage t)"

text \<open>What the statements of this class leave alone.\<close>

definition same_users :: "tables \<Rightarrow> tables \<Rightarrow> bool" where
  "same_users t t' \<longleftrightarrow> t_User t' = t_User t"

lemma offline_row_ok_same: "same_users t t' \<Longrightarrow> offline_row_ok t' u m \<longleftrightarrow> offline_row_ok t u m"
  by (simp add: same_users_def offline_row_ok_def user_ids_def)

context mysql_server
begin

lemma insert_effect:
  "exec c (InsertOffline u m) d = (Inr rows, d') \<Longrightarrow>
   offline_row_ok (view d) u m \<and> stored (view d') = stored (view d) @ [(u, m)] \<and> same_users (view d) (view d')"
  by (drule exec_effect) (auto simp: stored_def add_offline_def same_users_def)

lemma insert_raise:
  "exec c (InsertOffline u m) d = (Inl e, d') \<Longrightarrow> stored (view d') = stored (view d) \<and> same_users (view d) (view d')"
  by (drule exec_raise) (auto simp: stored_def same_users_def)

lemma flushQueue_effect:
  "flushQueue exec c q d = (r, q', d') \<Longrightarrow>
   stored (view d') @ q' = stored (view d) @ q \<and> same_users (view d) (view d')"
proof (induction q arbitrary: d)
  case Nil
  then show ?case by (simp add: same_users_def)
next
  case (Cons e q)
  obtain u msg where e: "e = (u, msg)" by (cases e)
  obtain r1 d1 where x: "exec c (InsertOffline u msg) d = (r1, d1)" by fastforce
  show ?case
  proof (cases r1)
    case (Inl ex)
    with x Cons.prems e insert_raise [of c u msg d ex d1] show ?thesis by auto
  next
    case (Inr rows)
    with x have "stored (view d1) = stored (view d) @ [e]" "same_users (view d) (view d1)"
      using insert_effect e by auto
    moreover from Inr x Cons.prems e have "flushQueue exec c q d1 = (r, q', d')" by simp
    ultimately show ?thesis using Cons.IH [of d1] by (auto simp: same_users_def)
  qed
qed

lemma tryInsert_effect:
  assumes "tryInsert exec c u m q d = (success, q', d')"
  shows "stored (view d') @ q' = stored (view d) @ q @ (if success then [(u, m)] else []) \<and>
    same_users (view d) (view d') \<and> (success \<longrightarrow> q' = [] \<and> offline_row_ok (view d) u m)"
proof -
  obtain r q1 d1 where f: "flushQueue exec c q d = (r, q1, d1)" by (metis surj_pair)
  note fe = flushQueue_effect [OF f] and fs = flushQueue_suffix [OF f]
  show ?thesis
  proof (cases r)
    case (Inl e)
    with assms f have "\<not> success" "q' = q1" "d' = d1" by (simp_all add: tryInsert_def)
    with fe show ?thesis by simp
  next
    case (Inr rv)
    with fs have q1: "q1 = []" by auto
    obtain r2 d2 where x: "exec c (InsertOffline u m) d1 = (r2, d2)" by fastforce
    show ?thesis
    proof (cases r2)
      case (Inl e)
      with x Inr f assms have "\<not> success" "q' = q1" "d' = d2" by (simp_all add: tryInsert_def)
      with fe insert_raise [of c u m d1 e d2] x Inl show ?thesis by (auto simp: same_users_def)
    next
      case rows: (Inr rows)
      with x Inr f assms have "success" "q' = q1" "d' = d2" by (simp_all add: tryInsert_def)
      with fe q1 insert_effect [of c u m d1 rows d2] x rows show ?thesis
        by (auto simp: same_users_def offline_row_ok_def user_ids_def)
    qed
  qed
qed

text \<open>The loop loses nothing: what was stored or queued still is, in the same order.\<close>

lemma insert_loop_effect:
  assumes ret: "insert_loop exec u m r st = Some (success, st')"
  shows "stored (view (db (ms st'))) @ failedQueue st' =
    stored (view (db (ms st))) @ failedQueue st @ (if success then [(u, m)] else [])"
proof -
  let ?P = "\<lambda>S u m r st res. S = exec \<longrightarrow>
    stored (view (db (ms (snd res)))) @ failedQueue (snd res) =
    stored (view (db (ms st))) @ failedQueue st @ (if fst res then [(u, m)] else [])"
  have "?P exec u m r st (success, st')"
  proof (rule insert_loop.raw_induct [where P = ?P, OF _ ret])
    fix f :: "'db sql_exec \<Rightarrow> int \<Rightarrow> string \<Rightarrow> nat \<Rightarrow> 'db offline_state \<Rightarrow> (bool \<times> 'db offline_state) option"
      and S u m r st res
    assume IH: "\<And>S u m r st res. f S u m r st = Some res \<Longrightarrow> ?P S u m r st res"
      and eq: "(if \<not> r < maxRetries then Some (False, st)
        else case getConnection (pool (ms st)) of
          (None, p) \<Rightarrow> f S u m (r + 1) (st\<lparr>ms := (ms st)\<lparr>pool := p\<rparr>\<rparr>)
        | (Some c, p) \<Rightarrow>
            (case tryInsert S c u m (failedQueue st) (db (ms st)) of
               (success, q, d) \<Rightarrow>
                 (let st' = st\<lparr>ms := (ms st)\<lparr>pool := snd (releaseConnection (Some c) p), db := d\<rparr>,
                                failedQueue := q\<rparr>
                  in if success then Some (True, st') else f S u m r st'))) = Some res"
    show "?P S u m r st res"
      using eq
      by (auto simp: Let_def split: if_splits option.splits prod.splits dest!: IH tryInsert_effect)
  qed
  then show ?thesis by simp
qed

lemma OfflineMessage_insert_effect:
  assumes "OfflineMessage_insert exec u m st = Some (success, st')"
  shows "stored (view (db (ms st'))) @ failedQueue st' =
    stored (view (db (ms st))) @ failedQueue st @ [(u, m)]"
proof -
  from assms obtain b st1 where l: "insert_loop exec u m 0 st = Some (b, st1)"
    by (auto simp: OfflineMessage_insert_def split: option.splits)
  from insert_loop_effect [OF l] l assms show ?thesis
    by (cases b) (auto simp: OfflineMessage_insert_def)
qed

text \<open>
  A message the table cannot take (its receiver is not a user, or it is longer than the
  column) makes the loop run forever as long as there is a connection.
\<close>

lemma insert_loop_diverges:
  assumes "\<not> offline_row_ok (view (db (ms st))) u m" and "available (ms st)" and "r < maxRetries"
  shows "insert_loop exec u m r st = None"
proof (cases "insert_loop exec u m r st")
  case (Some res)
  let ?P = "\<lambda>S u m r st res. S = exec \<longrightarrow> \<not> offline_row_ok (view (db (ms st))) u m \<longrightarrow>
    available (ms st) \<longrightarrow> r < maxRetries \<longrightarrow> False"
  have "?P exec u m r st res"
  proof (rule insert_loop.raw_induct [where P = ?P, OF _ Some], intro impI)
    fix f :: "'db sql_exec \<Rightarrow> int \<Rightarrow> string \<Rightarrow> nat \<Rightarrow> 'db offline_state \<Rightarrow> (bool \<times> 'db offline_state) option"
      and S u m r st res
    assume IH: "\<And>S u m r st res. f S u m r st = Some res \<Longrightarrow> ?P S u m r st res"
      and eq: "(if \<not> r < maxRetries then Some (False, st)
        else case getConnection (pool (ms st)) of
          (None, p) \<Rightarrow> f S u m (r + 1) (st\<lparr>ms := (ms st)\<lparr>pool := p\<rparr>\<rparr>)
        | (Some c, p) \<Rightarrow>
            (case tryInsert S c u m (failedQueue st) (db (ms st)) of
               (success, q, d) \<Rightarrow>
                 (let st' = st\<lparr>ms := (ms st)\<lparr>pool := snd (releaseConnection (Some c) p), db := d\<rparr>,
                                failedQueue := q\<rparr>
                  in if success then Some (True, st') else f S u m r st'))) = Some res"
      and S: "S = exec" and bad: "\<not> offline_row_ok (view (db (ms st))) u m"
      and av: "available (ms st)" and r: "r < maxRetries"
    obtain c cs where conns: "connections (pool (ms st)) = Some c # cs" using av by (rule available_Cons)
    obtain success q d where t: "tryInsert exec c u m (failedQueue st) (db (ms st)) = (success, q, d)"
      by (metis surj_pair)
    note te = tryInsert_effect [OF t]
    with bad have "\<not> success" and bad': "\<not> offline_row_ok (view d) u m"
      by (auto simp: offline_row_ok_same)
    with eq S r conns t have "f exec u m r
      (st\<lparr>ms := (ms st)\<lparr>pool := (pool (ms st))\<lparr>connections := cs @ [Some c]\<rparr>, db := d\<rparr>, failedQueue := q\<rparr>) = Some res"
      by (simp add: getConnection_def releaseConnection_def Let_def)
    from IH [OF this] bad' av conns r show False
      by (simp add: available_def no_null_def)
  qed
  with assms show ?thesis by simp
qed

end

lemma offline_rows_stored: "offline_rows t u = [(u', [m]). (u', m) \<leftarrow> stored t, u' = u]"
proof -
  have "concat (map (\<lambda>(i, u', m). if u' = u then [(u', [m])] else []) rs) =
      concat (map (\<lambda>(u', m). if u' = u then [(u', [m])] else []) (map (\<lambda>(i, u, m). (u, m)) rs))"
    for rs :: "(int \<times> int \<times> string) list"
    by (induction rs) auto
  then show ?thesis by (simp add: offline_rows_def stored_def)
qed

lemma getString_offline_rows:
  "map (\<lambda>r. hd (snd r)) [(u', [m]). (u', m) \<leftarrow> msgs, u' = u] = [m. (u', m) \<leftarrow> msgs, u' = u]"
  by (induction msgs) auto

context mysql_reliable
begin

lemma OfflineMessage_insert_ok:
  assumes "available (ms st)" and "failedQueue st = []"
    and "sql_enabled cfg (InsertOffline u m) (view (db (ms st)))"
  shows "\<exists>st'. OfflineMessage_insert exec u m st = Some (True, st') \<and>
    stored (view (db (ms st'))) = stored (view (db (ms st))) @ [(u, m)] \<and> failedQueue st' = [] \<and>
    available (ms st')"
proof -
  obtain c cs rows d' where c: "connections (pool (ms st)) = Some c # cs" "None \<notin> set cs"
    "exec c (InsertOffline u m) (db (ms st)) = (Inr rows, d')"
    "sql_effect cfg c (InsertOffline u m) (view (db (ms st))) rows (view d')"
    using assms(1,3) by (rule call_ok)
  then have t: "tryInsert exec c u m (failedQueue st) (db (ms st)) = (True, [], d')"
    by (simp add: tryInsert_def assms(2))
  have r: "0 < maxRetries" by (simp add: maxRetries_def)
  from c t show ?thesis
    by (auto simp: OfflineMessage_insert_def insert_loop_conn [OF r c(1) t] available_def no_null_def
        stored_def add_offline_def)
qed

lemma OfflineMessage_query_ok:
  assumes "available m"
  shows "mset (fst (OfflineMessage_query exec u m)) = mset [msg. (u', msg) \<leftarrow> stored (view (db m)), u' = u]"
proof -
  obtain c cs rows d' where c: "connections (pool m) = Some c # cs"
    "exec c (SelectOffline u) (db m) = (Inr rows, d')"
    "sql_effect cfg c (SelectOffline u) (view (db m)) rows (view d')"
    by (rule call_ok [OF assms, of "SelectOffline u"]) auto
  let ?rows = "[(u', [m]). (u', m) \<leftarrow> stored (view (db m)), u' = u]"
  from c(3) have eq: "mset rows = mset ?rows" by (simp add: offline_rows_stored)
  have "mapR (getString 2) rows = Inr (map (\<lambda>r. hd (snd r)) rows)"
    by (rule mapR_map) (use mset_rows_set [OF eq] in auto)
  moreover have "mset (map (\<lambda>r. hd (snd r)) rows) = mset (map (\<lambda>r. hd (snd r)) ?rows)"
    using eq by (simp only: mset_map)
  ultimately show ?thesis
    using c by (simp add: OfflineMessage_query_def sql_call_exec getString_offline_rows)
qed

end

end
