(* ===== verification/Redis_Server.thy ===== *)
theory Redis_Server
  imports Chat_Prelude
begin

section \<open>The Redis server the chat server talks to\<close>

text \<open>
  The commands the source sends through redis-plus-plus, and what it may rely on of the
  server: the effect of each command on the key space. The server is outside the source, so
  every operation of \<open>RedisClient\<close> takes its \<open>exec\<close> function as a parameter over an
  arbitrary state \<open>'rd\<close>. The locale \<open>redis_server\<close> states the documented behaviour
  of the commands (a command that raises may or may not have been executed), and
  \<open>redis_reliable\<close> that a command applied to a value of the right type does not raise.
  Replies the source discards are \<open>RDone\<close>. Expiry is a step of the environment: a command
  only sets the remaining time.
\<close>

datatype redis_exc = RedisError

datatype redis_cmd =
    HSET string string string
  | HGET string string
  | HDEL string string
  | EXPIRE string int
  | LPUSH string string
  | LRANGE_ALL string
  | DEL string
  | SET string string "int option"
  | GET string
  | SADD string string
  | SISMEMBER string string
  | PUBLISH string string
  | SUBSCRIBE string
  | UNSUBSCRIBE string

datatype redis_reply = RDone | RBulk "string option" | RArray "string list" | RBool bool

datatype redis_value =
    RHash "(string \<times> string) list"
  | RStr string
  | RList "string list"
  | RSet "string list"

record keyspace =
  keys :: "string \<rightharpoonup> redis_value"
  ttl :: "string \<rightharpoonup> int"
  channels :: "string list" \<comment> \<open>the subscriptions of this node's subscriber\<close>
  published :: "(string \<times> string) list"

definition del_key :: "string \<Rightarrow> keyspace \<Rightarrow> keyspace" where
  "del_key k ks = ks\<lparr>keys := (keys ks)(k := None), ttl := (ttl ks)(k := None)\<rparr>"

definition put_key :: "string \<Rightarrow> redis_value \<Rightarrow> keyspace \<Rightarrow> keyspace" where
  "put_key k v ks = ks\<lparr>keys := (keys ks)(k \<mapsto> v)\<rparr>"

definition hash_at :: "keyspace \<Rightarrow> string \<Rightarrow> (string \<times> string) list option" where
  "hash_at ks k = (case keys ks k of None \<Rightarrow> Some [] | Some (RHash h) \<Rightarrow> Some h | Some _ \<Rightarrow> None)"

definition list_at :: "keyspace \<Rightarrow> string \<Rightarrow> string list option" where
  "list_at ks k = (case keys ks k of None \<Rightarrow> Some [] | Some (RList l) \<Rightarrow> Some l | Some _ \<Rightarrow> None)"

definition set_at :: "keyspace \<Rightarrow> string \<Rightarrow> string list option" where
  "set_at ks k = (case keys ks k of None \<Rightarrow> Some [] | Some (RSet l) \<Rightarrow> Some l | Some _ \<Rightarrow> None)"

definition str_at :: "keyspace \<Rightarrow> string \<Rightarrow> string option option" where
  "str_at ks k = (case keys ks k of None \<Rightarrow> Some None | Some (RStr v) \<Rightarrow> Some (Some v) | Some _ \<Rightarrow> None)"

text \<open>\<open>None\<close>: the key holds a value of another type and the command is refused.\<close>

fun redis_sem :: "redis_cmd \<Rightarrow> keyspace \<Rightarrow> (redis_reply \<times> keyspace) option" where
  "redis_sem (HSET k f v) ks =
     map_option (\<lambda>h. (RDone, put_key k (RHash (um_modify f v (\<lambda>_. v) h)) ks)) (hash_at ks k)"
| "redis_sem (HGET k f) ks = map_option (\<lambda>h. (RBulk (map_of h f), ks)) (hash_at ks k)"
| "redis_sem (HDEL k f) ks =
     map_option (\<lambda>h. (RDone,
        if um_erase f h = [] then del_key k ks else put_key k (RHash (um_erase f h)) ks)) (hash_at ks k)"
| "redis_sem (EXPIRE k n) ks =
     Some (RDone,
       if keys ks k = None then ks
       else if n \<le> 0 then del_key k ks else ks\<lparr>ttl := (ttl ks)(k \<mapsto> n)\<rparr>)"
| "redis_sem (LPUSH k v) ks = map_option (\<lambda>l. (RDone, put_key k (RList (v # l)) ks)) (list_at ks k)"
| "redis_sem (LRANGE_ALL k) ks = map_option (\<lambda>l. (RArray l, ks)) (list_at ks k)"
| "redis_sem (DEL k) ks = Some (RDone, del_key k ks)"
| "redis_sem (SET k v t) ks = Some (RDone, (put_key k (RStr v) ks)\<lparr>ttl := (ttl ks)(k := t)\<rparr>)"
| "redis_sem (GET k) ks = map_option (\<lambda>v. (RBulk v, ks)) (str_at ks k)"
| "redis_sem (SADD k m) ks =
     map_option (\<lambda>l. (RDone, put_key k (RSet (if m \<in> set l then l else l @ [m])) ks)) (set_at ks k)"
| "redis_sem (SISMEMBER k m) ks = map_option (\<lambda>l. (RBool (m \<in> set l), ks)) (set_at ks k)"
| "redis_sem (PUBLISH ch m) ks = Some (RDone, ks\<lparr>published := published ks @ [(ch, m)]\<rparr>)"
| "redis_sem (SUBSCRIBE ch) ks =
     Some (RDone, ks\<lparr>channels := (if ch \<in> set (channels ks) then channels ks else channels ks @ [ch])\<rparr>)"
| "redis_sem (UNSUBSCRIBE ch) ks = Some (RDone, ks\<lparr>channels := filter (\<lambda>c. c \<noteq> ch) (channels ks)\<rparr>)"

type_synonym 'rd redis_exec = "redis_cmd \<Rightarrow> 'rd \<Rightarrow> (redis_exc + redis_reply) \<times> 'rd"

text \<open>The key a command works on; publishing and subscribing touch no key.\<close>

fun cmd_key :: "redis_cmd \<Rightarrow> string option" where
  "cmd_key (HSET k f v) = Some k"
| "cmd_key (HGET k f) = Some k"
| "cmd_key (HDEL k f) = Some k"
| "cmd_key (EXPIRE k n) = Some k"
| "cmd_key (LPUSH k v) = Some k"
| "cmd_key (LRANGE_ALL k) = Some k"
| "cmd_key (DEL k) = Some k"
| "cmd_key (SET k v t) = Some k"
| "cmd_key (GET k) = Some k"
| "cmd_key (SADD k m) = Some k"
| "cmd_key (SISMEMBER k m) = Some k"
| "cmd_key _ = None"

lemma redis_sem_frame:
  "redis_sem c ks = Some (r, ks') \<Longrightarrow> cmd_key c \<noteq> Some k \<Longrightarrow> keys ks' k = keys ks k"
  by (cases c) (auto simp: put_key_def del_key_def split: if_splits)

lemma at_keys_cong:
  assumes "keys ks' k = keys ks k"
  shows "hash_at ks' k = hash_at ks k" "list_at ks' k = list_at ks k"
    "set_at ks' k = set_at ks k" "str_at ks' k = str_at ks k"
  by (simp_all add: assms hash_at_def list_at_def set_at_def str_at_def)

lemma hash_at_put [simp]: "hash_at (put_key k (RHash h) ks) k = Some h"
  by (simp add: hash_at_def put_key_def)

lemma hash_at_del [simp]: "hash_at (del_key k ks) k = Some []"
  by (simp add: hash_at_def del_key_def)

lemma list_at_put [simp]: "list_at (put_key k (RList l) ks) k = Some l"
  by (simp add: list_at_def put_key_def)

lemma list_at_del [simp]: "list_at (del_key k ks) k = Some []"
  by (simp add: list_at_def del_key_def)

locale redis_server =
  fixes exec :: "'rd redis_exec"
    and view :: "'rd \<Rightarrow> keyspace"
  assumes exec_reply: "exec c s = (Inr r, s') \<Longrightarrow> redis_sem c (view s) = Some (r, view s')"
    and exec_error: "exec c s = (Inl e, s') \<Longrightarrow>
      view s' = view s \<or> (\<exists>r. redis_sem c (view s) = Some (r, view s'))"
begin

text \<open>Raising or not, a command leaves the other keys alone.\<close>

lemma exec_frame: "cmd_key c \<noteq> Some k \<Longrightarrow> keys (view (snd (exec c s))) k = keys (view s) k"
proof -
  assume k: "cmd_key c \<noteq> Some k"
  obtain r s' where e: "exec c s = (r, s')" by fastforce
  show ?thesis
  proof (cases r)
    case (Inl x)
    with e k exec_error [of c s x s'] show ?thesis by (auto dest: redis_sem_frame)
  next
    case (Inr y)
    with e k exec_reply [of c s y s'] show ?thesis by (auto dest: redis_sem_frame)
  qed
qed

end

locale redis_reliable = redis_server +
  assumes exec_accepted: "redis_sem c (view s) = Some x \<Longrightarrow> \<exists>r s'. exec c s = (Inr r, s')"
begin

lemma exec_ok:
  assumes "redis_sem c (view s) = Some (r, ks)"
  obtains s' where "exec c s = (Inr r, s')" and "view s' = ks"
proof -
  obtain r' s' where e: "exec c s = (Inr r', s')" using exec_accepted [OF assms] by blast
  with exec_reply [OF e] assms that show thesis by simp
qed

end

text \<open>A concrete server: the key space itself, refusing what Redis refuses.\<close>

definition ref_redis :: "keyspace redis_exec" where
  "ref_redis c ks = (case redis_sem c ks of None \<Rightarrow> (Inl RedisError, ks) | Some (r, ks') \<Rightarrow> (Inr r, ks'))"

interpretation ref_redis: redis_reliable ref_redis "\<lambda>ks. ks"
  by unfold_locales (auto simp: ref_redis_def split: option.splits)

end
