(* ===== verification/Redis_Pool.thy ===== *)
theory Redis_Pool
  imports Chat_Prelude
begin

section \<open>RedisConnectionPool\<close>

text \<open>
  \<open>src/server/redisconnectionpool/\<close>: a queue of Redis handles behind a mutex and a
  condition variable. A handle is a number. \<open>acquire\<close> releases the mutex while it waits;
  what the other threads do to the pool in that time is its parameter \<open>others\<close>, applied
  once, at the moment the wait ends. An outer \<open>None\<close> is a wait that never ends.
\<close>

record redis_pool =
  rp_host :: string
  rp_port :: int
  rp_stopped :: bool
  rp_password :: string
  rp_conns :: "nat list"

text \<open>
  The loop of \<open>init\<close>: \<open>mk i\<close> is what \<open>make_shared<Redis>(opts)\<close> gives in iteration
  \<open>i\<close>, \<open>None\<close> when it raised, which is logged and skipped.
\<close>

fun RedisPool_init_loop :: "(nat \<Rightarrow> nat option) \<Rightarrow> nat \<Rightarrow> nat \<Rightarrow> redis_pool \<Rightarrow> redis_pool" where
  "RedisPool_init_loop mk i 0 p = p"
| "RedisPool_init_loop mk i (Suc n) p =
     RedisPool_init_loop mk (Suc i) n
       (case mk i of None \<Rightarrow> p | Some conn \<Rightarrow> p\<lparr>rp_conns := rp_conns p @ [conn]\<rparr>)"

definition RedisPool_init ::
  "(string \<Rightarrow> int \<Rightarrow> string \<Rightarrow> nat \<Rightarrow> nat option) \<Rightarrow> string \<Rightarrow> int \<Rightarrow> int \<Rightarrow> string \<Rightarrow> redis_pool \<Rightarrow> redis_pool" where
  "RedisPool_init mk host port pool_size password p =
     RedisPool_init_loop (mk host port password) 0 (nat pool_size)
       (p\<lparr>rp_host := host, rp_port := port, rp_password := password\<rparr>)"

definition acquire_front :: "redis_pool \<Rightarrow> nat option \<times> redis_pool" where
  "acquire_front p =
     (if rp_stopped p then (None, p)
      else case rp_conns p of
        [] \<Rightarrow> (None, p)
      | conn # rest \<Rightarrow> (Some conn, p\<lparr>rp_conns := rest\<rparr>))"

definition acquire :: "(redis_pool \<Rightarrow> redis_pool) \<Rightarrow> int \<Rightarrow> redis_pool \<Rightarrow> (nat option \<times> redis_pool) option" where
  "acquire others timeout_ms p =
     (if rp_stopped p then Some (None, p)
      else if rp_conns p = [] then
        (let p1 = others p; ready = (rp_conns p1 \<noteq> [] \<or> rp_stopped p1)
         in if timeout_ms \<le> 0
            then (if ready then Some (acquire_front p1) else None)
            else (if \<not> ready then Some (None, p1) else Some (acquire_front p1)))
      else Some (acquire_front p))"

definition release :: "nat option \<Rightarrow> redis_pool \<Rightarrow> redis_pool" where
  "release conn p =
     (case conn of None \<Rightarrow> p | Some c \<Rightarrow> p\<lparr>rp_conns := rp_conns p @ [c]\<rparr>)"

definition stop :: "redis_pool \<Rightarrow> redis_pool" where
  "stop p = (if rp_stopped p then p else p\<lparr>rp_stopped := True, rp_conns := []\<rparr>)"

lemma acquire_returns: "0 < timeout_ms \<Longrightarrow> \<exists>r. acquire others timeout_ms p = Some r"
  by (simp add: acquire_def Let_def)

lemma acquire_ready:
  "\<not> rp_stopped p \<Longrightarrow> rp_conns p = c # cs \<Longrightarrow> acquire others t p = Some (Some c, p\<lparr>rp_conns := cs\<rparr>)"
  by (simp add: acquire_def acquire_front_def)

lemma acquire_stopped: "rp_stopped p \<Longrightarrow> acquire others t p = Some (None, p)"
  by (simp add: acquire_def)

lemma acquire_timeout:
  "\<not> rp_stopped p \<Longrightarrow> rp_conns p = [] \<Longrightarrow> 0 < t \<Longrightarrow> acquire (\<lambda>q. q) t p = Some (None, p)"
  by (simp add: acquire_def)

lemma acquire_blocks:
  "\<not> rp_stopped p \<Longrightarrow> rp_conns p = [] \<Longrightarrow> t \<le> 0 \<Longrightarrow> acquire (\<lambda>q. q) t p = None"
  by (simp add: acquire_def)

subsection \<open>The pool is a connection pool while it is not stopped\<close>

text \<open>\<open>acquire\<close> with a positive timeout when no other thread acts.\<close>

definition acquire_now :: "redis_pool \<Rightarrow> nat option \<times> redis_pool" where
  "acquire_now p = the (acquire (\<lambda>q. q) 1 p)"

definition release_now :: "nat \<Rightarrow> redis_pool \<Rightarrow> redis_pool" where
  "release_now c p = release (Some c) p"

interpretation redis: conn_pool acquire_now release_now rp_conns "\<lambda>p. \<not> rp_stopped p"
  by unfold_locales
    (auto simp: acquire_now_def release_now_def release_def acquire_def acquire_front_def)

lemma RedisPool_init_loop_conns:
  "rp_conns (RedisPool_init_loop mk i n p) = rp_conns p @ List.map_filter mk [i..<i + n]"
proof (induction n arbitrary: i p)
  case 0
  then show ?case by (simp add: List.map_filter_def)
next
  case (Suc n)
  have "[i..<i + Suc n] = i # [Suc i..<Suc i + n]" by (simp add: upt_conv_Cons)
  with Suc show ?case by (auto simp: List.map_filter_def split: option.splits)
qed

lemma RedisPool_init_loop_stopped: "rp_stopped (RedisPool_init_loop mk i n p) = rp_stopped p"
  by (induction n arbitrary: i p) (auto split: option.splits)

end
