(* ===== verification/Redis_Client.thy ===== *)
theory Redis_Client
  imports Redis_Server Redis_Pool "HOL-Library.Multiset"
begin

section \<open>RedisClient\<close>

text \<open>
  \<open>src/server/redisclient.cpp\<close>: presence, offline messages, generic keys, publishing, and
  the queue of subscription tasks the subscriber thread works through. Every operation takes a
  handle from the pool, gives up quietly when there is none, runs its commands in a
  \<open>try\<close> block whose handler only logs, and returns the handle: the shape \<open>redis_call\<close>.
  The environment \<open>R\<close> of an operation holds the server's \<open>exec\<close> function and what the
  other threads do to the pool while the operation waits for a handle.
\<close>

datatype sub_task = Subscribe int | Unsubscribe int | Stop

record 'rd redis_env =
  r_exec :: "'rd redis_exec"
  r_others :: "redis_pool \<Rightarrow> redis_pool"

record 'rd redis_state =
  rpool :: redis_pool
  rd :: 'rd
  localNodeId :: string
  rc_stopped :: bool
  sub_tasks :: "sub_task list"
  sub_group_set :: "int list"

text \<open>\<open>pool_wait_ms_\<close>: the only client is made with the default argument of its constructor.\<close>

definition pool_wait_ms :: int where
  "pool_wait_ms = 5000"

subsection \<open>Keys and channels\<close>

definition user_key :: "int \<Rightarrow> string" where "user_key i = ''user:'' @ to_string i"
definition offline_key :: "int \<Rightarrow> string" where "offline_key i = ''offline:'' @ to_string i"
definition friends_key :: "int \<Rightarrow> string" where "friends_key i = ''friends:'' @ to_string i"
definition group_members_key :: "int \<Rightarrow> string" where "group_members_key g = ''group_members:'' @ to_string g"
definition user_info_key :: "int \<Rightarrow> string" where "user_info_key i = ''user_info:'' @ to_string i"
definition group_channel :: "int \<Rightarrow> string" where "group_channel g = ''group:'' @ to_string g"
definition node_channel :: "string \<Rightarrow> string" where "node_channel n = ''node:'' @ n @ '':inbox''"

lemmas key_defs = user_key_def offline_key_def friends_key_def group_members_key_def user_info_key_def

lemma key_inject [key_simps]:
  "user_key i = user_key j \<longleftrightarrow> i = j" "offline_key i = offline_key j \<longleftrightarrow> i = j"
  "friends_key i = friends_key j \<longleftrightarrow> i = j" "group_channel i = group_channel j \<longleftrightarrow> i = j"
  by (simp_all add: key_defs group_channel_def to_string_inject)

lemma key_disjoint [key_simps]:
  "user_key i \<noteq> offline_key j" "user_key i \<noteq> friends_key j" "user_key i \<noteq> group_members_key j"
  "user_key i \<noteq> user_info_key j" "offline_key i \<noteq> friends_key j" "offline_key i \<noteq> group_members_key j"
  "offline_key i \<noteq> user_info_key j" "friends_key i \<noteq> group_members_key j" "friends_key i \<noteq> user_info_key j"
  "offline_key i \<noteq> user_key j" "friends_key i \<noteq> user_key j" "group_members_key i \<noteq> user_key j"
  "user_info_key i \<noteq> user_key j" "friends_key i \<noteq> offline_key j" "group_members_key i \<noteq> offline_key j"
  "user_info_key i \<noteq> offline_key j" "group_members_key i \<noteq> friends_key j" "user_info_key i \<noteq> friends_key j"
  by (simp_all add: key_defs)

subsection \<open>Running commands on a pooled handle\<close>

text \<open>With a positive timeout \<open>acquire\<close> always returns (\<open>acquire_returns\<close>).\<close>

definition getConnFromPool :: "'rd redis_env \<Rightarrow> 'rd redis_state \<Rightarrow> nat option \<times> 'rd redis_state" where
  "getConnFromPool R s =
     (case the (acquire (r_others R) pool_wait_ms (rpool s)) of (conn, p) \<Rightarrow> (conn, s\<lparr>rpool := p\<rparr>))"

definition releaseConnToPool :: "nat option \<Rightarrow> 'rd redis_state \<Rightarrow> 'rd redis_state" where
  "releaseConnToPool conn s = s\<lparr>rpool := release conn (rpool s)\<rparr>"

definition redis_call ::
  "'rd redis_env \<Rightarrow> 'a \<Rightarrow> 'a \<Rightarrow> ('rd \<Rightarrow> (redis_exc + 'a) \<times> 'rd) \<Rightarrow> 'rd redis_state \<Rightarrow> 'a \<times> 'rd redis_state" where
  "redis_call R no_conn caught body s =
     (case getConnFromPool R s of
        (None, s1) \<Rightarrow> (no_conn, s1)
      | (Some c, s1) \<Rightarrow>
          (case body (rd s1) of
             (Inl e, d) \<Rightarrow> (caught, releaseConnToPool (Some c) (s1\<lparr>rd := d\<rparr>))
           | (Inr v, d) \<Rightarrow> (v, releaseConnToPool (Some c) (s1\<lparr>rd := d\<rparr>))))"

text \<open>Commands in sequence, up to the first that raises.\<close>

fun run_cmds :: "'rd redis_env \<Rightarrow> redis_cmd list \<Rightarrow> 'rd \<Rightarrow> (redis_exc + unit) \<times> 'rd" where
  "run_cmds R [] d = (Inr (), d)"
| "run_cmds R (c # cs) d =
     (case r_exec R c d of (Inl e, d1) \<Rightarrow> (Inl e, d1) | (Inr _, d1) \<Rightarrow> run_cmds R cs d1)"

text \<open>Replies of an unexpected kind make the client library raise.\<close>

definition query_bulk :: "'rd redis_env \<Rightarrow> redis_cmd \<Rightarrow> (string option \<Rightarrow> 'a) \<Rightarrow> 'rd \<Rightarrow> (redis_exc + 'a) \<times> 'rd" where
  "query_bulk R c f d =
     (case r_exec R c d of
        (Inr (RBulk v), d1) \<Rightarrow> (Inr (f v), d1)
      | (_, d1) \<Rightarrow> (Inl RedisError, d1))"

subsection \<open>Presence\<close>

definition setUserOnline :: "'rd redis_env \<Rightarrow> int \<Rightarrow> string \<Rightarrow> 'rd redis_state \<Rightarrow> unit \<times> 'rd redis_state" where
  "setUserOnline R user_id conn_id s =
     redis_call R () ()
       (run_cmds R
          [HSET (user_key user_id) ''online'' ''1'',
           HSET (user_key user_id) ''node'' (localNodeId s),
           HSET (user_key user_id) ''conn'' conn_id,
           EXPIRE (user_key user_id) 120]) s"

definition isUserOnline :: "'rd redis_env \<Rightarrow> int \<Rightarrow> 'rd redis_state \<Rightarrow> bool \<times> 'rd redis_state" where
  "isUserOnline R user_id =
     redis_call R False False (query_bulk R (HGET (user_key user_id) ''online'') (\<lambda>v. v = Some ''1''))"

definition opt_string :: "string option \<Rightarrow> string" where
  "opt_string v = (case v of None \<Rightarrow> [] | Some s \<Rightarrow> s)"

definition getUserConnId :: "'rd redis_env \<Rightarrow> int \<Rightarrow> 'rd redis_state \<Rightarrow> string \<times> 'rd redis_state" where
  "getUserConnId R user_id =
     redis_call R [] [] (query_bulk R (HGET (user_key user_id) ''conn'') opt_string)"

definition getUserNode :: "'rd redis_env \<Rightarrow> int \<Rightarrow> 'rd redis_state \<Rightarrow> string \<times> 'rd redis_state" where
  "getUserNode R user_id =
     redis_call R [] [] (query_bulk R (HGET (user_key user_id) ''node'') opt_string)"

definition setUserOffline :: "'rd redis_env \<Rightarrow> int \<Rightarrow> 'rd redis_state \<Rightarrow> unit \<times> 'rd redis_state" where
  "setUserOffline R user_id =
     redis_call R () ()
       (run_cmds R
          [HDEL (user_key user_id) ''online'', HDEL (user_key user_id) ''conn'', HDEL (user_key user_id) ''node''])"

subsection \<open>Offline messages\<close>

definition pushOfflineMessage :: "'rd redis_env \<Rightarrow> int \<Rightarrow> string \<Rightarrow> 'rd redis_state \<Rightarrow> unit \<times> 'rd redis_state" where
  "pushOfflineMessage R user_id msg_dump =
     redis_call R () () (run_cmds R [LPUSH (offline_key user_id) msg_dump])"

text \<open>The vector is filled before \<open>DEL\<close>, and returned even when \<open>DEL\<close> raises.\<close>

definition popOfflineMessages :: "'rd redis_env \<Rightarrow> int \<Rightarrow> 'rd redis_state \<Rightarrow> string list \<times> 'rd redis_state" where
  "popOfflineMessages R user_id =
     redis_call R [] []
       (\<lambda>d. case r_exec R (LRANGE_ALL (offline_key user_id)) d of
              (Inr (RArray messages), d1) \<Rightarrow> (Inr messages, snd (r_exec R (DEL (offline_key user_id)) d1))
            | (_, d1) \<Rightarrow> (Inl RedisError, d1))"

subsection \<open>Generic keys\<close>

definition redis_hset :: "'rd redis_env \<Rightarrow> string \<Rightarrow> string \<Rightarrow> string \<Rightarrow> 'rd redis_state \<Rightarrow> unit \<times> 'rd redis_state" where
  "redis_hset R key field value = redis_call R () () (run_cmds R [HSET key field value])"

definition redis_hget :: "'rd redis_env \<Rightarrow> string \<Rightarrow> string \<Rightarrow> 'rd redis_state \<Rightarrow> string option \<times> 'rd redis_state" where
  "redis_hget R key field = redis_call R None None (query_bulk R (HGET key field) (\<lambda>v. v))"

definition redis_hdel :: "'rd redis_env \<Rightarrow> string \<Rightarrow> string \<Rightarrow> 'rd redis_state \<Rightarrow> unit \<times> 'rd redis_state" where
  "redis_hdel R key field = redis_call R () () (run_cmds R [HDEL key field])"

definition redis_set :: "'rd redis_env \<Rightarrow> string \<Rightarrow> string \<Rightarrow> int \<Rightarrow> 'rd redis_state \<Rightarrow> unit \<times> 'rd redis_state" where
  "redis_set R key value ttl_s =
     redis_call R () () (run_cmds R [SET key value (if 0 < ttl_s then Some ttl_s else None)])"

definition redis_get :: "'rd redis_env \<Rightarrow> string \<Rightarrow> 'rd redis_state \<Rightarrow> string option \<times> 'rd redis_state" where
  "redis_get R key = redis_call R None None (query_bulk R (GET key) (\<lambda>v. v))"

definition redis_del :: "'rd redis_env \<Rightarrow> string \<Rightarrow> 'rd redis_state \<Rightarrow> unit \<times> 'rd redis_state" where
  "redis_del R key = redis_call R () () (run_cmds R [DEL key])"

definition redis_expire :: "'rd redis_env \<Rightarrow> string \<Rightarrow> int \<Rightarrow> 'rd redis_state \<Rightarrow> unit \<times> 'rd redis_state" where
  "redis_expire R key ttl_s = redis_call R () () (run_cmds R [EXPIRE key ttl_s])"

definition redis_sadd :: "'rd redis_env \<Rightarrow> string \<Rightarrow> string \<Rightarrow> 'rd redis_state \<Rightarrow> unit \<times> 'rd redis_state" where
  "redis_sadd R key member = redis_call R () () (run_cmds R [SADD key member])"

definition redis_sismember :: "'rd redis_env \<Rightarrow> string \<Rightarrow> string \<Rightarrow> 'rd redis_state \<Rightarrow> bool \<times> 'rd redis_state" where
  "redis_sismember R key member =
     redis_call R False False
       (\<lambda>d. case r_exec R (SISMEMBER key member) d of
              (Inr (RBool b), d1) \<Rightarrow> (Inr b, d1)
            | (_, d1) \<Rightarrow> (Inl RedisError, d1))"

subsection \<open>Publishing\<close>

definition publishGroupMessage :: "'rd redis_env \<Rightarrow> int \<Rightarrow> string \<Rightarrow> 'rd redis_state \<Rightarrow> unit \<times> 'rd redis_state" where
  "publishGroupMessage R group_id msg_dump =
     redis_call R () () (run_cmds R [PUBLISH (group_channel group_id) msg_dump])"

definition publishNodeInbox :: "'rd redis_env \<Rightarrow> string \<Rightarrow> string \<Rightarrow> 'rd redis_state \<Rightarrow> unit \<times> 'rd redis_state" where
  "publishNodeInbox R destNode msg_dump =
     redis_call R () () (run_cmds R [PUBLISH (node_channel destNode) msg_dump])"

subsection \<open>Subscription tasks\<close>

definition subscribeGroupChannel :: "int \<Rightarrow> 'rd redis_state \<Rightarrow> 'rd redis_state" where
  "subscribeGroupChannel group_id s =
     (if group_id \<in> set (sub_group_set s) then s
      else s\<lparr>sub_tasks := sub_tasks s @ [Subscribe group_id]\<rparr>)"

definition unsubscribeGroupChannel :: "int \<Rightarrow> 'rd redis_state \<Rightarrow> 'rd redis_state" where
  "unsubscribeGroupChannel group_id s =
     (if group_id \<notin> set (sub_group_set s) then s
      else s\<lparr>sub_tasks := sub_tasks s @ [Unsubscribe group_id]\<rparr>)"

text \<open>The loop over the swapped-out tasks; a failed task is logged and skipped.\<close>

fun run_sub_tasks :: "'rd redis_env \<Rightarrow> sub_task list \<Rightarrow> 'rd redis_state \<Rightarrow> 'rd redis_state" where
  "run_sub_tasks R [] s = s"
| "run_sub_tasks R (Subscribe g # ts) s =
     (case r_exec R (SUBSCRIBE (group_channel g)) (rd s) of
        (Inl e, d) \<Rightarrow> run_sub_tasks R ts (s\<lparr>rd := d\<rparr>)
      | (Inr _, d) \<Rightarrow> run_sub_tasks R ts (s\<lparr>rd := d, sub_group_set := ss_insert g (sub_group_set s)\<rparr>))"
| "run_sub_tasks R (Unsubscribe g # ts) s =
     (case r_exec R (UNSUBSCRIBE (group_channel g)) (rd s) of
        (Inl e, d) \<Rightarrow> run_sub_tasks R ts (s\<lparr>rd := d\<rparr>)
      | (Inr _, d) \<Rightarrow> run_sub_tasks R ts (s\<lparr>rd := d, sub_group_set := ss_erase g (sub_group_set s)\<rparr>))"
| "run_sub_tasks R (Stop # ts) s = s\<lparr>rc_stopped := True\<rparr>"

text \<open>One turn of the subscriber's loop after \<open>consume\<close>.\<close>

definition process_sub_tasks :: "'rd redis_env \<Rightarrow> 'rd redis_state \<Rightarrow> 'rd redis_state" where
  "process_sub_tasks R s = run_sub_tasks R (sub_tasks s) (s\<lparr>sub_tasks := []\<rparr>)"

subsection \<open>What every operation does to the client\<close>

definition rready :: "'rd redis_state \<Rightarrow> bool" where
  "rready s \<longleftrightarrow> \<not> rp_stopped (rpool s) \<and> rp_conns (rpool s) \<noteq> []"

text \<open>An operation changes the pool and the server, and nothing else of the client.\<close>

lemma redis_call_frame: "\<exists>p d. snd (redis_call R a b body s) = s\<lparr>rpool := p, rd := d\<rparr>"
proof -
  obtain conn p where g: "getConnFromPool R s = (conn, s\<lparr>rpool := p\<rparr>)"
    by (cases "the (acquire (r_others R) pool_wait_ms (rpool s))") (simp add: getConnFromPool_def)
  show ?thesis
  proof (cases conn)
    case None
    with g show ?thesis by (auto simp: redis_call_def intro!: exI [of _ p] exI [of _ "rd s"])
  next
    case (Some c)
    with g have "snd (redis_call R a b body s) = s\<lparr>rpool := release (Some c) p, rd := snd (body (rd s))\<rparr>"
      by (cases "body (rd s)") (simp add: redis_call_def releaseConnToPool_def split: sum.splits)
    then show ?thesis by blast
  qed
qed

lemma redis_call_fields [simp]:
  "localNodeId (snd (redis_call R a b body s)) = localNodeId s"
  "rc_stopped (snd (redis_call R a b body s)) = rc_stopped s"
  "sub_tasks (snd (redis_call R a b body s)) = sub_tasks s"
  "sub_group_set (snd (redis_call R a b body s)) = sub_group_set s"
  using redis_call_frame [of R a b body s] by auto

lemma redis_call_ready:
  assumes "rready s" and "body (rd s) = (r, d)"
  shows "redis_call R a b body s =
    (case r of Inl e \<Rightarrow> b | Inr v \<Rightarrow> v,
     s\<lparr>rpool := (rpool s)\<lparr>rp_conns := rotate1 (rp_conns (rpool s))\<rparr>, rd := d\<rparr>)"
proof -
  obtain c cs where c: "rp_conns (rpool s) = c # cs" and "\<not> rp_stopped (rpool s)"
    using assms(1) by (cases "rp_conns (rpool s)") (auto simp: rready_def)
  with assms(2) show ?thesis
    by (simp add: redis_call_def getConnFromPool_def acquire_ready releaseConnToPool_def release_def
        split: sum.splits)
qed

lemma redis_call_rready: "rready s \<Longrightarrow> rready (snd (redis_call R a b body s))"
  by (cases "body (rd s)") (auto simp: redis_call_ready rready_def)

text \<open>While it is not stopped, the pool has as many idle handles after the call as before.\<close>

lemma redis_call_conserves:
  "rready s \<Longrightarrow> mset (rp_conns (rpool (snd (redis_call R a b body s)))) = mset (rp_conns (rpool s))"
  by (cases "body (rd s)"; cases "rp_conns (rpool s)") (auto simp: redis_call_ready)

lemmas client_ops = setUserOnline_def isUserOnline_def getUserNode_def getUserConnId_def setUserOffline_def
  pushOfflineMessage_def popOfflineMessages_def redis_hset_def redis_hget_def redis_hdel_def redis_set_def
  redis_get_def redis_del_def redis_expire_def redis_sadd_def redis_sismember_def publishGroupMessage_def
  publishNodeInbox_def

subsection \<open>Operations on other keys\<close>

context redis_server
begin

lemma run_cmds_keeps:
  assumes "r_exec R = exec" and "\<forall>c \<in> set cs. cmd_key c \<noteq> Some k"
  shows "keys (view (snd (run_cmds R cs d))) k = keys (view d) k"
  using assms(2)
proof (induction cs arbitrary: d)
  case Nil
  then show ?case by simp
next
  case (Cons c cs)
  obtain r d1 where e: "exec c d = (r, d1)" by fastforce
  have f: "keys (view d1) k = keys (view d) k" using exec_frame [of c k d] e Cons.prems by simp
  show ?case
  proof (cases r)
    case (Inl x)
    with e f assms(1) show ?thesis by simp
  next
    case (Inr x)
    with e f assms(1) Cons show ?thesis by simp
  qed
qed

lemma exec_HGET_view: "view (snd (exec (HGET k f) d)) = view d"
  and exec_GET_view: "view (snd (exec (GET k) d)) = view d"
proof -
  have "view s' = view d" if "exec c d = (r, s')" "c = HGET k f \<or> c = GET k" for c r s'
    using that by (cases r) (auto dest!: exec_reply exec_error)
  then show "view (snd (exec (HGET k f) d)) = view d" "view (snd (exec (GET k) d)) = view d"
    by (metis prod.collapse)+
qed

lemma query_bulk_view:
  assumes "r_exec R = exec"
  shows "view (snd (query_bulk R (HGET k f) g d)) = view d" "view (snd (query_bulk R (GET k) g d)) = view d"
  using exec_HGET_view [of k f d] exec_GET_view [of k d]
  by (auto simp: query_bulk_def assms split: prod.splits sum.splits redis_reply.splits)

lemma redis_call_view:
  assumes "\<And>d. view (snd (body d)) = view d"
  shows "view (rd (snd (redis_call R a b body s))) = view (rd s)"
proof -
  have "view d' = view d" if "body d = (r, d')" for d r d' using assms [of d] that by simp
  then show ?thesis
    by (auto simp: redis_call_def getConnFromPool_def releaseConnToPool_def
        split: option.splits prod.splits sum.splits)
qed

lemma redis_call_keeps:
  assumes "\<And>d. keys (view (snd (body d))) k = keys (view d) k"
  shows "keys (view (rd (snd (redis_call R a b body s)))) k = keys (view (rd s)) k"
proof -
  have "keys (view d') k = keys (view d) k" if "body d = (r, d')" for d r d' using assms [of d] that by simp
  then show ?thesis
    by (auto simp: redis_call_def getConnFromPool_def releaseConnToPool_def
        split: option.splits prod.splits sum.splits)
qed

text \<open>Reading changes no key, whether or not the read succeeds.\<close>

lemma read_ops_view:
  assumes "r_exec R = exec"
  shows "view (rd (snd (isUserOnline R i s))) = view (rd s)"
    "view (rd (snd (getUserNode R i s))) = view (rd s)"
    "view (rd (snd (getUserConnId R i s))) = view (rd s)"
    "view (rd (snd (redis_get R k s))) = view (rd s)"
  by (simp_all add: client_ops redis_call_view query_bulk_view [OF assms])

text \<open>Writing touches only the keys of the operation.\<close>

lemma write_ops_keep:
  assumes "r_exec R = exec"
  shows "k \<noteq> user_key i \<Longrightarrow> keys (view (rd (snd (setUserOnline R i c s)))) k = keys (view (rd s)) k"
    "k \<noteq> user_key i \<Longrightarrow> keys (view (rd (snd (setUserOffline R i s)))) k = keys (view (rd s)) k"
    "k \<noteq> offline_key i \<Longrightarrow> keys (view (rd (snd (pushOfflineMessage R i msg s)))) k = keys (view (rd s)) k"
    "k \<noteq> key \<Longrightarrow> keys (view (rd (snd (redis_set R key v t s)))) k = keys (view (rd s)) k"
    "k \<noteq> key \<Longrightarrow> keys (view (rd (snd (redis_hset R key f v s)))) k = keys (view (rd s)) k"
    "k \<noteq> key \<Longrightarrow> keys (view (rd (snd (redis_sadd R key v s)))) k = keys (view (rd s)) k"
    "k \<noteq> key \<Longrightarrow> keys (view (rd (snd (redis_expire R key t s)))) k = keys (view (rd s)) k"
    "keys (view (rd (snd (publishGroupMessage R g msg s)))) k = keys (view (rd s)) k"
  by (auto simp: client_ops intro!: redis_call_keeps run_cmds_keeps [OF assms])

lemma popOfflineMessages_keeps:
  assumes "r_exec R = exec" and "k \<noteq> offline_key i"
  shows "keys (view (rd (snd (popOfflineMessages R i s)))) k = keys (view (rd s)) k"
  unfolding popOfflineMessages_def
proof (rule redis_call_keeps)
  fix d
  have l: "keys (view (snd (exec (LRANGE_ALL (offline_key i)) d))) k = keys (view d) k"
    and dl: "\<And>d1. keys (view (snd (exec (DEL (offline_key i)) d1))) k = keys (view d1) k"
    using assms(2) by (auto intro!: exec_frame)
  then show "keys (view (snd (case r_exec R (LRANGE_ALL (offline_key i)) d of
              (Inr (RArray messages), d1) \<Rightarrow> (Inr messages, snd (r_exec R (DEL (offline_key i)) d1))
            | (_, d1) \<Rightarrow> (Inl RedisError, d1)))) k = keys (view d) k"
    by (auto simp: assms(1) split: prod.splits sum.splits redis_reply.splits)
qed

end

subsection \<open>Presence and offline messages on a reliable server\<close>

definition user_hash :: "keyspace \<Rightarrow> int \<Rightarrow> (string \<times> string) list option" where
  "user_hash ks i = hash_at ks (user_key i)"

definition user_online :: "keyspace \<Rightarrow> int \<Rightarrow> bool" where
  "user_online ks i \<longleftrightarrow> (\<exists>h. user_hash ks i = Some h \<and> map_of h ''online'' = Some ''1'')"

fun redis_run :: "redis_cmd list \<Rightarrow> keyspace \<Rightarrow> keyspace option" where
  "redis_run [] ks = Some ks"
| "redis_run (c # cs) ks = (case redis_sem c ks of None \<Rightarrow> None | Some (r, ks') \<Rightarrow> redis_run cs ks')"

lemma set_online_run:
  assumes "user_hash ks i = Some h"
  shows "\<exists>ks' h'. redis_run [HSET (user_key i) ''online'' ''1'', HSET (user_key i) ''node'' n,
      HSET (user_key i) ''conn'' c, EXPIRE (user_key i) 120] ks = Some ks' \<and>
    user_hash ks' i = Some h' \<and> map_of h' ''online'' = Some ''1'' \<and> map_of h' ''node'' = Some n \<and>
    map_of h' ''conn'' = Some c \<and> ttl ks' (user_key i) = Some 120"
  using assms by (simp add: user_hash_def umap_simps) (simp add: put_key_def hash_at_def umap_simps)

lemma set_offline_run:
  assumes "user_hash ks i = Some h"
  shows "\<exists>ks' h'. redis_run [HDEL (user_key i) ''online'', HDEL (user_key i) ''conn'', HDEL (user_key i) ''node''] ks = Some ks' \<and>
    user_hash ks' i = Some h' \<and> map_of h' ''online'' = None \<and> map_of h' ''node'' = None"
proof -
  have hd: "\<exists>ks'. redis_sem (HDEL (user_key i) f) ks = Some (RDone, ks') \<and> hash_at ks' (user_key i) = Some (um_erase f h)"
    if "hash_at ks (user_key i) = Some h" for ks h f
    using that by (cases "um_erase f h = []") auto
  from assms have h: "hash_at ks (user_key i) = Some h" by (simp add: user_hash_def)
  from hd [OF h] obtain k1 where k1: "redis_sem (HDEL (user_key i) ''online'') ks = Some (RDone, k1)"
    "hash_at k1 (user_key i) = Some (um_erase ''online'' h)" by blast
  from hd [OF k1(2)] obtain k2 where k2: "redis_sem (HDEL (user_key i) ''conn'') k1 = Some (RDone, k2)"
    "hash_at k2 (user_key i) = Some (um_erase ''conn'' (um_erase ''online'' h))" by blast
  from hd [OF k2(2)] obtain k3 where k3: "redis_sem (HDEL (user_key i) ''node'') k2 = Some (RDone, k3)"
    "hash_at k3 (user_key i) = Some (um_erase ''node'' (um_erase ''conn'' (um_erase ''online'' h)))" by blast
  show ?thesis
    by (rule exI [of _ k3])
      (simp add: k1 k2 k3 user_hash_def umap_simps del: redis_sem.simps)
qed

context redis_reliable
begin

lemma run_cmds_ok:
  assumes "r_exec R = exec" and "redis_run cs (view d) = Some ks"
  shows "\<exists>d'. run_cmds R cs d = (Inr (), d') \<and> view d' = ks"
  using assms(2)
proof (induction cs arbitrary: d)
  case Nil
  then show ?case by simp
next
  case (Cons c cs)
  then obtain r k1 where "redis_sem c (view d) = Some (r, k1)" and r: "redis_run cs k1 = Some ks"
    by (auto split: option.splits)
  then obtain d1 where "exec c d = (Inr r, d1)" "view d1 = k1" using exec_ok by blast
  with Cons.IH [of d1] r assms(1) show ?case by simp
qed

lemma isUserOnline_ok:
  assumes "r_exec R = exec" and "rready s" and "user_hash (view (rd s)) i = Some h"
  shows "fst (isUserOnline R i s) \<longleftrightarrow> user_online (view (rd s)) i"
proof -
  have "redis_sem (HGET (user_key i) ''online'') (view (rd s)) = Some (RBulk (map_of h ''online''), view (rd s))"
    using assms(3) by (simp add: user_hash_def)
  then obtain d' where "exec (HGET (user_key i) ''online'') (rd s) = (Inr (RBulk (map_of h ''online'')), d')"
    using exec_ok by blast
  then have "query_bulk R (HGET (user_key i) ''online'') (\<lambda>v. v = Some ''1'') (rd s) =
      (Inr (map_of h ''online'' = Some ''1''), d')"
    by (simp add: query_bulk_def assms(1))
  then show ?thesis
    using assms(2,3) by (simp add: isUserOnline_def user_online_def redis_call_ready)
qed

lemma setUserOnline_ok:
  assumes "r_exec R = exec" and "rready s" and "user_hash (view (rd s)) i = Some h"
  shows "\<exists>h'. user_hash (view (rd (snd (setUserOnline R i c s)))) i = Some h' \<and>
    map_of h' ''online'' = Some ''1'' \<and> map_of h' ''node'' = Some (localNodeId s) \<and> map_of h' ''conn'' = Some c \<and>
    ttl (view (rd (snd (setUserOnline R i c s)))) (user_key i) = Some 120"
proof -
  let ?cs = "[HSET (user_key i) ''online'' ''1'', HSET (user_key i) ''node'' (localNodeId s),
      HSET (user_key i) ''conn'' c, EXPIRE (user_key i) 120]"
  obtain ks' h' where k: "redis_run ?cs (view (rd s)) = Some ks'" "user_hash ks' i = Some h'"
    "map_of h' ''online'' = Some ''1''" "map_of h' ''node'' = Some (localNodeId s)" "map_of h' ''conn'' = Some c"
    "ttl ks' (user_key i) = Some 120"
    using set_online_run [OF assms(3)] by blast
  obtain d' where "run_cmds R ?cs (rd s) = (Inr (), d')" "view d' = ks'"
    using run_cmds_ok [OF assms(1) k(1)] by blast
  with k show ?thesis
    using assms(2) by (simp add: setUserOnline_def redis_call_ready)
qed

lemma setUserOffline_ok:
  assumes "r_exec R = exec" and "rready s" and "user_hash (view (rd s)) i = Some h"
  shows "\<exists>h'. user_hash (view (rd (snd (setUserOffline R i s)))) i = Some h' \<and> map_of h' ''online'' = None"
proof -
  let ?cs = "[HDEL (user_key i) ''online'', HDEL (user_key i) ''conn'', HDEL (user_key i) ''node'']"
  obtain ks' h' where k: "redis_run ?cs (view (rd s)) = Some ks'" "user_hash ks' i = Some h'" "map_of h' ''online'' = None"
    using set_offline_run [OF assms(3)] by blast
  obtain d' where "run_cmds R ?cs (rd s) = (Inr (), d')" "view d' = ks'"
    using run_cmds_ok [OF assms(1) k(1)] by blast
  with k show ?thesis
    using assms(2) by (simp add: setUserOffline_def redis_call_ready)
qed

lemma pushOfflineMessage_ok:
  assumes "r_exec R = exec" and "rready s" and "list_at (view (rd s)) (offline_key i) = Some l"
  shows "list_at (view (rd (snd (pushOfflineMessage R i msg s)))) (offline_key i) = Some (msg # l)"
proof -
  have "redis_run [LPUSH (offline_key i) msg] (view (rd s)) = Some (put_key (offline_key i) (RList (msg # l)) (view (rd s)))"
    using assms(3) by simp
  then obtain d' where "run_cmds R [LPUSH (offline_key i) msg] (rd s) = (Inr (), d')"
    "view d' = put_key (offline_key i) (RList (msg # l)) (view (rd s))"
    using run_cmds_ok [OF assms(1)] by blast
  then show ?thesis
    using assms(2) by (simp add: pushOfflineMessage_def redis_call_ready)
qed

lemma popOfflineMessages_ok:
  assumes "r_exec R = exec" and "rready s" and "list_at (view (rd s)) (offline_key i) = Some l"
  shows "fst (popOfflineMessages R i s) = l \<and>
    list_at (view (rd (snd (popOfflineMessages R i s)))) (offline_key i) = Some []"
proof -
  have "redis_sem (LRANGE_ALL (offline_key i)) (view (rd s)) = Some (RArray l, view (rd s))"
    using assms(3) by simp
  then obtain d1 where d1: "exec (LRANGE_ALL (offline_key i)) (rd s) = (Inr (RArray l), d1)" "view d1 = view (rd s)"
    using exec_ok by blast
  have "redis_sem (DEL (offline_key i)) (view d1) = Some (RDone, del_key (offline_key i) (view d1))" by simp
  then obtain d2 where d2: "exec (DEL (offline_key i)) d1 = (Inr RDone, d2)" "view d2 = del_key (offline_key i) (view d1)"
    using exec_ok by blast
  let ?body = "\<lambda>d. case r_exec R (LRANGE_ALL (offline_key i)) d of
              (Inr (RArray messages), d1) \<Rightarrow> (Inr messages, snd (r_exec R (DEL (offline_key i)) d1))
            | (_, d1) \<Rightarrow> (Inl RedisError, d1)"
  have "?body (rd s) = (Inr l, d2)" using d1 d2 by (simp add: assms(1))
  with d2 show ?thesis
    using assms(2) by (simp add: popOfflineMessages_def redis_call_ready)
qed

end

end
