(* ===== verification/Chat_Service.thy ===== *)
theory Chat_Service
  imports Json_Value Offline_Store Redis_Client
begin

section \<open>ChatService\<close>

text \<open>
  \<open>src/server/chatservice.cpp\<close> and the message numbers of \<open>include/public.hpp\<close>: the
  state of the service (\<open>userConnMap_\<close>, \<open>groupMembers_\<close>, the data classes and the Redis
  client), the eight message handlers, the handler of a lost connection and the callback for
  messages that arrive over Redis. A connection is a number; what \<open>TcpConnection::send\<close> is
  given is appended to \<open>sent\<close>. A handler gives the exception that leaves it, if one does,
  and the state afterwards; handlers that store an offline message may run forever and give
  \<open>None\<close> then. The environment \<open>E\<close> holds the code outside the source: the database, the
  Redis server, the connection's name and the printing and parsing of JSON.
\<close>

subsection \<open>Message numbers\<close>

definition LOGIN_MSG :: int where "LOGIN_MSG = 1"
definition LOGIN_MSG_ACK :: int where "LOGIN_MSG_ACK = 2"
definition LOGIN_OUT_MSG :: int where "LOGIN_OUT_MSG = 3"
definition REG_MSG :: int where "REG_MSG = 4"
definition REG_MSG_ACK :: int where "REG_MSG_ACK = 5"
definition ONE_CHAT_MSG :: int where "ONE_CHAT_MSG = 6"
definition ADD_FRIEND_MSG :: int where "ADD_FRIEND_MSG = 7"
definition CREATE_GROUP_MSG :: int where "CREATE_GROUP_MSG = 8"
definition JOIN_GROUP_MSG :: int where "JOIN_GROUP_MSG = 9"
definition GROUP_CHAT_MSG :: int where "GROUP_CHAT_MSG = 10"
definition ONE_CHAT_MSG_ACK :: int where "ONE_CHAT_MSG_ACK = 11"

lemmas msg_defs = LOGIN_MSG_def LOGIN_MSG_ACK_def LOGIN_OUT_MSG_def REG_MSG_def REG_MSG_ACK_def
  ONE_CHAT_MSG_def ADD_FRIEND_MSG_def CREATE_GROUP_MSG_def JOIN_GROUP_MSG_def GROUP_CHAT_MSG_def
  ONE_CHAT_MSG_ACK_def

subsection \<open>Environment and state\<close>

record ('db, 'rd) chat_env =
  c_sql :: "'db sql_exec"
  c_redis :: "'rd redis_env"
  c_dump :: "json \<Rightarrow> string"
  c_parse :: "string \<Rightarrow> json option"
  c_name :: "nat \<Rightarrow> string"

record ('db, 'rd) chat_state =
  off :: "'db offline_state"
  rc :: "'rd redis_state"
  userConnMap :: "(int, nat) umap"
  groupMembers :: "(int, int list) umap"
  sent :: "(nat \<times> string) list"

definition on_mysql ::
  "('db mysql_state \<Rightarrow> 'a \<times> 'db mysql_state) \<Rightarrow> ('db, 'rd) chat_state \<Rightarrow> 'a \<times> ('db, 'rd) chat_state" where
  "on_mysql f w = (case f (ms (off w)) of (v, m) \<Rightarrow> (v, w\<lparr>off := (off w)\<lparr>ms := m\<rparr>\<rparr>))"

definition on_redis ::
  "('rd redis_state \<Rightarrow> 'a \<times> 'rd redis_state) \<Rightarrow> ('db, 'rd) chat_state \<Rightarrow> 'a \<times> ('db, 'rd) chat_state" where
  "on_redis f w = (case f (rc w) of (v, s) \<Rightarrow> (v, w\<lparr>rc := s\<rparr>))"

definition send :: "nat \<Rightarrow> string \<Rightarrow> ('db, 'rd) chat_state \<Rightarrow> ('db, 'rd) chat_state" where
  "send conn text w = w\<lparr>sent := sent w @ [(conn, text)]\<rparr>"

definition utf8 :: "nat list \<Rightarrow> string" where
  "utf8 bytes = map char_of bytes"

subsection \<open>login\<close>

definition online_text :: "bool \<Rightarrow> string" where
  "online_text b = (if b then ''online'' else ''offline'')"

fun friend_texts ::
  "('db, 'rd) chat_env \<Rightarrow> user list \<Rightarrow> ('db, 'rd) chat_state \<Rightarrow> string list \<times> ('db, 'rd) chat_state" where
  "friend_texts E [] w = ([], w)"
| "friend_texts E (u # us) w =
     (case on_redis (isUserOnline (c_redis E) (user_id u)) w of
        (online, w1) \<Rightarrow>
          (case friend_texts E us w1 of
             (texts, w2) \<Rightarrow>
               (c_dump E (json_obj [(''id'', JInt (user_id u)), (''name'', JStr (user_name u)),
                                    (''state'', JStr (online_text online))]) # texts, w2)))"

text \<open>
  The friend list of the reply: read from the database and cached when the cache has none. When
  the cache has one it is parsed into a local variable, and the reply gets no friend list.
\<close>

definition login_friends ::
  "('db, 'rd) chat_env \<Rightarrow> int \<Rightarrow> ('db, 'rd) chat_state \<Rightarrow> (string \<times> json) list \<times> ('db, 'rd) chat_state" where
  "login_friends E i w =
     (case on_redis (redis_get (c_redis E) (friends_key i)) w of
        (Some cachedFriends, w1) \<Rightarrow>
          (let tempFriendList =
             (case c_parse E cachedFriends of
                None \<Rightarrow> []
              | Some j \<Rightarrow> (case get_string_vector j of Inl e \<Rightarrow> [] | Inr v \<Rightarrow> v))
           in ([], w1))
      | (None, w1) \<Rightarrow>
          (case on_mysql (FriendModel_query (c_sql E) i) w1 of
             (vFriendList, w2) \<Rightarrow>
               (if vFriendList = [] then ([], w2)
                else case friend_texts E vFriendList w2 of
                  (tempFriendList, w3) \<Rightarrow>
                    ([(''friends'', JArr (map JStr tempFriendList))],
                     snd (on_redis (redis_set (c_redis E) (friends_key i)
                            (c_dump E (JArr (map JStr tempFriendList))) 3600) w3)))))"

fun member_texts ::
  "('db, 'rd) chat_env \<Rightarrow> groupuser list \<Rightarrow> ('db, 'rd) chat_state \<Rightarrow> string list \<times> ('db, 'rd) chat_state" where
  "member_texts E [] w = ([], w)"
| "member_texts E (u # us) w =
     (case on_redis (isUserOnline (c_redis E) (user_id u)) w of
        (online, w1) \<Rightarrow>
          (case member_texts E us w1 of
             (texts, w2) \<Rightarrow>
               (c_dump E (json_obj [(''id'', JInt (user_id u)), (''name'', JStr (user_name u)),
                                    (''state'', JStr (online_text online)), (''role'', JStr (gu_role u))]) # texts, w2)))"

fun group_texts ::
  "('db, 'rd) chat_env \<Rightarrow> int \<Rightarrow> group list \<Rightarrow> ('db, 'rd) chat_state \<Rightarrow> string list \<times> ('db, 'rd) chat_state" where
  "group_texts E i [] w = ([], w)"
| "group_texts E i (g # gs) w =
     (case member_texts E (group_users g) w of
        (vGroupUser, w1) \<Rightarrow>
          (let text = c_dump E (json_obj [(''id'', JInt (group_id g)), (''groupname'', JStr (group_name g)),
                        (''groupdesc'', JStr (group_desc g)), (''users'', JArr (map JStr vGroupUser))]);
               w2 = w1\<lparr>groupMembers := um_modify (group_id g) []
                        (\<lambda>memberSet. fold (\<lambda>u ss. if user_id u = i then ss_insert i ss else ss) (group_users g) memberSet)
                        (groupMembers w1)\<rparr>;
               w3 = w2\<lparr>rc := subscribeGroupChannel (group_id g) (rc w2)\<rparr>
           in case group_texts E i gs w3 of (texts, w4) \<Rightarrow> (text # texts, w4)))"

definition login_groups ::
  "('db, 'rd) chat_env \<Rightarrow> int \<Rightarrow> ('db, 'rd) chat_state \<Rightarrow> (string \<times> json) list \<times> ('db, 'rd) chat_state" where
  "login_groups E i w =
     (case on_mysql (GroupModel_queryGroups (c_sql E) i) w of
        (vGroupList, w1) \<Rightarrow>
          (if vGroupList = [] then ([], w1)
           else case group_texts E i vGroupList w1 of
             (groupV, w2) \<Rightarrow> ([(''groups'', JArr (map JStr groupV))], w2)))"

definition login_success ::
  "('db, 'rd) chat_env \<Rightarrow> nat \<Rightarrow> int \<Rightarrow> user \<Rightarrow> ('db, 'rd) chat_state \<Rightarrow> ('db, 'rd) chat_state" where
  "login_success E conn i userQuery w =
     (let w1 = w\<lparr>userConnMap := um_insert i conn (userConnMap w)\<rparr>;
          w2 = snd (on_redis (getUserNode (c_redis E) i) w1);
          w3 = snd (on_redis (setUserOnline (c_redis E) i (c_name E conn)) w2)
      in case on_redis (popOfflineMessages (c_redis E) i) w3 of
        (offlineMsgs, w4) \<Rightarrow>
          (case login_friends E i w4 of
             (friends, w5) \<Rightarrow>
               (case login_groups E i w5 of
                  (groups, w6) \<Rightarrow>
                    send conn (c_dump E (json_obj
                      ([(''msgid'', JInt LOGIN_MSG_ACK), (''errno'', JInt 0), (''id'', JInt (user_id userQuery)),
                        (''name'', JStr (user_name userQuery))] @
                       (if offlineMsgs = [] then [] else [(''offlinemessage'', JArr (map JStr offlineMsgs))]) @
                       friends @ groups))) w6)))"

definition already_online_text :: string where
  "already_online_text = utf8 [232, 175, 165, 232, 180, 166, 229, 143, 183, 229, 183, 178, 231, 187, 143, 231,
     153, 187, 233, 153, 134, 239, 188, 140, 232, 175, 183, 233, 135, 141, 230, 150, 176, 232, 190, 147, 229, 133,
     165, 232, 180, 166, 229, 143, 183]"

definition wrong_password_text :: string where
  "wrong_password_text = utf8 [232, 180, 166, 229, 143, 183, 230, 136, 150, 229, 175, 134, 231, 160, 129, 232,
     190, 147, 229, 133, 165, 233, 148, 153, 232, 175, 175]"

definition login_with ::
  "('db, 'rd) chat_env \<Rightarrow> nat \<Rightarrow> int \<Rightarrow> string \<Rightarrow> ('db, 'rd) chat_state \<Rightarrow> ('db, 'rd) chat_state" where
  "login_with E conn i pwd w =
     (case on_mysql (UserModel_query (c_sql E) i) w of
        (userQuery, w1) \<Rightarrow>
          (if user_id userQuery = i \<and> user_password userQuery = pwd then
             (case on_redis (isUserOnline (c_redis E) i) w1 of
                (online, w2) \<Rightarrow>
                  (if online then
                     send conn (c_dump E (json_obj [(''msgid'', JInt LOGIN_MSG_ACK), (''errno'', JInt 2),
                       (''errormsg'', JStr already_online_text)])) w2
                   else login_success E conn i userQuery w2))
           else
             send conn (c_dump E (json_obj [(''msgid'', JInt LOGIN_MSG_ACK), (''errno'', JInt 1),
               (''errormsg'', JStr wrong_password_text)])) w1))"

definition login ::
  "('db, 'rd) chat_env \<Rightarrow> nat \<Rightarrow> json \<Rightarrow> ('db, 'rd) chat_state \<Rightarrow> (cpp_exn + unit) \<times> ('db, 'rd) chat_state" where
  "login E conn js w =
     (case field_int ''id'' js of
        Inl e \<Rightarrow> (Inl e, w)
      | Inr (i, js1) \<Rightarrow>
          (case field_string ''password'' js1 of
             Inl e \<Rightarrow> (Inl e, w)
           | Inr (pwd, js2) \<Rightarrow> (Inr (), login_with E conn i pwd w)))"

subsection \<open>reg\<close>

definition reg ::
  "('db, 'rd) chat_env \<Rightarrow> nat \<Rightarrow> json \<Rightarrow> ('db, 'rd) chat_state \<Rightarrow> (cpp_exn + unit) \<times> ('db, 'rd) chat_state" where
  "reg E conn js w =
     (case field_string ''name'' js of
        Inl e \<Rightarrow> (Inl e, w)
      | Inr (name, js1) \<Rightarrow>
          (case field_string ''password'' js1 of
             Inl e \<Rightarrow> (Inl e, w)
           | Inr (password, js2) \<Rightarrow>
               (let user = User_default\<lparr>user_name := name, user_password := password\<rparr> in
                case on_mysql (UserModel_insert (c_sql E) user) w of
                  (isInsert, w1) \<Rightarrow>
                    (Inr (),
                     if isInsert then
                       (let w2 = snd (on_redis (redis_hset (c_redis E) (user_info_key (user_id user)) ''name'' name) w1);
                            w3 = snd (on_redis (redis_expire (c_redis E) (user_info_key (user_id user)) 86400) w2)
                        in send conn (c_dump E (json_obj [(''msgid'', JInt REG_MSG_ACK), (''errno'', JInt 0),
                             (''id'', JInt (user_id user))])) w3)
                     else
                       send conn (c_dump E (json_obj [(''msgid'', JInt REG_MSG_ACK), (''errno'', JInt 1)])) w1))))"

subsection \<open>loginOut and clientQuitEcption\<close>

text \<open>The loop over \<open>groupMembers_\<close> both share, entry by entry.\<close>

fun leave_groups :: "int \<Rightarrow> (int, int list) umap \<Rightarrow> 'rd redis_state \<Rightarrow> (int, int list) umap \<times> 'rd redis_state" where
  "leave_groups i [] s = ([], s)"
| "leave_groups i ((g, members) # gm) s =
     (let members' = ss_erase i members;
          s1 = (if members' = [] then unsubscribeGroupChannel g s else s)
      in case leave_groups i gm s1 of (gm', s2) \<Rightarrow> ((g, members') # gm', s2))"

definition leave_all :: "int \<Rightarrow> ('db, 'rd) chat_state \<Rightarrow> ('db, 'rd) chat_state" where
  "leave_all i w =
     (case leave_groups i (groupMembers w) (rc w) of (gm, s) \<Rightarrow> w\<lparr>groupMembers := gm, rc := s\<rparr>)"

definition loginOut ::
  "('db, 'rd) chat_env \<Rightarrow> nat \<Rightarrow> json \<Rightarrow> ('db, 'rd) chat_state \<Rightarrow> (cpp_exn + unit) \<times> ('db, 'rd) chat_state" where
  "loginOut E conn js w =
     (case field_int ''id'' js of
        Inl e \<Rightarrow> (Inl e, w)
      | Inr (i, js1) \<Rightarrow>
          (let w1 = w\<lparr>userConnMap := um_erase i (userConnMap w)\<rparr>;
               w2 = snd (on_redis (setUserOffline (c_redis E) i) w1)
           in (Inr (), leave_all i w2)))"

definition clientQuitEcption ::
  "('db, 'rd) chat_env \<Rightarrow> nat \<Rightarrow> ('db, 'rd) chat_state \<Rightarrow> ('db, 'rd) chat_state" where
  "clientQuitEcption E conn w =
     (let (i, w1) = (case find (\<lambda>e. snd e = conn) (userConnMap w) of
                       None \<Rightarrow> (user_id User_default, w)
                     | Some e \<Rightarrow> (fst e, w\<lparr>userConnMap := remove1 e (userConnMap w)\<rparr>))
      in if i \<noteq> - 1 then leave_all i (snd (on_redis (setUserOffline (c_redis E) i) w1)) else w1)"

subsection \<open>oneChat\<close>

text \<open>
  \<open>js["msg"].is_null() || js["msg"].get<string>().empty()\<close>: the exception, whether the
  message is to be dropped, and the value after the access.
\<close>

definition empty_msg :: "json \<Rightarrow> cpp_exn + bool \<times> json" where
  "empty_msg js =
     bindR (json_index ''msg'' js) (\<lambda>(v, js').
       if json_is_null v then Inr (True, js') else bindR (get_string v) (\<lambda>s. Inr (s = [], js')))"

definition ack :: "('db, 'rd) chat_env \<Rightarrow> int \<Rightarrow> string \<Rightarrow> string \<Rightarrow> string" where
  "ack E errno key text =
     c_dump E (json_obj [(''msgid'', JInt ONE_CHAT_MSG_ACK), (''errno'', JInt errno), (key, JStr text)])"

definition deliver_or_store ::
  "('db, 'rd) chat_env \<Rightarrow> nat \<Rightarrow> int \<Rightarrow> json \<Rightarrow> ('db, 'rd) chat_state \<Rightarrow> ('db, 'rd) chat_state option" where
  "deliver_or_store E conn toId js w =
     (case map_of (userConnMap w) toId of
        Some c \<Rightarrow> Some (send c (c_dump E js) (send conn (ack E 0 ''msg'' ''MSG have sent'') w))
      | None \<Rightarrow>
          (case OfflineMessage_insert (c_sql E) toId (c_dump E js) (off w) of
             None \<Rightarrow> None
           | Some (stored_ok, o') \<Rightarrow> Some (send conn (ack E 0 ''msg'' ''Send offline MSG'') (w\<lparr>off := o'\<rparr>))))"

definition oneChat_checked ::
  "('db, 'rd) chat_env \<Rightarrow> nat \<Rightarrow> int \<Rightarrow> int \<Rightarrow> json \<Rightarrow> ('db, 'rd) chat_state \<Rightarrow> ('db, 'rd) chat_state option" where
  "oneChat_checked E conn i toId js w =
     (case on_mysql (FriendModel_query (c_sql E) i) w of
        (vFriendList, w1) \<Rightarrow>
          (if toId \<in> set (map user_id vFriendList) then deliver_or_store E conn toId js w1
           else Some (send conn (ack E 1 ''errormsg'' ''No this friend'') w1)))"

definition oneChat ::
  "('db, 'rd) chat_env \<Rightarrow> nat \<Rightarrow> json \<Rightarrow> ('db, 'rd) chat_state \<Rightarrow> ((cpp_exn + unit) \<times> ('db, 'rd) chat_state) option" where
  "oneChat E conn js w =
     (case empty_msg js of
        Inl e \<Rightarrow> Some (Inl e, w)
      | Inr (drop_it, js1) \<Rightarrow>
          (if drop_it then Some (Inr (), w)
           else if \<not> json_contains ''id'' js1 \<or> \<not> json_contains ''to'' js1 then
             Some (Inr (), send conn (ack E 1 ''errormsg'' ''Missing required fields'') w)
           else case field_int ''id'' js1 of
             Inl e \<Rightarrow> Some (Inl e, w)
           | Inr (i, js2) \<Rightarrow>
               (case field_int ''to'' js2 of
                  Inl e \<Rightarrow> Some (Inl e, w)
                | Inr (toId, js3) \<Rightarrow> map_option (\<lambda>w'. (Inr (), w')) (oneChat_checked E conn i toId js3 w))))"

subsection \<open>addFriend, createGroup, joinGroup\<close>

definition addFriend ::
  "('db, 'rd) chat_env \<Rightarrow> nat \<Rightarrow> json \<Rightarrow> ('db, 'rd) chat_state \<Rightarrow> (cpp_exn + unit) \<times> ('db, 'rd) chat_state" where
  "addFriend E conn js w =
     (case field_int ''id'' js of
        Inl e \<Rightarrow> (Inl e, w)
      | Inr (userid, js1) \<Rightarrow>
          (case field_int ''friendid'' js1 of
             Inl e \<Rightarrow> (Inl e, w)
           | Inr (friendid, js2) \<Rightarrow> (Inr (), snd (on_mysql (FriendModel_insert (c_sql E) userid friendid) w))))"

text \<open>The tail both group handlers share: remember the member here, in Redis, and subscribe.\<close>

definition enter_group ::
  "('db, 'rd) chat_env \<Rightarrow> int \<Rightarrow> int \<Rightarrow> ('db, 'rd) chat_state \<Rightarrow> ('db, 'rd) chat_state" where
  "enter_group E userid groupid w =
     (let w1 = w\<lparr>groupMembers := um_modify groupid [] (ss_insert userid) (groupMembers w)\<rparr>;
          w2 = snd (on_redis (redis_sadd (c_redis E) (group_members_key groupid) (to_string userid)) w1);
          w3 = snd (on_redis (redis_expire (c_redis E) (group_members_key groupid) 3600) w2)
      in w3\<lparr>rc := subscribeGroupChannel groupid (rc w3)\<rparr>)"

definition createGroup ::
  "('db, 'rd) chat_env \<Rightarrow> nat \<Rightarrow> json \<Rightarrow> ('db, 'rd) chat_state \<Rightarrow> (cpp_exn + unit) \<times> ('db, 'rd) chat_state" where
  "createGroup E conn js w =
     (case field_int ''id'' js of
        Inl e \<Rightarrow> (Inl e, w)
      | Inr (userid, js1) \<Rightarrow>
          (case field_string ''groupname'' js1 of
             Inl e \<Rightarrow> (Inl e, w)
           | Inr (groupname, js2) \<Rightarrow>
               (case field_string ''groupdesc'' js2 of
                  Inl e \<Rightarrow> (Inl e, w)
                | Inr (groupdesc, js3) \<Rightarrow>
                    (case on_mysql (GroupModel_createGroup (c_sql E) (Group (- 1) groupname groupdesc)) w of
                       (grp, w1) \<Rightarrow>
                         (Inr (), enter_group E userid (group_id grp)
                            (snd (on_mysql (GroupModel_joinGroup (c_sql E) userid (group_id grp) ''creator'') w1)))))))"

definition joinGroup ::
  "('db, 'rd) chat_env \<Rightarrow> nat \<Rightarrow> json \<Rightarrow> ('db, 'rd) chat_state \<Rightarrow> (cpp_exn + unit) \<times> ('db, 'rd) chat_state" where
  "joinGroup E conn js w =
     (case field_int ''id'' js of
        Inl e \<Rightarrow> (Inl e, w)
      | Inr (userid, js1) \<Rightarrow>
          (case field_int ''groupid'' js1 of
             Inl e \<Rightarrow> (Inl e, w)
           | Inr (groupid, js2) \<Rightarrow>
               (Inr (), enter_group E userid groupid
                  (snd (on_mysql (GroupModel_joinGroup (c_sql E) userid groupid ''normal'') w)))))"

subsection \<open>groupChat\<close>

text \<open>Without local knowledge of the group, load its members, all but the sender.\<close>

definition load_members ::
  "('db, 'rd) chat_env \<Rightarrow> int \<Rightarrow> int \<Rightarrow> ('db, 'rd) chat_state \<Rightarrow> ('db, 'rd) chat_state" where
  "load_members E userid groupid w =
     (if map_of (groupMembers w) groupid \<noteq> None then w
      else case on_mysql (GroupModel_queryGroupUsers (c_sql E) userid groupid) w of
        (groupUsers, w1) \<Rightarrow>
          (let w2 = w1\<lparr>groupMembers := fold (\<lambda>i gm. um_modify groupid [] (ss_insert i) gm) groupUsers (groupMembers w1)\<rparr>
           in w2\<lparr>rc := subscribeGroupChannel groupid (rc w2)\<rparr>))"

definition groupChat ::
  "('db, 'rd) chat_env \<Rightarrow> nat \<Rightarrow> json \<Rightarrow> ('db, 'rd) chat_state \<Rightarrow> (cpp_exn + unit) \<times> ('db, 'rd) chat_state" where
  "groupChat E conn js w =
     (case empty_msg js of
        Inl e \<Rightarrow> (Inl e, w)
      | Inr (drop_it, js1) \<Rightarrow>
          (if drop_it then (Inr (), w)
           else case field_int ''id'' js1 of
             Inl e \<Rightarrow> (Inl e, w)
           | Inr (userid, js2) \<Rightarrow>
               (case field_int ''groupid'' js2 of
                  Inl e \<Rightarrow> (Inl e, w)
                | Inr (groupid, js3) \<Rightarrow>
                    (Inr (), snd (on_redis (publishGroupMessage (c_redis E) groupid (c_dump E js3))
                               (load_members E userid groupid w))))))"

subsection \<open>Messages from other nodes\<close>

text \<open>The local members of a group, in ascending order, each with a connection.\<close>

definition send_members :: "string \<Rightarrow> int list \<Rightarrow> ('db, 'rd) chat_state \<Rightarrow> ('db, 'rd) chat_state" where
  "send_members text uids w =
     fold (\<lambda>uid w'. case map_of (userConnMap w') uid of None \<Rightarrow> w' | Some c \<Rightarrow> send c text w') uids w"

definition inbox_callback ::
  "('db, 'rd) chat_env \<Rightarrow> json \<Rightarrow> ('db, 'rd) chat_state \<Rightarrow> ((cpp_exn + unit) \<times> ('db, 'rd) chat_state) option" where
  "inbox_callback E j w =
     (case json_get ''to'' j of
        Some v \<Rightarrow>
          (case get_int v of
             Inl e \<Rightarrow> Some (Inl e, w)
           | Inr toId \<Rightarrow>
               (case map_of (userConnMap w) toId of
                  Some c \<Rightarrow> Some (Inr (), send c (c_dump E j @ [CHR 0x0A]) w)
                | None \<Rightarrow>
                    (case OfflineMessage_insert (c_sql E) toId (c_dump E j) (off w) of
                       None \<Rightarrow> None
                     | Some (stored_ok, o') \<Rightarrow>
                         Some (Inr (), snd (on_redis (pushOfflineMessage (c_redis E) toId (c_dump E j)) (w\<lparr>off := o'\<rparr>))))))
      | None \<Rightarrow>
          (case json_get ''groupid'' j of
             None \<Rightarrow> Some (Inr (), w)
           | Some v \<Rightarrow>
               (case get_int v of
                  Inl e \<Rightarrow> Some (Inl e, w)
                | Inr groupid \<Rightarrow>
                    (case map_of (groupMembers w) groupid of
                       None \<Rightarrow> Some (Inr (), w)
                     | Some uids \<Rightarrow> Some (Inr (), send_members (c_dump E j @ [CHR 0x0A]) uids w)))))"

subsection \<open>Handlers\<close>

datatype handler = H_login | H_loginOut | H_reg | H_oneChat | H_addFriend | H_createGroup | H_joinGroup | H_groupChat

definition msgHandlerMap :: "(int, handler) umap" where
  "msgHandlerMap =
     [(LOGIN_MSG, H_login), (LOGIN_OUT_MSG, H_loginOut), (REG_MSG, H_reg), (ONE_CHAT_MSG, H_oneChat),
      (ADD_FRIEND_MSG, H_addFriend), (CREATE_GROUP_MSG, H_createGroup), (JOIN_GROUP_MSG, H_joinGroup),
      (GROUP_CHAT_MSG, H_groupChat)]"

text \<open>\<open>None\<close> is the handler that only logs that there is none.\<close>

definition getHandler :: "int \<Rightarrow> handler option" where
  "getHandler msgid = map_of msgHandlerMap msgid"

fun run_handler ::
  "('db, 'rd) chat_env \<Rightarrow> handler \<Rightarrow> nat \<Rightarrow> json \<Rightarrow> ('db, 'rd) chat_state \<Rightarrow>
   ((cpp_exn + unit) \<times> ('db, 'rd) chat_state) option" where
  "run_handler E H_login conn js w = Some (login E conn js w)"
| "run_handler E H_loginOut conn js w = Some (loginOut E conn js w)"
| "run_handler E H_reg conn js w = Some (reg E conn js w)"
| "run_handler E H_oneChat conn js w = oneChat E conn js w"
| "run_handler E H_addFriend conn js w = Some (addFriend E conn js w)"
| "run_handler E H_createGroup conn js w = Some (createGroup E conn js w)"
| "run_handler E H_joinGroup conn js w = Some (joinGroup E conn js w)"
| "run_handler E H_groupChat conn js w = Some (groupChat E conn js w)"

definition ChatService_reset :: "('db, 'rd) chat_env \<Rightarrow> ('db, 'rd) chat_state \<Rightarrow> ('db, 'rd) chat_state" where
  "ChatService_reset E w = snd (on_mysql (UserModel_resetState (c_sql E)) w)"

end
