(* ===== verification/Chat_Server.thy ===== *)
theory Chat_Server
  imports Chat_Service
begin

section \<open>ChatServer and the subscriber thread: what drives the service\<close>

text \<open>
  \<open>src/server/chatserver.cpp\<close>: a received buffer is parsed and dispatched by its
  \<open>msgid\<close>; whatever exception leaves the parser or a handler is logged and dropped.
  \<open>src/server/redisclient.cpp\<close>, \<open>startSubscriberThread\<close>: a turn of the subscriber's
  loop consumes at most one published message, hands it to the service and then works through
  the queued subscription tasks. \<open>node_step\<close> is one step of a server node: a message, a
  connection that closes, or a turn of the subscriber; \<open>node_reach\<close> are the states the node
  can get into.
\<close>

definition onMessage ::
  "('db, 'rd) chat_env \<Rightarrow> nat \<Rightarrow> string \<Rightarrow> ('db, 'rd) chat_state \<Rightarrow> ('db, 'rd) chat_state option" where
  "onMessage E conn buf w =
     (case c_parse E buf of
        None \<Rightarrow> Some w
      | Some js \<Rightarrow>
          (case field_int ''msgid'' js of
             Inl e \<Rightarrow> Some w
           | Inr (msgid, js1) \<Rightarrow>
               (case getHandler msgid of
                  None \<Rightarrow> Some w
                | Some h \<Rightarrow> map_option snd (run_handler E h conn js1 w))))"

definition onConnection ::
  "('db, 'rd) chat_env \<Rightarrow> nat \<Rightarrow> bool \<Rightarrow> ('db, 'rd) chat_state \<Rightarrow> ('db, 'rd) chat_state" where
  "onConnection E conn connected w = (if \<not> connected then clientQuitEcption E conn w else w)"

text \<open>\<open>on_message\<close> and \<open>dispatchMessageToLocal\<close>, with the callback the service registers.\<close>

definition on_message ::
  "('db, 'rd) chat_env \<Rightarrow> string \<Rightarrow> ('db, 'rd) chat_state \<Rightarrow> ('db, 'rd) chat_state option" where
  "on_message E msg w =
     (case c_parse E msg of None \<Rightarrow> Some w | Some j \<Rightarrow> map_option snd (inbox_callback E j w))"

text \<open>A turn of the loop: \<open>None\<close> is a \<open>consume\<close> that timed out or raised.\<close>

definition subscriber_turn ::
  "('db, 'rd) chat_env \<Rightarrow> string option \<Rightarrow> ('db, 'rd) chat_state \<Rightarrow> ('db, 'rd) chat_state option" where
  "subscriber_turn E consumed w =
     (if rc_stopped (rc w) then Some w
      else map_option (\<lambda>w1. w1\<lparr>rc := process_sub_tasks (c_redis E) (rc w1)\<rparr>)
             (case consumed of None \<Rightarrow> Some w | Some msg \<Rightarrow> on_message E msg w))"

inductive node_step :: "('db, 'rd) chat_env \<Rightarrow> ('db, 'rd) chat_state \<Rightarrow> ('db, 'rd) chat_state \<Rightarrow> bool"
  for E :: "('db, 'rd) chat_env" where
  message: "onMessage E conn buf w = Some w' \<Longrightarrow> node_step E w w'"
| connection: "node_step E w (onConnection E conn connected w)"
| subscriber: "subscriber_turn E consumed w = Some w' \<Longrightarrow> node_step E w w'"

inductive node_reach :: "('db, 'rd) chat_env \<Rightarrow> ('db, 'rd) chat_state \<Rightarrow> ('db, 'rd) chat_state \<Rightarrow> bool"
  for E :: "('db, 'rd) chat_env" and w0 :: "('db, 'rd) chat_state" where
  start: "node_reach E w0 w0"
| step: "node_reach E w0 w \<Longrightarrow> node_step E w w' \<Longrightarrow> node_reach E w0 w'"

inductive_cases node_stepE: "node_step E w w'"

text \<open>
  The steps by what causes them, and the users whose presence a step may withdraw: the one a log-out
  names, or the first one in the map on a connection that closes.
\<close>

datatype node_event = Received nat string | Connection nat bool | Turn "string option"

fun handle_event ::
  "('db, 'rd) chat_env \<Rightarrow> node_event \<Rightarrow> ('db, 'rd) chat_state \<Rightarrow> ('db, 'rd) chat_state option" where
  "handle_event E (Received conn buf) w = onMessage E conn buf w"
| "handle_event E (Connection conn connected) w = Some (onConnection E conn connected w)"
| "handle_event E (Turn consumed) w = subscriber_turn E consumed w"

lemma node_step_event: "node_step E w w' \<longleftrightarrow> (\<exists>ev. handle_event E ev w = Some w')"
proof
  assume "node_step E w w'"
  then show "\<exists>ev. handle_event E ev w = Some w'"
  proof cases
    case (message conn buf)
    then have "handle_event E (Received conn buf) w = Some w'" by simp
    then show ?thesis ..
  next
    case (connection conn connected)
    then have "handle_event E (Connection conn connected) w = Some w'" by simp
    then show ?thesis ..
  next
    case (subscriber consumed)
    then have "handle_event E (Turn consumed) w = Some w'" by simp
    then show ?thesis ..
  qed
next
  assume "\<exists>ev. handle_event E ev w = Some w'"
  then obtain ev where "handle_event E ev w = Some w'" ..
  then show "node_step E w w'" by (cases ev) (auto intro: node_step.intros)
qed

definition logout_request :: "('db, 'rd) chat_env \<Rightarrow> string \<Rightarrow> int \<Rightarrow> bool" where
  "logout_request E buf i =
     (case c_parse E buf of
        None \<Rightarrow> False
      | Some js \<Rightarrow>
          (case field_int ''msgid'' js of
             Inl e \<Rightarrow> False
           | Inr (msgid, js1) \<Rightarrow>
               getHandler msgid = Some H_loginOut \<and>
               (case field_int ''id'' js1 of Inl e \<Rightarrow> False | Inr (j, js2) \<Rightarrow> j = i)))"

fun withdraws :: "('db, 'rd) chat_env \<Rightarrow> node_event \<Rightarrow> ('db, 'rd) chat_state \<Rightarrow> int \<Rightarrow> bool" where
  "withdraws E (Received conn buf) w i = logout_request E buf i"
| "withdraws E (Connection conn connected) w i =
     (\<not> connected \<and> i \<in> fst ` set_option (find (\<lambda>e. snd e = conn) (userConnMap w)))"
| "withdraws E (Turn consumed) w i = False"

end
