(* ===== verification/Chat_Service_Facts.thy ===== *)
theory Chat_Service_Facts
  imports Chat_Server
begin

section \<open>What the parts of the handlers do\<close>

text \<open>
  The lemmas the properties of the service rest on: closed forms of the helper loops, which
  fields of the service's state each part touches, and an invariant principle, the locale
  \<open>node_invariant\<close>: a predicate that the data operations, the Redis client and the local
  maps keep is kept by every step of a node.
\<close>

named_theorems service_simps \<open>closed forms of the parts of the handlers\<close>

subsection \<open>Sub-states\<close>

lemma on_mysql_eq [service_simps]:
  "on_mysql f w = (fst (f (ms (off w))), w\<lparr>off := (off w)\<lparr>ms := snd (f (ms (off w)))\<rparr>\<rparr>)"
  by (simp add: on_mysql_def split: prod.splits)

lemma on_redis_eq [service_simps]: "on_redis f w = (fst (f (rc w)), w\<lparr>rc := snd (f (rc w))\<rparr>)"
  by (simp add: on_redis_def split: prod.splits)

lemma send_fields [simp]:
  "off (send c t w) = off w" "rc (send c t w) = rc w" "userConnMap (send c t w) = userConnMap w"
  "groupMembers (send c t w) = groupMembers w" "sent (send c t w) = sent w @ [(c, t)]"
  by (simp_all add: send_def)

subsection \<open>Closed forms of the loops\<close>

lemma friend_texts_state:
  "snd (friend_texts E us w) = w\<lparr>rc := fold (\<lambda>u s. snd (isUserOnline (c_redis E) (user_id u) s)) us (rc w)\<rparr>"
  by (induction us arbitrary: w) (simp_all add: on_redis_eq split_beta)

lemma length_friend_texts: "length (fst (friend_texts E us w)) = length us"
  by (induction us arbitrary: w) (simp_all add: on_redis_eq split_beta)

text \<open>
  The entries the loop over the groups leaves when no group lists its members: the entry of each
  group is created, and no set gains a member.
\<close>

definition touch_groups :: "group list \<Rightarrow> (int, int list) umap \<Rightarrow> (int, int list) umap" where
  "touch_groups gs gm = fold (\<lambda>g. um_modify (group_id g) [] (\<lambda>m. m)) gs gm"

lemma touch_groups_lookup [umap_simps]:
  "map_of (touch_groups gs gm) x =
     (if map_of gm x = None \<and> x \<in> group_id ` set gs then Some [] else map_of gm x)"
  unfolding touch_groups_def
  by (induction gs arbitrary: gm) (auto simp: umap_simps split: option.splits)

lemma group_texts_memberless:
  assumes "\<And>g. g \<in> set gs \<Longrightarrow> group_users g = []"
  shows "snd (group_texts E i gs w) =
    w\<lparr>groupMembers := touch_groups gs (groupMembers w),
      rc := fold (\<lambda>g. subscribeGroupChannel (group_id g)) gs (rc w)\<rparr>"
  using assms
  by (induction gs arbitrary: w) (simp_all add: touch_groups_def Let_def split_beta id_def)

lemma leave_groups_members: "fst (leave_groups i gm s) = map (\<lambda>(g, m). (g, ss_erase i m)) gm"
  by (induction i gm s rule: leave_groups.induct) (auto simp: Let_def split: prod.splits)

lemma leave_groups_client:
  "snd (leave_groups i gm s) =
     fold (\<lambda>g. unsubscribeGroupChannel g) (map fst (filter (\<lambda>(g, m). ss_erase i m = []) gm)) s"
  by (induction i gm s rule: leave_groups.induct) (auto simp: Let_def split: prod.splits)

lemma leave_all_eq [service_simps]:
  "leave_all i w = w\<lparr>groupMembers := map (\<lambda>(g, m). (g, ss_erase i m)) (groupMembers w),
     rc := fold (\<lambda>g. unsubscribeGroupChannel g)
             (map fst (filter (\<lambda>(g, m). ss_erase i m = []) (groupMembers w))) (rc w)\<rparr>"
  using leave_groups_members [of i "groupMembers w" "rc w"] leave_groups_client [of i "groupMembers w" "rc w"]
  by (simp add: leave_all_def split_beta)

lemma map_of_erase_members:
  "map_of (map (\<lambda>(g, m). (g, ss_erase i m)) gm) x = map_option (ss_erase i) (map_of gm x)"
  by (induction gm) auto

lemma send_members_eq:
  "send_members text uids w =
     w\<lparr>sent := sent w @ map (\<lambda>c. (c, text)) (List.map_filter (map_of (userConnMap w)) uids)\<rparr>"
  unfolding send_members_def
  by (induction uids arbitrary: w) (auto simp: List.map_filter_def send_def split: option.splits)

subsection \<open>Tasks of the subscriber\<close>

lemma subscribe_fields [simp]:
  "rd (subscribeGroupChannel g s) = rd s" "rpool (subscribeGroupChannel g s) = rpool s"
  "sub_group_set (subscribeGroupChannel g s) = sub_group_set s"
  "localNodeId (subscribeGroupChannel g s) = localNodeId s"
  "rc_stopped (subscribeGroupChannel g s) = rc_stopped s"
  by (simp_all add: subscribeGroupChannel_def)

lemma unsubscribe_fields [simp]:
  "rd (unsubscribeGroupChannel g s) = rd s" "rpool (unsubscribeGroupChannel g s) = rpool s"
  "sub_group_set (unsubscribeGroupChannel g s) = sub_group_set s"
  "localNodeId (unsubscribeGroupChannel g s) = localNodeId s"
  "rc_stopped (unsubscribeGroupChannel g s) = rc_stopped s"
  by (simp_all add: unsubscribeGroupChannel_def)

lemma fold_subscribe_fields [simp]:
  "rd (fold (\<lambda>g. subscribeGroupChannel (f g)) gs s) = rd s"
  "rpool (fold (\<lambda>g. subscribeGroupChannel (f g)) gs s) = rpool s"
  "sub_group_set (fold (\<lambda>g. subscribeGroupChannel (f g)) gs s) = sub_group_set s"
  by (induction gs arbitrary: s) simp_all

lemma fold_unsubscribe_fields [simp]:
  "rd (fold (\<lambda>g. unsubscribeGroupChannel g) gs s) = rd s"
  "rpool (fold (\<lambda>g. unsubscribeGroupChannel g) gs s) = rpool s"
  "sub_group_set (fold (\<lambda>g. unsubscribeGroupChannel g) gs s) = sub_group_set s"
  "localNodeId (fold (\<lambda>g. unsubscribeGroupChannel g) gs s) = localNodeId s"
  by (induction gs arbitrary: s) simp_all

lemma fold_unsubscribe_tasks:
  "sub_tasks (fold (\<lambda>g. unsubscribeGroupChannel g) gs s) =
     sub_tasks s @ map Unsubscribe (filter (\<lambda>g. g \<in> set (sub_group_set s)) gs)"
  by (induction gs arbitrary: s) (auto simp: unsubscribeGroupChannel_def)

subsection \<open>queryGroups\<close>

lemma queryGroups_memberless: "g \<in> set (fst (GroupModel_queryGroups S u m)) \<Longrightarrow> group_users g = []"
  unfolding GroupModel_queryGroups_def query_with_def sql_call_def
  by (auto split: prod.splits sum.splits option.splits dest: mapR_read_group_users)

lemma login_groups_state:
  "snd (login_groups E i w) =
    (let m = ms (off w); gs = fst (GroupModel_queryGroups (c_sql E) i m)
     in w\<lparr>off := (off w)\<lparr>ms := snd (GroupModel_queryGroups (c_sql E) i m)\<rparr>,
          groupMembers := touch_groups gs (groupMembers w),
          rc := fold (\<lambda>g. subscribeGroupChannel (group_id g)) gs (rc w)\<rparr>)"
  using group_texts_memberless [of "fst (GroupModel_queryGroups (c_sql E) i (ms (off w)))" E i]
  by (auto simp: login_groups_def on_mysql_eq Let_def touch_groups_def queryGroups_memberless split_beta)

lemma fold_isUserOnline_fields [simp]:
  "sub_tasks (fold (\<lambda>u s. snd (isUserOnline R (f u) s)) us s) = sub_tasks s"
  "sub_group_set (fold (\<lambda>u s. snd (isUserOnline R (f u) s)) us s) = sub_group_set s"
  by (induction us arbitrary: s) (simp_all add: isUserOnline_def)

text \<open>What reading the friend list does: pool and server of both clients, nothing else.\<close>

lemma login_friends_state:
  obtains m s where "snd (login_friends E i w) = w\<lparr>off := (off w)\<lparr>ms := m\<rparr>, rc := s\<rparr>"
    and "sub_tasks s = sub_tasks (rc w)" and "sub_group_set s = sub_group_set (rc w)"
proof -
  let ?g = "redis_get (c_redis E) (friends_key i) (rc w)"
  let ?q = "FriendModel_query (c_sql E) i (ms (off w))"
  have "\<exists>m s. snd (login_friends E i w) = w\<lparr>off := (off w)\<lparr>ms := m\<rparr>, rc := s\<rparr> \<and>
      sub_tasks s = sub_tasks (rc w) \<and> sub_group_set s = sub_group_set (rc w)"
  proof (cases "fst ?g")
    case (Some c)
    then have "snd (login_friends E i w) = w\<lparr>off := (off w)\<lparr>ms := ms (off w)\<rparr>, rc := snd ?g\<rparr>"
      by (simp add: login_friends_def on_redis_eq)
    then show ?thesis by (metis redis_get_def redis_call_fields(3,4))
  next
    case None
    let ?texts = "fst (friend_texts E (fst ?q) (w\<lparr>rc := snd ?g, off := (off w)\<lparr>ms := snd ?q\<rparr>\<rparr>))"
    let ?s = "snd (redis_set (c_redis E) (friends_key i) (c_dump E (JArr (map JStr ?texts))) 3600
        (fold (\<lambda>u s. snd (isUserOnline (c_redis E) (user_id u) s)) (fst ?q) (snd ?g)))"
    have "snd (login_friends E i w) = w\<lparr>off := (off w)\<lparr>ms := snd ?q\<rparr>, rc := (if fst ?q = [] then snd ?g else ?s)\<rparr>"
      using None by (simp add: login_friends_def on_redis_eq on_mysql_eq split_beta friend_texts_state)
    moreover have "sub_tasks (if fst ?q = [] then snd ?g else ?s) = sub_tasks (rc w)"
      "sub_group_set (if fst ?q = [] then snd ?g else ?s) = sub_group_set (rc w)"
      by (simp_all add: redis_get_def redis_set_def)
    ultimately show ?thesis by blast
  qed
  with that show thesis by blast
qed

text \<open>The entries the two lists contribute to the reply.\<close>

lemma login_friends_entries: "fst ` set (fst (login_friends E i w)) \<subseteq> {''friends''}"
  by (simp add: login_friends_def on_redis_eq on_mysql_eq split_beta split: option.splits)

lemma login_groups_entries: "fst ` set (fst (login_groups E i w)) \<subseteq> {''groups''}"
  by (simp add: login_groups_def on_mysql_eq split_beta)

subsection \<open>login\<close>

text \<open>The state in which the service pops the offline messages, and the messages.\<close>

definition login_offline :: "('db, 'rd) chat_env \<Rightarrow> nat \<Rightarrow> int \<Rightarrow> 'rd redis_state \<Rightarrow> string list" where
  "login_offline E conn i s =
     fst (popOfflineMessages (c_redis E) i
       (snd (setUserOnline (c_redis E) i (c_name E conn) (snd (getUserNode (c_redis E) i s)))))"

lemma map_of_rev_append_None:
  "k \<notin> fst ` set xs \<Longrightarrow> map_of (rev (fs @ xs)) k = map_of (rev fs) k"
proof -
  assume "k \<notin> fst ` set xs"
  then have "map_of (rev xs) k = None" by (auto simp: map_of_eq_None_iff)
  then show ?thesis by (simp add: map_add_def)
qed

lemma login_success_effect:
  obtains m m1 s fields where
    "login_success E conn i u w =
       w\<lparr>off := (off w)\<lparr>ms := m\<rparr>, rc := s, userConnMap := um_insert i conn (userConnMap w),
         groupMembers := touch_groups (fst (GroupModel_queryGroups (c_sql E) i m1)) (groupMembers w),
         sent := sent w @ [(conn, c_dump E (json_obj fields))]\<rparr>"
    and "\<And>k. k \<noteq> ''friends'' \<Longrightarrow> k \<noteq> ''groups'' \<Longrightarrow> json_get k (json_obj fields) =
       map_of (rev ([(''msgid'', JInt LOGIN_MSG_ACK), (''errno'', JInt 0), (''id'', JInt (user_id u)),
                (''name'', JStr (user_name u))] @
         (if login_offline E conn i (rc w) = [] then []
          else [(''offlinemessage'', JArr (map JStr (login_offline E conn i (rc w))))]))) k"
proof -
  let ?R = "c_redis E"
  let ?s3 = "snd (setUserOnline ?R i (c_name E conn) (snd (getUserNode ?R i (rc w))))"
  let ?w4 = "w\<lparr>userConnMap := um_insert i conn (userConnMap w), rc := snd (popOfflineMessages ?R i ?s3)\<rparr>"
  let ?off = "login_offline E conn i (rc w)"
  let ?fs = "[(''msgid'', JInt LOGIN_MSG_ACK), (''errno'', JInt 0), (''id'', JInt (user_id u)),
      (''name'', JStr (user_name u))] @ (if ?off = [] then [] else [(''offlinemessage'', JArr (map JStr ?off))])"
  let ?fr = "login_friends E i ?w4"
  let ?gr = "login_groups E i (snd ?fr)"
  have off: "fst (popOfflineMessages ?R i ?s3) = ?off" by (simp add: login_offline_def)
  have eq: "login_success E conn i u w = send conn (c_dump E (json_obj (?fs @ fst ?fr @ fst ?gr))) (snd ?gr)"
    by (simp add: login_success_def on_redis_eq Let_def split_beta off)
  obtain m s where m: "snd ?fr = ?w4\<lparr>off := (off w)\<lparr>ms := m\<rparr>, rc := s\<rparr>"
    by (rule login_friends_state [of E i ?w4]) simp
  have k: "json_get k (json_obj (?fs @ fst ?fr @ fst ?gr)) = map_of (rev ?fs) k"
    if "k \<noteq> ''friends''" "k \<noteq> ''groups''" for k
    unfolding json_get_json_obj
    by (rule map_of_rev_append_None)
      (use that login_friends_entries [of E i ?w4] login_groups_entries [of E i "snd ?fr"] in auto)
  have st: "login_success E conn i u w =
       w\<lparr>off := (off w)\<lparr>ms := snd (GroupModel_queryGroups (c_sql E) i m)\<rparr>,
         rc := fold (\<lambda>g. subscribeGroupChannel (group_id g)) (fst (GroupModel_queryGroups (c_sql E) i m)) s,
         userConnMap := um_insert i conn (userConnMap w),
         groupMembers := touch_groups (fst (GroupModel_queryGroups (c_sql E) i m)) (groupMembers w),
         sent := sent w @ [(conn, c_dump E (json_obj (?fs @ fst ?fr @ fst ?gr)))]\<rparr>"
    unfolding eq login_groups_state m Let_def send_def by simp
  show thesis by (rule that [OF st k])
qed

lemma login_success_conns: "userConnMap (login_success E conn i u w) = um_insert i conn (userConnMap w)"
  by (rule login_success_effect [of E conn i u w]) simp

lemma login_success_reply:
  "\<exists>fields. sent (login_success E conn i u w) = sent w @ [(conn, c_dump E (json_obj fields))] \<and>
     json_get ''errno'' (json_obj fields) = Some (JInt 0) \<and>
     json_get ''id'' (json_obj fields) = Some (JInt (user_id u)) \<and>
     json_get ''name'' (json_obj fields) = Some (JStr (user_name u)) \<and>
     json_get ''offlinemessage'' (json_obj fields) =
       (if login_offline E conn i (rc w) = [] then None
        else Some (JArr (map JStr (login_offline E conn i (rc w)))))"
  by (rule login_success_effect [of E conn i u w], rule exI, rule conjI, simp) simp

lemma login_success_groups:
  "map_of (groupMembers (login_success E conn i u w)) g \<noteq> map_of (groupMembers w) g \<Longrightarrow>
   map_of (groupMembers w) g = None \<and> map_of (groupMembers (login_success E conn i u w)) g = Some []"
  by (rule login_success_effect [of E conn i u w]) (simp add: umap_simps split: if_splits)

subsection \<open>Invariants of a node\<close>

text \<open>What the handlers call on the data classes and on the Redis client.\<close>

inductive model_op :: "'db sql_exec \<Rightarrow> ('db mysql_state \<Rightarrow> 'db mysql_state) \<Rightarrow> bool" for S :: "'db sql_exec" where
  insert_user: "model_op S (\<lambda>m. snd (UserModel_insert S u m))"
| query_user: "model_op S (\<lambda>m. snd (UserModel_query S i m))"
| insert_friend: "model_op S (\<lambda>m. snd (FriendModel_insert S i j m))"
| query_friends: "model_op S (\<lambda>m. snd (FriendModel_query S i m))"
| create_group: "model_op S (\<lambda>m. snd (GroupModel_createGroup S g m))"
| join_group: "model_op S (\<lambda>m. snd (GroupModel_joinGroup S i j r m))"
| query_groups: "model_op S (\<lambda>m. snd (GroupModel_queryGroups S i m))"
| query_members: "model_op S (\<lambda>m. snd (GroupModel_queryGroupUsers S i j m))"

inductive frame_op :: "'rd redis_env \<Rightarrow> ('rd redis_state \<Rightarrow> 'rd redis_state) \<Rightarrow> bool" for R :: "'rd redis_env" where
  get_node: "frame_op R (\<lambda>s. snd (getUserNode R i s))"
| is_online: "frame_op R (\<lambda>s. snd (isUserOnline R i s))"
| set_online: "frame_op R (\<lambda>s. snd (setUserOnline R i c s))"
| push_message: "frame_op R (\<lambda>s. snd (pushOfflineMessage R i t s))"
| pop_messages: "frame_op R (\<lambda>s. snd (popOfflineMessages R i s))"
| get_key: "frame_op R (\<lambda>s. snd (redis_get R k s))"
| set_friends: "frame_op R (\<lambda>s. snd (redis_set R (friends_key i) t n s))"
| set_info: "frame_op R (\<lambda>s. snd (redis_hset R (user_info_key i) f t s))"
| expire_info: "frame_op R (\<lambda>s. snd (redis_expire R (user_info_key i) n s))"
| expire_members: "frame_op R (\<lambda>s. snd (redis_expire R (group_members_key i) n s))"
| add_member: "frame_op R (\<lambda>s. snd (redis_sadd R (group_members_key i) t s))"
| publish_group: "frame_op R (\<lambda>s. snd (publishGroupMessage R g t s))"
| subscribe: "frame_op R (subscribeGroupChannel g)"
| unsubscribe: "frame_op R (unsubscribeGroupChannel g)"
| work: "frame_op R (process_sub_tasks R)"

text \<open>
  All of them, with \<open>setUserOffline\<close>, which only a log-out and a lost connection call: the locale
  \<open>node_frame\<close> is for predicates that a withdrawn presence may break.
\<close>

inductive client_op :: "'rd redis_env \<Rightarrow> ('rd redis_state \<Rightarrow> 'rd redis_state) \<Rightarrow> bool" for R :: "'rd redis_env" where
  frame: "frame_op R f \<Longrightarrow> client_op R f"
| set_offline: "client_op R (\<lambda>s. snd (setUserOffline R i s))"

lemmas client_op_intros = frame_op.intros [THEN client_op.frame] client_op.set_offline

locale node_frame =
  fixes E :: "('db, 'rd) chat_env"
    and M :: "'db offline_state \<Rightarrow> bool"
    and R :: "'rd redis_state \<Rightarrow> bool"
    and U :: "(int, nat) umap \<Rightarrow> bool"
    and G :: "(int, int list) umap \<Rightarrow> bool"
    and Off :: "int \<Rightarrow> bool"
  assumes model: "model_op (c_sql E) f \<Longrightarrow> M st \<Longrightarrow> M (st\<lparr>ms := f (ms st)\<rparr>)"
    and store: "OfflineMessage_insert (c_sql E) u msg st = Some (b, st') \<Longrightarrow> M st \<Longrightarrow> M st'"
    and frame: "frame_op (c_redis E) g \<Longrightarrow> R s \<Longrightarrow> R (g s)"
    and offline: "Off i \<Longrightarrow> R s \<Longrightarrow> R (snd (setUserOffline (c_redis E) i s))"
    and conn_insert: "U um \<Longrightarrow> U (um_insert i c um)"
    and conn_erase: "U um \<Longrightarrow> U (um_erase i um)"
    and conn_remove: "U um \<Longrightarrow> U (remove1 e um)"
    and group_touch: "G gm \<Longrightarrow> G (um_modify j [] (\<lambda>m. m) gm)"
    and group_join: "G gm \<Longrightarrow> G (um_modify j [] (ss_insert i) gm)"
    and group_leave: "G gm \<Longrightarrow> G (map (\<lambda>(g, m). (g, ss_erase i m)) gm)"
begin

definition node_inv :: "('db, 'rd) chat_state \<Rightarrow> bool" where
  "node_inv w \<longleftrightarrow> M (off w) \<and> R (rc w) \<and> U (userConnMap w) \<and> G (groupMembers w)"

lemma inv_send [simp]: "node_inv (send c t w) \<longleftrightarrow> node_inv w"
  by (simp add: node_inv_def)

lemma inv_mysql: "model_op (c_sql E) (\<lambda>m. snd (f m)) \<Longrightarrow> node_inv w \<Longrightarrow> node_inv (snd (on_mysql f w))"
  using model [of "\<lambda>m. snd (f m)" "off w"] by (simp add: node_inv_def on_mysql_eq)

lemma inv_frame: "frame_op (c_redis E) (\<lambda>s. snd (f s)) \<Longrightarrow> node_inv w \<Longrightarrow> node_inv (snd (on_redis f w))"
  using frame [of "\<lambda>s. snd (f s)" "rc w"] by (simp add: node_inv_def on_redis_eq)

lemma inv_offline_user: "Off i \<Longrightarrow> node_inv w \<Longrightarrow> node_inv (snd (on_redis (setUserOffline (c_redis E) i) w))"
  using offline [of i "rc w"] by (simp add: node_inv_def on_redis_eq)

lemma inv_task: "frame_op (c_redis E) f \<Longrightarrow> node_inv w \<Longrightarrow> node_inv (w\<lparr>rc := f (rc w)\<rparr>)"
  using frame by (simp add: node_inv_def)

lemma fold_client: "(\<And>x. frame_op (c_redis E) (f x)) \<Longrightarrow> R s \<Longrightarrow> R (fold f xs s)"
  by (induction xs arbitrary: s) (simp_all add: frame)

lemma G_touch: "G gm \<Longrightarrow> G (touch_groups gs gm)"
  unfolding touch_groups_def by (induction gs arbitrary: gm) (simp_all add: group_touch)

lemma G_join: "G gm \<Longrightarrow> G (fold (\<lambda>i gm. um_modify j [] (ss_insert i) gm) is gm)"
  by (induction "is" arbitrary: gm) (simp_all add: group_join)

lemma inv_leave_all: "node_inv w \<Longrightarrow> node_inv (leave_all i w)"
  by (simp add: node_inv_def leave_all_eq group_leave fold_client frame_op.intros)

lemma inv_friend_texts: "node_inv w \<Longrightarrow> node_inv (snd (friend_texts E us w))"
  by (simp add: friend_texts_state node_inv_def fold_client frame_op.intros)

lemma inv_login_friends: "node_inv w \<Longrightarrow> node_inv (snd (login_friends E i w))"
proof -
  assume "node_inv w"
  then have "node_inv (snd (on_redis (redis_get (c_redis E) (friends_key i)) w))" (is "node_inv ?w1")
    by (rule inv_frame [OF frame_op.get_key])
  moreover from this have "node_inv (snd (on_mysql (FriendModel_query (c_sql E) i) ?w1))" (is "node_inv ?w2")
    by (rule inv_mysql [OF model_op.query_friends])
  moreover from this have "node_inv (snd (friend_texts E us ?w2))" for us by (rule inv_friend_texts)
  moreover from this have "node_inv (snd (on_redis (redis_set (c_redis E) (friends_key i) t n) (snd (friend_texts E us ?w2))))" for us t n
    by (rule inv_frame [OF frame_op.set_friends])
  ultimately show ?thesis
    by (auto simp: login_friends_def split_beta split: option.splits)
qed

lemma inv_login_groups: "node_inv w \<Longrightarrow> node_inv (snd (login_groups E i w))"
  using model [OF model_op.query_groups]
  by (simp add: login_groups_state Let_def node_inv_def G_touch fold_client frame_op.intros)

lemma inv_login_success: "node_inv w \<Longrightarrow> node_inv (login_success E conn i u w)"
proof -
  assume "node_inv w"
  then have "node_inv (w\<lparr>userConnMap := um_insert i conn (userConnMap w)\<rparr>)" (is "node_inv ?w1")
    by (simp add: node_inv_def conn_insert)
  then have "node_inv (snd (on_redis (getUserNode (c_redis E) i) ?w1))" (is "node_inv ?w2")
    by (rule inv_frame [OF frame_op.get_node])
  then have "node_inv (snd (on_redis (setUserOnline (c_redis E) i (c_name E conn)) ?w2))" (is "node_inv ?w3")
    by (rule inv_frame [OF frame_op.set_online])
  then have "node_inv (snd (on_redis (popOfflineMessages (c_redis E) i) ?w3))" (is "node_inv ?w4")
    by (rule inv_frame [OF frame_op.pop_messages])
  then have "node_inv (snd (login_groups E i (snd (login_friends E i ?w4))))"
    by (intro inv_login_groups inv_login_friends)
  then show ?thesis by (simp add: login_success_def Let_def split_beta)
qed

lemma inv_login: "node_inv w \<Longrightarrow> node_inv (snd (login E conn js w))"
proof -
  assume "node_inv w"
  then have "node_inv (snd (on_mysql (UserModel_query (c_sql E) i) w))" (is "node_inv (?w1 i)") for i
    by (rule inv_mysql [OF model_op.query_user])
  moreover from this have "node_inv (snd (on_redis (isUserOnline (c_redis E) i) (?w1 i)))" for i
    by (rule inv_frame [OF frame_op.is_online])
  ultimately show ?thesis using \<open>node_inv w\<close>
    by (auto simp: login_def login_with_def split_beta inv_login_success split: sum.splits)
qed

lemma inv_loginOut:
  "(\<And>i js'. field_int ''id'' js = Inr (i, js') \<Longrightarrow> Off i) \<Longrightarrow> node_inv w \<Longrightarrow> node_inv (snd (loginOut E conn js w))"
proof -
  assume w: "node_inv w" and off: "\<And>i js'. field_int ''id'' js = Inr (i, js') \<Longrightarrow> Off i"
  then have "node_inv (w\<lparr>userConnMap := um_erase i (userConnMap w)\<rparr>)" (is "node_inv (?w1 i)") for i
    by (simp add: node_inv_def conn_erase)
  then have "node_inv (leave_all i (snd (on_redis (setUserOffline (c_redis E) i) (?w1 i))))" if "Off i" for i
    using that by (intro inv_leave_all inv_offline_user)
  with w off show ?thesis by (auto simp: loginOut_def Let_def split: sum.splits)
qed

lemma inv_clientQuit:
  "(\<And>e. find (\<lambda>e. snd e = conn) (userConnMap w) = Some e \<Longrightarrow> Off (fst e)) \<Longrightarrow> node_inv w \<Longrightarrow>
   node_inv (clientQuitEcption E conn w)"
proof -
  assume w: "node_inv w" and off: "\<And>e. find (\<lambda>e. snd e = conn) (userConnMap w) = Some e \<Longrightarrow> Off (fst e)"
  then have "node_inv (w\<lparr>userConnMap := remove1 e (userConnMap w)\<rparr>)" for e
    by (simp add: node_inv_def conn_remove)
  with w off show ?thesis
    by (auto simp: clientQuitEcption_def Let_def User_default_def split: option.splits
        intro!: inv_leave_all inv_offline_user)
qed

lemma inv_reg: "node_inv w \<Longrightarrow> node_inv (snd (reg E conn js w))"
  by (auto simp: reg_def Let_def split_beta split: sum.splits
      intro!: inv_frame [OF frame_op.set_info] inv_frame [OF frame_op.expire_info]
        inv_mysql [OF model_op.insert_user])

lemma inv_offline:
  "node_inv w \<Longrightarrow> OfflineMessage_insert (c_sql E) u msg (off w) = Some (b, st) \<Longrightarrow> node_inv (w\<lparr>off := st\<rparr>)"
  using store by (auto simp: node_inv_def)

lemma inv_deliver: "node_inv w \<Longrightarrow> deliver_or_store E conn t js w = Some w' \<Longrightarrow> node_inv w'"
  by (auto simp: deliver_or_store_def inv_offline split: option.splits)

lemma inv_oneChat: "node_inv w \<Longrightarrow> oneChat E conn js w = Some (r, w') \<Longrightarrow> node_inv w'"
proof -
  assume w: "node_inv w" and r: "oneChat E conn js w = Some (r, w')"
  from w have q: "node_inv (snd (on_mysql (FriendModel_query (c_sql E) i) w))" for i
    by (rule inv_mysql [OF model_op.query_friends])
  then have "node_inv v" if "oneChat_checked E conn i t j w = Some v" for i t j v
    using that by (auto simp: oneChat_checked_def split_beta split: if_splits dest: inv_deliver [rotated])
  with w r show ?thesis
    by (auto simp: oneChat_def split: sum.splits if_splits prod.splits)
qed

lemma inv_addFriend: "node_inv w \<Longrightarrow> node_inv (snd (addFriend E conn js w))"
  by (auto simp: addFriend_def split: sum.splits intro!: inv_mysql [OF model_op.insert_friend])

lemma inv_enter_group: "node_inv w \<Longrightarrow> node_inv (enter_group E u g w)"
proof -
  assume "node_inv w"
  then have "node_inv (w\<lparr>groupMembers := um_modify g [] (ss_insert u) (groupMembers w)\<rparr>)"
    by (simp add: node_inv_def group_join)
  then show ?thesis
    by (auto simp: enter_group_def Let_def intro!: inv_task [OF frame_op.subscribe]
        inv_frame [OF frame_op.add_member] inv_frame [OF frame_op.expire_members])
qed

lemma inv_createGroup: "node_inv w \<Longrightarrow> node_inv (snd (createGroup E conn js w))"
  by (auto simp: createGroup_def split_beta split: sum.splits
      intro!: inv_enter_group inv_mysql [OF model_op.create_group] inv_mysql [OF model_op.join_group])

lemma inv_joinGroup: "node_inv w \<Longrightarrow> node_inv (snd (joinGroup E conn js w))"
  by (auto simp: joinGroup_def split_beta split: sum.splits
      intro!: inv_enter_group inv_mysql [OF model_op.join_group])

lemma inv_load_members: "node_inv w \<Longrightarrow> node_inv (load_members E u g w)"
proof -
  assume w: "node_inv w"
  let ?q = "on_mysql (GroupModel_queryGroupUsers (c_sql E) u g) w"
  from w have "node_inv (snd ?q)" by (rule inv_mysql [OF model_op.query_members])
  then have "node_inv ((snd ?q)\<lparr>groupMembers :=
      fold (\<lambda>i gm. um_modify g [] (ss_insert i) gm) (fst ?q) (groupMembers (snd ?q))\<rparr>)"
    by (simp add: node_inv_def G_join)
  from w inv_task [OF frame_op.subscribe this, of g] show ?thesis
    by (simp add: load_members_def Let_def split_beta)
qed

lemma inv_groupChat: "node_inv w \<Longrightarrow> node_inv (snd (groupChat E conn js w))"
  by (auto simp: groupChat_def split: sum.splits
      intro!: inv_load_members inv_frame [OF frame_op.publish_group])

lemma inv_handler:
  assumes off: "\<And>i js'. h = H_loginOut \<Longrightarrow> field_int ''id'' js = Inr (i, js') \<Longrightarrow> Off i"
    and "node_inv w" and "run_handler E h conn js w = Some (r, w')"
  shows "node_inv w'"
proof (cases h)
  case H_loginOut
  with assms inv_loginOut [of js w conn] show ?thesis by simp
qed (use assms(2,3) in \<open>auto dest: inv_login [of _ conn js] inv_reg [of _ conn js]
      inv_oneChat inv_addFriend [of _ conn js] inv_createGroup [of _ conn js]
      inv_joinGroup [of _ conn js] inv_groupChat [of _ conn js]\<close>)

lemma inv_send_members [simp]: "node_inv (send_members t us w) \<longleftrightarrow> node_inv w"
  by (simp add: send_members_eq node_inv_def)

lemma inv_callback: "node_inv w \<Longrightarrow> inbox_callback E j w = Some (r, w') \<Longrightarrow> node_inv w'"
  by (auto simp: inbox_callback_def split: option.splits sum.splits
      intro!: inv_frame [OF frame_op.push_message] elim: inv_offline)

lemma inv_onMessage:
  "(\<And>i. logout_request E buf i \<Longrightarrow> Off i) \<Longrightarrow> node_inv w \<Longrightarrow> onMessage E conn buf w = Some w' \<Longrightarrow> node_inv w'"
  by (auto simp: onMessage_def logout_request_def split: option.splits sum.splits prod.splits elim!: inv_handler [rotated 2])

lemma inv_on_message: "node_inv w \<Longrightarrow> on_message E msg w = Some w' \<Longrightarrow> node_inv w'"
  by (auto simp: on_message_def split: option.splits dest: inv_callback)

lemma inv_subscriber: "node_inv w \<Longrightarrow> subscriber_turn E consumed w = Some w' \<Longrightarrow> node_inv w'"
  using inv_task [OF frame_op.work] inv_on_message [of w]
  by (auto simp: subscriber_turn_def split: if_splits option.splits)

lemma inv_event:
  assumes "\<And>i. withdraws E ev w i \<Longrightarrow> Off i" and "node_inv w" and "handle_event E ev w = Some w'"
  shows "node_inv w'"
proof (cases ev)
  case (Received conn buf)
  with assms inv_onMessage [of buf w conn w'] show ?thesis by simp
next
  case (Connection conn connected)
  with assms inv_clientQuit [of conn w] show ?thesis by (auto simp: onConnection_def)
next
  case (Turn consumed)
  with assms inv_subscriber [of w consumed w'] show ?thesis by simp
qed

end

text \<open>A predicate that no operation breaks at all is an invariant of the node.\<close>

locale node_invariant = node_frame E M R U G "\<lambda>i. True"
  for E :: "('db, 'rd) chat_env"
    and M :: "'db offline_state \<Rightarrow> bool"
    and R :: "'rd redis_state \<Rightarrow> bool"
    and U :: "(int, nat) umap \<Rightarrow> bool"
    and G :: "(int, int list) umap \<Rightarrow> bool"

context node_invariant
begin

lemmas node_inv_iff = node_inv_def

lemma client: "client_op (c_redis E) g \<Longrightarrow> R s \<Longrightarrow> R (g s)"
  by (erule client_op.cases) (use frame offline in \<open>simp_all\<close>)

lemma inv_redis: "client_op (c_redis E) (\<lambda>s. snd (f s)) \<Longrightarrow> node_inv w \<Longrightarrow> node_inv (snd (on_redis f w))"
  using client [of "\<lambda>s. snd (f s)" "rc w"] by (simp add: node_inv_def on_redis_eq)

lemma inv_client: "client_op (c_redis E) f \<Longrightarrow> node_inv w \<Longrightarrow> node_inv (w\<lparr>rc := f (rc w)\<rparr>)"
  using client by (simp add: node_inv_def)

lemma inv_step: "node_step E w w' \<Longrightarrow> node_inv w \<Longrightarrow> node_inv w'"
  by (auto simp: node_step_event intro: inv_event)

lemma inv_reach: "node_reach E w0 w \<Longrightarrow> node_inv w0 \<Longrightarrow> node_inv w"
  by (induction rule: node_reach.induct) (auto intro: inv_step)

end

lemma node_invariantI:
  assumes "\<And>f st. model_op (c_sql E) f \<Longrightarrow> M st \<Longrightarrow> M (st\<lparr>ms := f (ms st)\<rparr>)"
    and "\<And>u msg st b st'. OfflineMessage_insert (c_sql E) u msg st = Some (b, st') \<Longrightarrow> M st \<Longrightarrow> M st'"
    and client: "\<And>f s. client_op (c_redis E) f \<Longrightarrow> R s \<Longrightarrow> R (f s)"
    and "\<And>um i c. U um \<Longrightarrow> U (um_insert i c um)" and "\<And>um i. U um \<Longrightarrow> U (um_erase i um)"
    and "\<And>um e. U um \<Longrightarrow> U (remove1 e um)"
    and "\<And>gm j. G gm \<Longrightarrow> G (um_modify j [] (\<lambda>m. m) gm)" and "\<And>gm j i. G gm \<Longrightarrow> G (um_modify j [] (ss_insert i) gm)"
    and "\<And>gm i. G gm \<Longrightarrow> G (map (\<lambda>(g, m). (g, ss_erase i m)) gm)"
  shows "node_invariant E M R U G"
proof unfold_locales
  fix g s
  assume "frame_op (c_redis E) g" "R s"
  with client [OF client_op.frame] show "R (g s)" by blast
next
  fix i s
  assume "R s"
  with client [OF client_op.set_offline] show "R (snd (setUserOffline (c_redis E) i s))" by blast
qed (simp_all add: assms(1,2,4-))

subsection \<open>The service's own maps\<close>

definition groups_wf :: "(int, int list) umap \<Rightarrow> bool" where
  "groups_wf gm \<longleftrightarrow> um_wf gm \<and> (\<forall>m \<in> snd ` set gm. ss_wf m)"

lemma um_modify_values: "snd ` set (um_modify k d f m) \<subseteq> snd ` set m \<union> f ` snd ` set m \<union> {f d}"
  by (auto simp: um_modify_def image_iff) force+

lemma groups_wf_modify:
  assumes "groups_wf gm" and "\<And>m. ss_wf m \<Longrightarrow> ss_wf (f m)"
  shows "groups_wf (um_modify g [] f gm)"
proof -
  have "ss_wf (f [])" using assms(2) ss_wf_Nil by blast
  moreover have "ss_wf m" if "m \<in> snd ` set gm \<union> f ` snd ` set gm \<union> {f []}" for m
    using assms calculation that by (auto simp: groups_wf_def)
  then have "\<forall>m \<in> snd ` set (um_modify g [] f gm). ss_wf m"
    using subsetD [OF um_modify_values [of g "[]" f gm]] by metis
  with assms(1) show ?thesis by (simp add: groups_wf_def)
qed

lemma groups_wf_leave: "groups_wf gm \<Longrightarrow> groups_wf (map (\<lambda>(g, m). (g, ss_erase i m)) gm)"
  by (auto simp: groups_wf_def um_wf_def comp_def split_beta)

lemma um_wf_remove1: "um_wf m \<Longrightarrow> um_wf (remove1 e m)"
  by (metis um_wf_def distinct_map distinct_remove1 inj_on_subset set_remove1_subset)

interpretation maps_inv: node_invariant E "\<lambda>_. True" "\<lambda>s. True" um_wf groups_wf
  for E :: "('db, 'rd) chat_env"
  by unfold_locales (simp_all add: groups_wf_modify groups_wf_leave um_wf_remove1)

subsection \<open>The connections and the tables\<close>

text \<open>What one attempt to store a message keeps, the retry loop keeps.\<close>

lemma insert_loop_invariant:
  assumes ret: "insert_loop S u m r st = Some (b, st')" and "Q st"
    and none: "\<And>st p. Q st \<Longrightarrow> getConnection (pool (ms st)) = (None, p) \<Longrightarrow> Q (st\<lparr>ms := (ms st)\<lparr>pool := p\<rparr>\<rparr>)"
    and attempt: "\<And>st c p ok q d. Q st \<Longrightarrow> getConnection (pool (ms st)) = (Some c, p) \<Longrightarrow>
      tryInsert S c u m (failedQueue st) (db (ms st)) = (ok, q, d) \<Longrightarrow>
      Q (st\<lparr>ms := (ms st)\<lparr>pool := snd (releaseConnection (Some c) p), db := d\<rparr>, failedQueue := q\<rparr>)"
  shows "Q st'"
proof -
  let ?P = "\<lambda>S' u' m' r st res. S' = S \<longrightarrow> u' = u \<longrightarrow> m' = m \<longrightarrow> Q st \<longrightarrow> Q (snd res)"
  have "?P S u m r st (b, st')"
  proof (rule insert_loop.raw_induct [where P = ?P, OF _ ret], intro impI)
    fix f :: "'a sql_exec \<Rightarrow> int \<Rightarrow> string \<Rightarrow> nat \<Rightarrow> 'a offline_state \<Rightarrow> (bool \<times> 'a offline_state) option"
      and S' u' m' r st res
    assume IH: "\<And>S u m r st res. f S u m r st = Some res \<Longrightarrow> ?P S u m r st res"
      and eq: "(if \<not> r < maxRetries then Some (False, st)
        else case getConnection (pool (ms st)) of
          (None, p) \<Rightarrow> f S' u' m' (r + 1) (st\<lparr>ms := (ms st)\<lparr>pool := p\<rparr>\<rparr>)
        | (Some c, p) \<Rightarrow>
            (case tryInsert S' c u' m' (failedQueue st) (db (ms st)) of
               (success, q, d) \<Rightarrow>
                 (let st' = st\<lparr>ms := (ms st)\<lparr>pool := snd (releaseConnection (Some c) p), db := d\<rparr>,
                                failedQueue := q\<rparr>
                  in if success then Some (True, st') else f S' u' m' r st'))) = Some res"
      and same: "S' = S" "u' = u" "m' = m" and Q: "Q st"
    show "Q (snd res)"
      using eq Q unfolding same Let_def
      by (auto split: if_splits option.splits prod.splits dest!: IH [rule_format] intro: none attempt)
  qed
  with \<open>Q st\<close> show ?thesis by simp
qed

lemma OfflineMessage_insert_invariant:
  assumes "OfflineMessage_insert S u m st = Some (b, st')" and "Q st"
    and "\<And>st p. Q st \<Longrightarrow> getConnection (pool (ms st)) = (None, p) \<Longrightarrow> Q (st\<lparr>ms := (ms st)\<lparr>pool := p\<rparr>\<rparr>)"
    and "\<And>st c p ok q d. Q st \<Longrightarrow> getConnection (pool (ms st)) = (Some c, p) \<Longrightarrow>
      tryInsert S c u m (failedQueue st) (db (ms st)) = (ok, q, d) \<Longrightarrow>
      Q (st\<lparr>ms := (ms st)\<lparr>pool := snd (releaseConnection (Some c) p), db := d\<rparr>, failedQueue := q\<rparr>)"
    and "\<And>st q. Q st \<Longrightarrow> Q (st\<lparr>failedQueue := q\<rparr>)"
  shows "Q st'"
proof -
  obtain ok st1 where l: "insert_loop S u m 0 st = Some (ok, st1)"
    using assms(1) by (auto simp: OfflineMessage_insert_def split: option.splits)
  with assms(1) have st': "st' = st1 \<or> st' = st1\<lparr>failedQueue := failedQueue st1 @ [(u, m)]\<rparr>"
    by (auto simp: OfflineMessage_insert_def split: bool.splits)
  have "Q st1" using insert_loop_invariant [of S u m 0 st ok st1 Q] l assms(2-4) by blast
  with st' assms(5) show ?thesis by auto
qed

lemma model_op_subset: "model_op S f \<Longrightarrow> mset (connections (pool (f m))) \<subseteq># mset (connections (pool m))"
  by (erule model_op.cases)
    (simp_all add: UserModel_insert_def UserModel_query_def FriendModel_insert_def FriendModel_query_def
      GroupModel_createGroup_def GroupModel_joinGroup_def GroupModel_queryGroups_def
      GroupModel_queryGroupUsers_def sql_call_subset)

lemma sql_call_db:
  assumes "\<And>c d. P d \<Longrightarrow> P (snd (body c d))" and "P (db m)"
  shows "P (db (snd (sql_call a b r body m)))"
proof -
  have "P d'" if "P d" "body c d = (x, d')" for c d x d' using assms(1) [OF that(1), of c] that(2) by simp
  with assms(2) show ?thesis
    by (cases rule: sql_call_cases [of m a b r body]) auto
qed

lemma query_with_db: "(\<And>c s d. P d \<Longrightarrow> P (snd (S c s d))) \<Longrightarrow> P d \<Longrightarrow> P (snd (query_with S s read c d))"
  by (auto simp: query_with_def split: prod.splits sum.splits) (metis snd_conv)+

lemma queryGroups_members_db:
  "(\<And>c s d. P d \<Longrightarrow> P (snd (S c s d))) \<Longrightarrow> P d \<Longrightarrow> P (snd (queryGroups_members S c gs d))"
proof (induction S c gs d rule: queryGroups_members.induct)
  case (1 S c d)
  then show ?case by simp
next
  case (2 S c it gs d)
  have "P (snd (query_with S (SelectGroupMembers (group_id it)) (mapR read_member) c d))"
    using "2.prems" by (rule query_with_db)
  with "2.IH" "2.prems"(1) show ?case by (auto split: prod.splits sum.splits)
qed

lemma model_op_db:
  assumes S: "\<And>c s d. P d \<Longrightarrow> P (snd (S c s d))" and "model_op S f" and m: "P (db m)"
  shows "P (db (f m))"
proof -
  note q = query_with_db [where P = P and S = S]
  have s: "P d'" if "P d" "S c s d = (x, d')" for c s d x d' using S [OF that(1), of c s] that(2) by simp
  have g: "P d'" if "P d" "query_with S t (mapR read_group) c d = (x, d')" for t c d x d'
    using q [of d t "mapR read_group" c] S that by simp
  have mm: "P d'" if "P d" "queryGroups_members S c gs d = (x, d')" for c gs d x d'
    using queryGroups_members_db [of P S d c gs] S that by simp
  from assms(2) show ?thesis
  proof cases
    case (create_group g)
    show ?thesis unfolding create_group GroupModel_createGroup_def
      by (rule sql_call_db [where P = P, OF _ m])
        (auto split: prod.splits sum.splits intro: s q S)
  next
    case (query_groups i)
    show ?thesis unfolding query_groups GroupModel_queryGroups_def
      by (rule sql_call_db [where P = P, OF _ m])
        (auto split: prod.splits sum.splits intro: g mm)
  qed (auto simp: UserModel_insert_def UserModel_query_def FriendModel_insert_def FriendModel_query_def
      GroupModel_joinGroup_def GroupModel_queryGroupUsers_def intro!: sql_call_db [where P = P, OF _ m] q S)
qed

text \<open>The idle connections are always some of the initial ones, each as often as it was there.\<close>

lemma getConnection_subset: "getConnection p = (conn, p') \<Longrightarrow> mset (connections p') \<subseteq># mset (connections p)"
  by (auto simp: getConnection_def split: list.splits)

lemma getConnection_release:
  "getConnection p = (Some c, p') \<Longrightarrow> mset (connections (snd (releaseConnection (Some c) p'))) = mset (connections p)"
  by (auto simp: getConnection_def releaseConnection_def split: list.splits)

interpretation pool_inv: node_invariant E "\<lambda>st. mset (connections (pool (ms st))) \<subseteq># mset cs" "\<lambda>s. True"
  "\<lambda>um. True" "\<lambda>gm. True" for E :: "('db, 'rd) chat_env" and cs
proof unfold_locales
  fix f and st :: "'db offline_state"
  assume "model_op (c_sql E) f" and "mset (connections (pool (ms st))) \<subseteq># mset cs"
  then show "mset (connections (pool (ms (st\<lparr>ms := f (ms st)\<rparr>)))) \<subseteq># mset cs"
    using subset_mset.order_trans [OF model_op_subset [of "c_sql E" f "ms st"]] by simp
next
  fix u msg b and st st' :: "'db offline_state"
  assume i: "OfflineMessage_insert (c_sql E) u msg st = Some (b, st')"
    and st: "mset (connections (pool (ms st))) \<subseteq># mset cs"
  show "mset (connections (pool (ms st'))) \<subseteq># mset cs"
  proof (rule OfflineMessage_insert_invariant [where Q = "\<lambda>st. mset (connections (pool (ms st))) \<subseteq># mset cs", OF i st])
    fix st p
    assume st: "mset (connections (pool (ms st))) \<subseteq># mset cs" and g: "getConnection (pool (ms st)) = (None, p)"
    from subset_mset.order_trans [OF getConnection_subset [OF g] st]
    show "mset (connections (pool (ms (st\<lparr>ms := (ms st)\<lparr>pool := p\<rparr>\<rparr>)))) \<subseteq># mset cs" by simp
  next
    fix st :: "'db offline_state" and c p ok q d
    assume "mset (connections (pool (ms st))) \<subseteq># mset cs" "getConnection (pool (ms st)) = (Some c, p)"
    then show "mset (connections (pool (ms (st\<lparr>ms := (ms st)\<lparr>pool := snd (releaseConnection (Some c) p), db := d\<rparr>,
        failedQueue := q\<rparr>)))) \<subseteq># mset cs"
      by (simp add: getConnection_release)
  qed simp
qed simp_all

text \<open>A predicate on the database that no statement breaks.\<close>

lemma flushQueue_db: "(\<And>c s d. P d \<Longrightarrow> P (snd (S c s d))) \<Longrightarrow> P d \<Longrightarrow> flushQueue S c q d = (r, q', d') \<Longrightarrow> P d'"
  by (induction S c q d rule: flushQueue.induct) (auto split: prod.splits sum.splits, (metis snd_conv)+)

lemma tryInsert_db:
  assumes S: "\<And>c s d. P d \<Longrightarrow> P (snd (S c s d))" and "P d" and t: "tryInsert S c u m q d = (ok, q', d')"
  shows "P d'"
proof -
  obtain r q1 d1 where f: "flushQueue S c q d = (r, q1, d1)" by (metis surj_pair)
  then have "P d1" using flushQueue_db [of P S d c q r q1 d1] S assms(2) by blast
  moreover have "P (snd (S c (InsertOffline u m) d1))" using S calculation by blast
  ultimately show ?thesis using t f by (auto simp: tryInsert_def split: sum.splits prod.splits)
qed

lemma database_invariant:
  assumes S: "\<And>c s d. P d \<Longrightarrow> P (snd (c_sql E c s d))"
  shows "node_invariant E (\<lambda>st. P (db (ms st))) (\<lambda>s. True) (\<lambda>um. True) (\<lambda>gm. True)"
proof unfold_locales
  fix f st
  assume "model_op (c_sql E) f" "P (db (ms st))"
  then have "P (db (f (ms st)))" by - (rule model_op_db [of P "c_sql E"], rule S)
  then show "P (db (ms (st\<lparr>ms := f (ms st)\<rparr>)))" by simp
next
  fix u msg b st st'
  assume i: "OfflineMessage_insert (c_sql E) u msg st = Some (b, st')" and st: "P (db (ms st))"
  show "P (db (ms st'))"
  proof (rule OfflineMessage_insert_invariant [where Q = "\<lambda>st. P (db (ms st))", OF i st])
    fix st c p ok q d
    assume "P (db (ms st))" "tryInsert (c_sql E) c u msg (failedQueue st) (db (ms st)) = (ok, q, d)"
    then have "P d" by - (rule tryInsert_db [of P "c_sql E"], rule S)
    then show "P (db (ms (st\<lparr>ms := (ms st)\<lparr>pool := snd (releaseConnection (Some c) p), db := d\<rparr>, failedQueue := q\<rparr>)))"
      by simp
  qed simp_all
qed simp_all

end
