(* ===== verification/Subscriptions.thy ===== *)
theory Subscriptions
  imports Chat_Service_Facts
begin

section \<open>Subscriptions of a node\<close>

text \<open>
  The set \<open>sub_group_set_\<close> of \<open>src/server/redisclient.cpp\<close> against the channels the
  subscriber really has, and what becomes of the queued tasks.
\<close>

fun sub_cmd :: "redis_cmd \<Rightarrow> bool" where
  "sub_cmd (SUBSCRIBE ch) = True"
| "sub_cmd (UNSUBSCRIBE ch) = True"
| "sub_cmd _ = False"

lemma redis_sem_channels: "redis_sem c ks = Some (r, ks') \<Longrightarrow> \<not> sub_cmd c \<Longrightarrow> channels ks' = channels ks"
  by (cases c) (auto simp: put_key_def del_key_def split: if_splits)

context redis_server
begin

lemma exec_channels: "\<not> sub_cmd c \<Longrightarrow> channels (view (snd (exec c s))) = channels (view s)"
proof -
  assume k: "\<not> sub_cmd c"
  obtain r s' where e: "exec c s = (r, s')" by fastforce
  show ?thesis
  proof (cases r)
    case (Inl x)
    with e k exec_error [of c s x s'] show ?thesis by (auto dest: redis_sem_channels)
  next
    case (Inr y)
    with e k exec_reply [of c s y s'] show ?thesis by (auto dest: redis_sem_channels)
  qed
qed

lemma redis_call_channels:
  assumes "\<And>d. channels (view (snd (body d))) = channels (view d)"
  shows "channels (view (rd (snd (redis_call R a b body s)))) = channels (view (rd s))"
proof -
  have "channels (view d') = channels (view d)" if "body d = (r, d')" for d r d' using assms [of d] that by simp
  then show ?thesis
    by (auto simp: redis_call_def getConnFromPool_def releaseConnToPool_def
        split: option.splits prod.splits sum.splits)
qed

lemma run_cmds_channels:
  assumes "r_exec R = exec" and "\<forall>c \<in> set cs. \<not> sub_cmd c"
  shows "channels (view (snd (run_cmds R cs d))) = channels (view d)"
  using assms(2)
proof (induction cs arbitrary: d)
  case Nil
  then show ?case by simp
next
  case (Cons c cs)
  obtain r d1 where e: "exec c d = (r, d1)" by fastforce
  have "channels (view d1) = channels (view d)" using exec_channels [of c d] e Cons.prems by simp
  with e assms(1) Cons show ?case by (cases r) simp_all
qed

lemma query_bulk_channels:
  assumes "r_exec R = exec" and "\<not> sub_cmd c"
  shows "channels (view (snd (query_bulk R c f d))) = channels (view d)"
  using exec_channels [OF assms(2), of d]
  by (auto simp: query_bulk_def assms(1) split: prod.splits sum.splits redis_reply.splits)

lemma pop_channels:
  assumes "r_exec R = exec"
  shows "channels (view (rd (snd (popOfflineMessages R i s)))) = channels (view (rd s))"
  unfolding popOfflineMessages_def
proof (rule redis_call_channels)
  fix d
  show "channels (view (snd (case r_exec R (LRANGE_ALL (offline_key i)) d of
              (Inr (RArray messages), d1) \<Rightarrow> (Inr messages, snd (r_exec R (DEL (offline_key i)) d1))
            | (_, d1) \<Rightarrow> (Inl RedisError, d1)))) = channels (view d)"
    using exec_channels [of "LRANGE_ALL (offline_key i)" d] exec_channels [of "DEL (offline_key i)"]
    by (auto simp: assms split: prod.splits sum.splits redis_reply.splits)
qed

text \<open>No operation of the client but the subscriber's own turn changes the subscriptions.\<close>

lemma client_op_channels:
  assumes "r_exec R = exec" and "client_op R f" and "f \<noteq> process_sub_tasks R"
  shows "channels (view (rd (f s))) = channels (view (rd s)) \<and> sub_group_set (f s) = sub_group_set s"
proof -
  have pop: "sub_group_set (snd (popOfflineMessages R i s)) = sub_group_set s" for i by (simp add: popOfflineMessages_def)
  from assms(2,3) show ?thesis
    by (elim client_op.cases frame_op.cases)
      (auto simp: pop pop_channels [OF assms(1)],
       (auto simp: client_ops intro!: redis_call_channels query_bulk_channels [OF assms(1)] run_cmds_channels [OF assms(1)])?)
qed

end

definition subscriptions_agree :: "keyspace \<Rightarrow> int list \<Rightarrow> bool" where
  "subscriptions_agree ks gs \<longleftrightarrow> (\<forall>g. g \<in> set gs \<longleftrightarrow> group_channel g \<in> set (channels ks))"

text \<open>A task queue is worked through in order: the last task of a group decides.\<close>

fun last_task :: "int \<Rightarrow> sub_task list \<Rightarrow> bool option" where
  "last_task g [] = None"
| "last_task g (Subscribe g' # ts) = (case last_task g ts of None \<Rightarrow> (if g' = g then Some True else None) | r \<Rightarrow> r)"
| "last_task g (Unsubscribe g' # ts) = (case last_task g ts of None \<Rightarrow> (if g' = g then Some False else None) | r \<Rightarrow> r)"
| "last_task g (Stop # ts) = None"

context redis_reliable
begin

lemma subscribe_ok:
  obtains d where "exec (SUBSCRIBE ch) s = (Inr RDone, d)"
    and "set (channels (view d)) = insert ch (set (channels (view s)))"
proof -
  obtain ks where k: "redis_sem (SUBSCRIBE ch) (view s) = Some (RDone, ks)"
    "set (channels ks) = insert ch (set (channels (view s)))" by (cases "ch \<in> set (channels (view s))") auto
  from k(1) obtain d where "exec (SUBSCRIBE ch) s = (Inr RDone, d)" "view d = ks" by (rule exec_ok)
  with k(2) that show thesis by blast
qed

lemma unsubscribe_ok:
  obtains d where "exec (UNSUBSCRIBE ch) s = (Inr RDone, d)"
    and "set (channels (view d)) = set (channels (view s)) - {ch}"
proof -
  obtain ks where k: "redis_sem (UNSUBSCRIBE ch) (view s) = Some (RDone, ks)"
    "set (channels ks) = set (channels (view s)) - {ch}" by auto
  from k(1) obtain d where "exec (UNSUBSCRIBE ch) s = (Inr RDone, d)" "view d = ks" by (rule exec_ok)
  with k(2) that show thesis by blast
qed

lemma run_sub_tasks_agree:
  assumes "r_exec R = exec" and "subscriptions_agree (view (rd s)) (sub_group_set s)"
  shows "subscriptions_agree (view (rd (run_sub_tasks R ts s))) (sub_group_set (run_sub_tasks R ts s))"
  using assms
proof (induction R ts s rule: run_sub_tasks.induct)
  case (2 R g ts s)
  obtain d where d: "exec (SUBSCRIBE (group_channel g)) (rd s) = (Inr RDone, d)"
    "set (channels (view d)) = insert (group_channel g) (set (channels (view (rd s))))" by (rule subscribe_ok)
  with 2 show ?case by (simp add: subscriptions_agree_def key_simps)
next
  case (3 R g ts s)
  obtain d where d: "exec (UNSUBSCRIBE (group_channel g)) (rd s) = (Inr RDone, d)"
    "set (channels (view d)) = set (channels (view (rd s))) - {group_channel g}" by (rule unsubscribe_ok)
  with 3 show ?case by (simp add: subscriptions_agree_def key_simps)
qed simp_all

lemma subscriptions_invariant:
  assumes "r_exec (c_redis E) = exec"
  shows "node_invariant E (\<lambda>st. True) (\<lambda>s. subscriptions_agree (view (rd s)) (sub_group_set s)) (\<lambda>um. True) (\<lambda>gm. True)"
proof (rule node_invariantI)
  fix f and s :: "'a redis_state"
  assume f: "client_op (c_redis E) f" and s: "subscriptions_agree (view (rd s)) (sub_group_set s)"
  show "subscriptions_agree (view (rd (f s))) (sub_group_set (f s))"
  proof (cases "f = process_sub_tasks (c_redis E)")
    case True
    with s show ?thesis by (simp add: process_sub_tasks_def run_sub_tasks_agree [OF assms])
  next
    case False
    with s client_op_channels [OF assms f] show ?thesis by (simp add: subscriptions_agree_def)
  qed
qed simp_all

lemma run_sub_tasks_set:
  assumes "r_exec R = exec"
  shows "g \<in> set (sub_group_set (run_sub_tasks R ts s)) \<longleftrightarrow>
    (case last_task g ts of None \<Rightarrow> g \<in> set (sub_group_set s) | Some b \<Rightarrow> b)"
  using assms
proof (induction R ts s rule: run_sub_tasks.induct)
  case (2 R g' ts s)
  obtain d where d: "exec (SUBSCRIBE (group_channel g')) (rd s) = (Inr RDone, d)" by (rule subscribe_ok)
  with 2 show ?case by (auto split: option.splits)
next
  case (3 R g' ts s)
  obtain d where d: "exec (UNSUBSCRIBE (group_channel g')) (rd s) = (Inr RDone, d)" by (rule unsubscribe_ok)
  with 3 show ?case by (auto split: option.splits)
qed simp_all

end

end
