(* ===== verification/Presence.thy ===== *)
theory Presence
  imports Chat_Service_Facts
begin

section \<open>Presence and the offline list through the handlers\<close>

text \<open>
  What the handlers of \<open>src/server/chatservice.cpp\<close> leave in the Redis keys
  \<open>user:<id>\<close> and \<open>offline:<id>\<close>, over any server that behaves as documented.
\<close>

lemma redis_op_rready:
  "rready s \<Longrightarrow> rready (snd (isUserOnline R i s))" "rready s \<Longrightarrow> rready (snd (getUserNode R i s))"
  "rready s \<Longrightarrow> rready (snd (setUserOnline R i c s))" "rready s \<Longrightarrow> rready (snd (popOfflineMessages R i s))"
  by (simp_all add: client_ops redis_call_rready)

lemma subscribe_rready: "rready (fold (\<lambda>g. subscribeGroupChannel (f g)) gs s) \<longleftrightarrow> rready s"
  by (simp add: rready_def)

context redis_server
begin

lemma fold_isUserOnline_view:
  "r_exec R = exec \<Longrightarrow> view (rd (fold (\<lambda>u s. snd (isUserOnline R (f u) s)) us s)) = view (rd s)"
  by (induction us arbitrary: s) (simp_all add: read_ops_view)

text \<open>Building the friend list touches no key but the cache of that list.\<close>

lemma login_friends_keys:
  assumes "r_exec (c_redis E) = exec" and "k \<noteq> friends_key i"
  shows "keys (view (rd (rc (snd (login_friends E i w))))) k = keys (view (rd (rc w))) k"
  by (simp add: login_friends_def on_redis_eq on_mysql_eq split_beta friend_texts_state
      read_ops_view [OF assms(1)] write_ops_keep(4) [OF assms(1,2)] fold_isUserOnline_view [OF assms(1)]
      split: option.splits)

lemma login_success_keys:
  assumes "r_exec (c_redis E) = exec" and "k \<noteq> friends_key i" and "k \<noteq> offline_key i"
  shows "keys (view (rd (rc (login_success E conn i u w)))) k =
    keys (view (rd (snd (setUserOnline (c_redis E) i (c_name E conn) (snd (getUserNode (c_redis E) i (rc w))))))) k"
  by (simp add: login_success_def on_redis_eq split_beta login_groups_state Let_def
      login_friends_keys [OF assms(1,2)] popOfflineMessages_keeps [OF assms(1,3)])

end

context redis_reliable
begin

text \<open>A successful login marks its user online on this node and leaves every other user alone.\<close>

lemma login_success_presence:
  assumes R: "r_exec (c_redis E) = exec" and "rready (rc w)" and "user_hash (view (rd (rc w))) i = Some h"
  shows "\<exists>h'. user_hash (view (rd (rc (login_success E conn i u w)))) i = Some h' \<and>
    map_of h' ''online'' = Some ''1'' \<and> map_of h' ''node'' = Some (localNodeId (rc w)) \<and>
    map_of h' ''conn'' = Some (c_name E conn)"
proof -
  let ?s = "snd (getUserNode (c_redis E) i (rc w))"
  have "rready ?s" using assms(2) by (rule redis_op_rready)
  moreover have "user_hash (view (rd ?s)) i = Some h" using assms(3) by (simp add: read_ops_view [OF R])
  ultimately obtain h' where h': "user_hash (view (rd (snd (setUserOnline (c_redis E) i (c_name E conn) ?s)))) i = Some h'"
    "map_of h' ''online'' = Some ''1''" "map_of h' ''node'' = Some (localNodeId ?s)" "map_of h' ''conn'' = Some (c_name E conn)"
    using setUserOnline_ok [OF R] by metis
  have "user_hash (view (rd (rc (login_success E conn i u w)))) i = Some h'"
    using h'(1) login_success_keys [OF R, of "user_key i" i conn u w] at_keys_cong(1)
    by (metis key_simps user_hash_def key_disjoint(1,2))
  moreover have "localNodeId ?s = localNodeId (rc w)" by (simp add: getUserNode_def)
  ultimately show ?thesis using h' by auto
qed

end

context redis_server
begin

lemma login_success_others:
  assumes "r_exec (c_redis E) = exec" and "j \<noteq> i"
  shows "user_hash (view (rd (rc (login_success E conn i u w)))) j = user_hash (view (rd (rc w))) j"
proof -
  let ?s = "snd (getUserNode (c_redis E) i (rc w))"
  have k: "user_key j \<noteq> user_key i" "user_key j \<noteq> friends_key i" "user_key j \<noteq> offline_key i"
    using assms(2) by (simp_all add: key_inject key_disjoint)
  have "keys (view (rd (rc (login_success E conn i u w)))) (user_key j) = keys (view (rd ?s)) (user_key j)"
    using login_success_keys [OF assms(1) k(2,3), of conn u w] write_ops_keep(1) [OF assms(1) k(1)] by simp
  then have "keys (view (rd (rc (login_success E conn i u w)))) (user_key j) = keys (view (rd (rc w))) (user_key j)"
    by (simp add: read_ops_view [OF assms(1)])
  then show ?thesis unfolding user_hash_def by (rule at_keys_cong)
qed

end

end
