(* ===== verification/Example_Node.thy ===== *)
theory Example_Node
  imports Subscriptions Presence
begin

section \<open>A small installation\<close>

text \<open>
  Concrete instances of the code outside the source: the tables with two users, a friendship and
  a group, the concrete database and Redis server of \<open>Sql_Database\<close> and
  \<open>Redis_Server\<close>, and a printer and a parser for the values used here. The theorems with
  hypotheses about these parameters are applied to this installation.
\<close>

definition ex_cfg :: sql_config where
  "ex_cfg = \<lparr>collation = (\<lambda>s. s), check_enforced = False\<rparr>"

definition ex_tables :: tables where
  "ex_tables = \<lparr>t_User = [(1, ''ann'', ''pa'', ''offline''), (2, ''bob'', ''pb'', ''offline'')],
     t_Friend = [(1, 2)], t_AllGroup = [(5, ''club'', ''all of us'')],
     t_GroupUser = [(5, 1, ''creator''), (5, 2, ''normal'')], t_OfflineMessage = [], last_id = (\<lambda>_. 0)\<rparr>"

definition ex_ks :: keyspace where
  "ex_ks = \<lparr>keys = (\<lambda>_. None), ttl = (\<lambda>_. None), channels = [''node:n1:inbox''], published = []\<rparr>"

text \<open>The printer shows the entry a reader of the reply would look at first.\<close>

definition ex_dump :: "json \<Rightarrow> string" where
  "ex_dump j =
     (case json_get ''errno'' j of
        Some (JInt e) \<Rightarrow> ''errno '' @ to_string e
      | _ \<Rightarrow> (case json_get ''msg'' j of Some (JStr s) \<Rightarrow> s | _ \<Rightarrow> ''value''))"

definition ex_parse :: "string \<Rightarrow> json option" where
  "ex_parse s =
     (if s = ''login'' then
        Some (json_obj [(''msgid'', JInt 1), (''id'', JInt 1), (''password'', JStr ''pa'')])
      else if s = ''hello'' then
        Some (json_obj [(''msgid'', JInt 6), (''id'', JInt 1), (''to'', JInt 2), (''msg'', JStr ''hello'')])
      else if s = ''odd'' then Some (json_obj [(''msgid'', JInt 99)])
      else None)"

definition ex_env :: "(tables, keyspace) chat_env" where
  "ex_env = \<lparr>c_sql = ref_sql ex_cfg, c_redis = \<lparr>r_exec = ref_redis, r_others = (\<lambda>p. p)\<rparr>,
     c_dump = ex_dump, c_parse = ex_parse, c_name = (\<lambda>c. ''conn'' @ nat_digits c)\<rparr>"

definition ex_pool :: "nat option list \<Rightarrow> mysql_pool" where
  "ex_pool cs = \<lparr>mp_url = ''tcp://127.0.0.1'', mp_datebaseName = ''chat'', mp_user = ''root'',
     mp_password = ''pw'', mp_poolSize = 2, mp_driver = True, connections = cs\<rparr>"

definition ex_rpool :: redis_pool where
  "ex_rpool = \<lparr>rp_host = ''127.0.0.1'', rp_port = 6379, rp_stopped = False, rp_password = [], rp_conns = [0, 1]\<rparr>"

definition ex_state :: "nat option list \<Rightarrow> (tables, keyspace) chat_state" where
  "ex_state cs = \<lparr>off = \<lparr>ms = \<lparr>pool = ex_pool cs, db = ex_tables\<rparr>, failedQueue = []\<rparr>,
     rc = \<lparr>rpool = ex_rpool, rd = ex_ks, localNodeId = ''n1'', rc_stopped = False, sub_tasks = [], sub_group_set = []\<rparr>,
     userConnMap = [], groupMembers = [], sent = []\<rparr>"

lemmas ex_defs = ex_cfg_def ex_tables_def ex_ks_def ex_env_def ex_pool_def ex_rpool_def ex_state_def

lemma ex_env_sql: "mysql_reliable ex_cfg (c_sql ex_env) (\<lambda>t. t)"
  using ref_mysql.mysql_reliable_axioms [of ex_cfg] by (simp add: ex_env_def)

lemma ex_env_mysql: "mysql_server ex_cfg (c_sql ex_env) (\<lambda>t. t)"
  using ref_mysql.mysql_server_axioms [of ex_cfg] by (simp add: ex_env_def)

lemma ex_env_redis: "redis_reliable (r_exec (c_redis ex_env)) (\<lambda>ks. ks)"
  using ref_redis.redis_reliable_axioms by (simp add: ex_env_def)

lemma ex_available: "available (ms (off (ex_state [Some 0, Some 1])))"
  by (simp add: ex_defs available_def no_null_def)

lemma ex_tables_wf: "tables_wf ex_cfg (db (ms (off (ex_state cs))))"
  by (simp add: ex_defs tables_wf_def table_defs utf8_length_def)

lemma ex_rready: "rready (rc (ex_state cs))"
  by (simp add: ex_defs rready_def)

lemma ex_user_hash: "user_hash (rd (rc (ex_state cs))) i = Some []"
  by (simp add: ex_defs user_hash_def hash_at_def)

lemma ex_text: "to_string 0 = ''0''" "to_string 1 = ''1''"
  by code_simp+

end
