(* ===== verification/Store_Properties.thy ===== *)
theory Store_Properties
  imports Example_Node
begin

section \<open>Pools, tables and lists\<close>

text \<open>
  Properties of the components below the service: \<open>MySQLConnectionPool\<close>,
  \<open>RedisConnectionPool\<close>, \<open>OfflineMessage\<close> and \<open>RedisClient\<close>.
\<close>

subsection \<open>OfflineMessage\<close>

lemma stored_for: "[m. (u', m) \<leftarrow> msgs @ [(u, t)], u' = u] = [m. (u', m) \<leftarrow> msgs, u' = u] @ [t]"
  by simp

text \<open>
  Storing a message and reading the messages of the same user back, on a working database: the
  insertion reports success and the query gives the messages of the user that were there before and
  the new one, each as often as it was stored.
\<close>

theorem offline_insert_query:
  assumes "mysql_reliable cfg S tv" and "available (ms st)" and "failedQueue st = []"
    and "sql_enabled cfg (InsertOffline u m) (tv (db (ms st)))"
  shows "\<exists>st'. OfflineMessage_insert S u m st = Some (True, st') \<and>
    mset (fst (OfflineMessage_query S u (ms st'))) = add_mset m (mset (fst (OfflineMessage_query S u (ms st))))"
proof -
  obtain st' where st': "OfflineMessage_insert S u m st = Some (True, st')"
    "stored (tv (db (ms st'))) = stored (tv (db (ms st))) @ [(u, m)]" "available (ms st')"
    using mysql_reliable.OfflineMessage_insert_ok [OF assms] by blast
  have "mset (fst (OfflineMessage_query S u (ms st'))) = mset [t. (u', t) \<leftarrow> stored (tv (db (ms st'))), u' = u]"
    by (rule mysql_reliable.OfflineMessage_query_ok [OF assms(1) st'(3)])
  also have "\<dots> = add_mset m (mset [t. (u', t) \<leftarrow> stored (tv (db (ms st))), u' = u])"
    by (simp add: st'(2))
  also have "mset [t. (u', t) \<leftarrow> stored (tv (db (ms st))), u' = u] = mset (fst (OfflineMessage_query S u (ms st)))"
    by (rule mysql_reliable.OfflineMessage_query_ok [OF assms(1,2), symmetric])
  finally show ?thesis using st'(1) by blast
qed

theorem offline_insert_query_witness:
  "\<exists>st'. OfflineMessage_insert (c_sql ex_env) 2 ''hi'' (off (ex_state [Some 0, Some 1])) = Some (True, st') \<and>
     mset (fst (OfflineMessage_query (c_sql ex_env) 2 (ms st'))) = {#''hi''#}"
proof -
  let ?o = "off (ex_state [Some 0, Some 1])"
  have "failedQueue ?o = []" "sql_enabled ex_cfg (InsertOffline 2 ''hi'') (db (ms ?o))"
    by (simp_all add: ex_defs row_ok_defs table_defs keys_left_def utf8_length_def)
  moreover have "fst (OfflineMessage_query (c_sql ex_env) 2 (ms ?o)) = []"
    by (simp add: OfflineMessage_query_def sql_call_conn query_with_def ex_defs ref_sql_def offline_rows_def)
  ultimately show ?thesis using offline_insert_query [OF ex_env_sql ex_available, of 2 "''hi''"] by simp
qed

context mysql_server
begin

lemma insert_loop_success:
  assumes ret: "insert_loop exec u m r st = Some (True, st')"
  shows "failedQueue st' = []"
proof -
  let ?P = "\<lambda>S u m r st res. S = exec \<longrightarrow> fst res \<longrightarrow> failedQueue (snd res) = []"
  have "?P exec u m r st (True, st')"
  proof (rule insert_loop.raw_induct [where P = ?P, OF _ ret])
    fix f :: "'db sql_exec \<Rightarrow> int \<Rightarrow> string \<Rightarrow> nat \<Rightarrow> 'db offline_state \<Rightarrow> (bool \<times> 'db offline_state) option"
      and S u m r st res
    assume IH: "\<And>S u m r st res. f S u m r st = Some res \<Longrightarrow> ?P S u m r st res"
      and eq: "(if \<not> r < maxRetries then Some (False, st)
        else case getConnection (pool (ms st)) of
          (None, p) \<Rightarrow> f S u m (r + 1) (st\<lparr>ms := (ms st)\<lparr>pool := p\<rparr>\<rparr>)
        | (Some c, p) \<Rightarrow>
            (case tryInsert S c u m (failedQueue st) (db (ms st)) of
               (success, q, d) \<Rightarrow>
                 (let st' = st\<lparr>ms := (ms st)\<lparr>pool := snd (releaseConnection (Some c) p), db := d\<rparr>,
                                failedQueue := q\<rparr>
                  in if success then Some (True, st') else f S u m r st'))) = Some res"
    show "?P S u m r st res"
      using eq by (auto simp: Let_def split: if_splits option.splits prod.splits dest!: IH tryInsert_effect)
  qed
  then show ?thesis by simp
qed

end

text \<open>
  When \<open>OfflineMessage::insert\<close> reports success, whatever failed on the way, the queue of
  messages that could not be stored is empty and the table has gained exactly the queued messages, in
  their order, and then the new one; when it reports failure, the message is the last one queued.
\<close>

theorem offline_insert_flushes:
  assumes "mysql_server cfg S tv" and "OfflineMessage_insert S u m st = Some (ok, st')"
  shows "if ok then failedQueue st' = [] \<and>
           stored (tv (db (ms st'))) = stored (tv (db (ms st))) @ failedQueue st @ [(u, m)]
         else (\<exists>q. failedQueue st' = q @ [(u, m)] \<and>
           stored (tv (db (ms st'))) @ q = stored (tv (db (ms st))) @ failedQueue st)"
proof -
  obtain b st1 where l: "insert_loop S u m 0 st = Some (b, st1)"
    using assms(2) by (auto simp: OfflineMessage_insert_def split: option.splits)
  note le = mysql_server.insert_loop_effect [OF assms(1) l]
  show ?thesis
  proof (cases b)
    case True
    with l assms(2) have "ok" "st' = st1" by (auto simp: OfflineMessage_insert_def)
    with le True mysql_server.insert_loop_success [OF assms(1)] l show ?thesis by auto
  next
    case False
    with l assms(2) have "\<not> ok" "st' = st1\<lparr>failedQueue := failedQueue st1 @ [(u, m)]\<rparr>"
      by (auto simp: OfflineMessage_insert_def)
    with le False show ?thesis by simp
  qed
qed

theorem offline_insert_flushes_witness:
  "failedQueue (snd (the (OfflineMessage_insert (c_sql ex_env) 2 ''hi'' (off (ex_state []))))) = [(2, ''hi'')]"
proof -
  let ?o = "off (ex_state [])"
  have "connections (pool (ms ?o)) = []" "failedQueue ?o = []" "stored (db (ms ?o)) = []"
    by (simp_all add: ex_defs stored_def)
  then have r: "OfflineMessage_insert (c_sql ex_env) 2 ''hi'' ?o = Some (False, ?o\<lparr>failedQueue := [(2, ''hi'')]\<rparr>)"
    by (simp add: OfflineMessage_insert_def insert_loop_empty_pool)
  from offline_insert_flushes [OF ex_env_mysql r] r show ?thesis by simp
qed

text \<open>
  With an empty pool \<open>OfflineMessage::insert\<close> gives up after its three attempts: it returns
  failure, has changed neither the pool nor the database, and the message is queued.
\<close>

theorem offline_insert_empty_pool:
  assumes "connections (pool (ms st)) = []"
  shows "OfflineMessage_insert S u m st = Some (False, st\<lparr>failedQueue := failedQueue st @ [(u, m)]\<rparr>)"
  using assms by (simp add: OfflineMessage_insert_def insert_loop_empty_pool)

theorem offline_insert_empty_pool_witness:
  "OfflineMessage_insert (c_sql ex_env) 2 ''hi'' (off (ex_state [])) =
     Some (False, (off (ex_state []))\<lparr>failedQueue := failedQueue (off (ex_state [])) @ [(2, ''hi'')]\<rparr>)"
  by (rule offline_insert_empty_pool) (simp add: ex_defs)

subsection \<open>The MySQL pool\<close>

text \<open>
  Threads that take and return connections concurrently: in every reachable state of the pool the
  connections of the initial pool are each idle exactly once or held by exactly one thread, never
  both.
\<close>

theorem pool_exclusive:
  assumes "pool_reach cs s" and "distinct cs"
  shows "distinct (queue s) \<and> (\<forall>t t' c. pcs s t = Holding c \<longrightarrow> pcs s t' = Holding c \<longrightarrow> t = t') \<and>
    (\<forall>c \<in> set cs. c \<in> set (queue s) \<longleftrightarrow> (\<forall>t. pcs s t \<noteq> Holding c))"
  using pool_reach_inv [OF assms] unfolding pool_sys_inv_def by blast

theorem pool_exclusive_witness: "distinct (queue (pool_init [0, 1]))"
  using pool_exclusive [OF pool_reach.start, of "[0, 1]"] by simp

definition waiting :: "nat list \<Rightarrow> nat \<Rightarrow> nat \<Rightarrow> pool_sys" where
  "waiting cs n k = \<lparr>queue = drop k cs,
     pcs = (\<lambda>t. if t < k then Holding (cs ! t) else if t < n then SawNonEmpty else Outside),
     undefined_behaviour = False, answers = map (\<lambda>t. (t, Some (cs ! t))) [0..<k]\<rparr>"

lemma waiting_reach_looked: "cs \<noteq> [] \<Longrightarrow> pool_reach cs (waiting cs n 0)"
proof (induction n)
  case 0
  have "waiting cs 0 0 = pool_init cs" by (simp add: waiting_def pool_init_def)
  then show ?case using pool_reach.start [of cs] by simp
next
  case (Suc n)
  have "waiting cs (Suc n) 0 = (waiting cs n 0)\<lparr>pcs := (pcs (waiting cs n 0))(n := SawNonEmpty)\<rparr>"
    by (auto simp: waiting_def fun_eq_iff)
  moreover have "pool_step (waiting cs n 0) ((waiting cs n 0)\<lparr>pcs := (pcs (waiting cs n 0))(n := SawNonEmpty)\<rparr>)"
    by (rule pool_step.size_positive) (use Suc.prems in \<open>simp_all add: waiting_def\<close>)
  ultimately show ?case using pool_reach.step [OF Suc.IH [OF Suc.prems]] by simp
qed

lemma waiting_reach: "cs \<noteq> [] \<Longrightarrow> k \<le> length cs \<Longrightarrow> length cs < n \<Longrightarrow> pool_reach cs (waiting cs n k)"
proof (induction k)
  case 0
  then show ?case by (simp add: waiting_reach_looked)
next
  case (Suc k)
  then have k: "k < length cs" by simp
  let ?s = "waiting cs n k"
  have "waiting cs n (Suc k) = ?s\<lparr>queue := drop (Suc k) cs, pcs := (pcs ?s)(k := Holding (cs ! k)), answers := answers ?s @ [(k, Some (cs ! k))]\<rparr>"
    by (auto simp: waiting_def fun_eq_iff less_Suc_eq)
  moreover have "pool_step ?s (?s\<lparr>queue := drop (Suc k) cs, pcs := (pcs ?s)(k := Holding (cs ! k)), answers := answers ?s @ [(k, Some (cs ! k))]\<rparr>)"
    by (rule pool_step.pop) (use k Suc.prems in \<open>simp_all add: waiting_def Cons_nth_drop_Suc\<close>)
  ultimately show ?case using pool_reach.step [OF Suc.IH] Suc.prems by simp
qed

text \<open>
  C25. \<open>getConnection\<close> looks at the size of the deque before it takes the mutex: for a pool of any
  size there is an interleaving of one thread more than there are connections that calls
  \<open>front\<close> and \<open>pop_front\<close> on an empty deque.
\<close>

theorem pool_race_undefined:
  assumes "cs \<noteq> []"
  shows "\<exists>s. pool_reach cs s \<and> undefined_behaviour s"
proof -
  let ?s = "waiting cs (Suc (length cs)) (length cs)"
  have "pool_reach cs ?s" using assms by (rule waiting_reach) simp_all
  moreover have "pool_step ?s (?s\<lparr>undefined_behaviour := True\<rparr>)"
    by (rule pool_step.pop_empty [of _ "length cs"]) (simp_all add: waiting_def)
  ultimately have "pool_reach cs (?s\<lparr>undefined_behaviour := True\<rparr>)" by (rule pool_reach.step)
  then show ?thesis by (intro exI [of _ "?s\<lparr>undefined_behaviour := True\<rparr>"]) simp
qed

theorem pool_race_undefined_witness: "\<exists>s. pool_reach [0, 1] s \<and> undefined_behaviour s"
  by (rule pool_race_undefined) simp

text \<open>
  \<open>initPool\<close> on a fresh pool: if it returns, the pool holds exactly as many connections as
  were asked for and no null pointer; if an exception leaves it, the pool holds fewer.
\<close>

theorem initPool_size:
  assumes "connections p = []" and "initPool D url name usr pw n p d = (r, p', d')"
  shows "(r = Ret () \<longrightarrow> no_null p' \<and> length (connections p') = nat n) \<and>
    (r \<noteq> Ret () \<longrightarrow> length (connections p') < nat n)"
proof -
  define p1 where "p1 = p\<lparr>mp_url := url, mp_datebaseName := name, mp_user := usr, mp_password := pw, mp_poolSize := n\<rparr>"
  define p2 where "p2 = (if drv_instance D then p1\<lparr>mp_driver := True\<rparr> else p1)"
  have p2: "connections p2 = []" "initConnection_loop D (nat n) p2 d = (r, p', d')"
    using assms by (auto simp: p1_def p2_def initPool_def initConnection_def Let_def)
  then have "no_null p2" by (simp add: no_null_def)
  with p2 initConnection_loop_Ret [of D "nat n" p2 d p' d'] initConnection_loop_failure [OF p2(2)] show ?thesis
    by auto
qed

definition ex_driver :: "nat sql_driver" where
  "ex_driver = \<lparr>drv_instance = True, drv_connect = (\<lambda>_ _ _ d. (Inr (Some d), Suc d)),
     drv_setSchema = (\<lambda>_ _ d. (Inr (), d)), drv_close = (\<lambda>_ d. (Inr (), d))\<rparr>"

theorem initPool_size_witness:
  "length (connections (fst (snd (initPool ex_driver ''u'' ''chat'' ''root'' ''pw'' 2 (ex_pool []) 0)))) = 2"
proof -
  obtain p' d' where r: "initPool ex_driver ''u'' ''chat'' ''root'' ''pw'' 2 (ex_pool []) 0 = (Ret (), p', d')"
    by (simp add: initPool_def initConnection_def createConnection_def ex_driver_def ex_pool_def numeral_2_eq_2)
  have "connections (ex_pool []) = []" by (simp add: ex_pool_def)
  from initPool_size [OF this r] r show ?thesis by simp
qed

text \<open>
  A data operation whose statement raises keeps the connection it took: after
  \<open>UserModel::query\<close> on a server that refuses the statement the pool has lost its first
  connection, and the answer is the default user.
\<close>

theorem raised_statement_loses_connection:
  assumes "available m" and "\<And>c d. \<exists>e d'. S c (SelectUser i) d = (Inl e, d')"
  shows "fst (UserModel_query S i m) = User_default \<and>
    connections (pool (snd (UserModel_query S i m))) = tl (connections (pool m))"
proof -
  have "\<exists>e d'. query_with S (SelectUser i) read_user c d = (Inl e, d')" for c d
    using assms(2) [of c d] by (auto simp: query_with_def)
  from sql_call_raising [OF assms(1) this] show ?thesis by (simp add: UserModel_query_def)
qed

theorem raised_statement_loses_connection_witness:
  "connections (pool (snd (UserModel_query (\<lambda>c s d. (Inl SQLException, d)) 1 (ms (off (ex_state [Some 0, Some 1])))))) = [Some 1]"
  using raised_statement_loses_connection [OF ex_available, of "\<lambda>c s d. (Inl SQLException, d)" 1]
  by (simp add: ex_defs)

subsection \<open>Redis\<close>

lemma run_sub_tasks_pool: "rpool (run_sub_tasks R ts s) = rpool s"
  by (induction R ts s rule: run_sub_tasks.induct) (auto split: prod.splits sum.splits)

lemma rready_tasks [simp]:
  "rready (subscribeGroupChannel g s) \<longleftrightarrow> rready s" "rready (unsubscribeGroupChannel g s) \<longleftrightarrow> rready s"
  by (simp_all add: rready_def)

text \<open>
  Every operation of the Redis client returns the handle it took, also when a command raises:
  while the pool is open and has a handle, it has the same handles after the operation as before.
\<close>

theorem redis_operations_return_handles:
  assumes "client_op R f" and "rready s"
  shows "mset (rp_conns (rpool (f s))) = mset (rp_conns (rpool s)) \<and> rready (f s)"
  using assms
  by (elim client_op.cases frame_op.cases)
    (simp_all add: client_ops redis_call_conserves redis_call_rready,
     simp add: process_sub_tasks_def run_sub_tasks_pool rready_def)

theorem redis_operations_return_handles_witness:
  "mset (rp_conns (rpool (snd (isUserOnline (c_redis ex_env) 1 (rc (ex_state [])))))) = {#0, 1#}"
  using redis_operations_return_handles [OF client_op.frame [OF frame_op.is_online] ex_rready, of "c_redis ex_env" 1 "[]"]
  by (simp add: ex_defs)

lemma fold_release: "fold (\<lambda>c. release (Some c)) cs p = p\<lparr>rp_conns := rp_conns p @ cs\<rparr>"
  by (induction cs arbitrary: p) (simp_all add: release_def)

text \<open>
  The Redis pool after \<open>stop\<close>: no call of \<open>acquire\<close> waits or gets a handle any more,
  whatever is returned to the pool and whatever its timeout and the other threads do.
\<close>

theorem stopped_pool_gives_nothing:
  "acquire others t (fold (\<lambda>c. release (Some c)) cs (stop p)) =
     Some (None, fold (\<lambda>c. release (Some c)) cs (stop p))"
  by (simp add: fold_release acquire_def stop_def)

context redis_reliable
begin

lemma fold_push:
  assumes R: "r_exec R = exec"
  shows "rready s \<Longrightarrow> list_at (view (rd s)) (offline_key u) = Some l \<Longrightarrow>
    rready (fold (\<lambda>m s. snd (pushOfflineMessage R u m s)) msgs s) \<and>
    list_at (view (rd (fold (\<lambda>m s. snd (pushOfflineMessage R u m s)) msgs s))) (offline_key u) = Some (rev msgs @ l)"
proof (induction msgs arbitrary: s l)
  case Nil
  then show ?case by simp
next
  case (Cons m msgs)
  have "rready (snd (pushOfflineMessage R u m s))" using Cons.prems(1) by (simp add: pushOfflineMessage_def redis_call_rready)
  moreover have "list_at (view (rd (snd (pushOfflineMessage R u m s)))) (offline_key u) = Some (m # l)"
    by (rule pushOfflineMessage_ok [OF R Cons.prems])
  ultimately show ?case using Cons.IH [of "snd (pushOfflineMessage R u m s)" "m # l"] by simp
qed

end

text \<open>
  Messages pushed to a user's Redis list and popped again, on a working server: none is lost or
  doubled and the list is empty afterwards, but they come back newest first.
\<close>

theorem push_pop_reverses:
  assumes "redis_reliable (r_exec R) rv" and "rready s" and "list_at (rv (rd s)) (offline_key u) = Some []"
  shows "\<exists>s'. popOfflineMessages R u (fold (\<lambda>m s. snd (pushOfflineMessage R u m s)) msgs s) = (rev msgs, s') \<and>
    list_at (rv (rd s')) (offline_key u) = Some []"
proof -
  let ?s = "fold (\<lambda>m s. snd (pushOfflineMessage R u m s)) msgs s"
  have "rready ?s" "list_at (rv (rd ?s)) (offline_key u) = Some (rev msgs)"
    using redis_reliable.fold_push [OF assms(1) refl assms(2,3), of msgs] by simp_all
  from redis_reliable.popOfflineMessages_ok [OF assms(1) refl this] show ?thesis
    by (metis prod.collapse)
qed

theorem push_pop_reverses_witness:
  "\<exists>s'. popOfflineMessages (c_redis ex_env) 2
     (fold (\<lambda>m s. snd (pushOfflineMessage (c_redis ex_env) 2 m s)) [''a'', ''b''] (rc (ex_state []))) = ([''b'', ''a''], s')"
proof -
  have "list_at (rd (rc (ex_state []))) (offline_key 2) = Some []" by (simp add: ex_defs list_at_def)
  from push_pop_reverses [OF ex_env_redis ex_rready this, of "[''a'', ''b'']"] show ?thesis by auto
qed

end
