(* ===== verification/Json_Text.thy ===== *)
theory Json_Text
  imports Json_Value
begin

section \<open>Printing and parsing JSON texts (thirdparty/json.hpp)\<close>

text \<open>
  \<open>dump\<close> and \<open>parse\<close> as the server and the client call them: no indentation,
  \<open>ensure_ascii\<close> off, the strict error handler, no parser callback, strict end of input. A
  character is a byte. The serializer checks strings with the UTF-8 automaton \<open>decode\<close> and
  throws \<open>type_error 316\<close> when a string is not UTF-8; the lexer checks the bytes of a string
  literal by ranges. The parser is the stack machine of \<open>sax_parse_internal\<close> together with
  the value builder \<open>json_sax_dom_parser\<close>; its answer is \<open>None\<close> when it throws. The
  lexer does not depend on the parser, so the tokens it would deliver are a list. The conversions
  between binary64 values and decimal texts (\<open>to_chars\<close> and \<open>strtod\<close>) are parameters.
\<close>

abbreviation byte :: "char \<Rightarrow> nat" where
  "byte c \<equiv> of_char c"

record fp_env =
  fp_to_chars :: "int \<Rightarrow> int \<Rightarrow> string"
  fp_strtod :: "string \<Rightarrow> (int \<times> int) option"

subsection \<open>The serializer\<close>

text \<open>The table of \<open>decode\<close>: the class of a byte, and the transitions, 16 per state.\<close>

definition utf8d_type :: "nat list" where
  "utf8d_type =
     replicate 128 0 @ replicate 16 1 @ replicate 16 9 @ replicate 32 7 @ [8, 8] @ replicate 30 2 @
     [10] @ replicate 12 3 @ [4, 3, 3] @ [11, 6, 6, 6, 5] @ replicate 11 8"

definition utf8d_state :: "nat list" where
  "utf8d_state =
     [0, 1, 2, 3, 5, 8, 7, 1, 1, 1, 4, 6, 1, 1, 1, 1,
      1, 1, 1, 1, 1, 1, 1, 1, 1, 1, 1, 1, 1, 1, 1, 1, 1, 0, 1, 1, 1, 1, 1, 0, 1, 0, 1, 1, 1, 1, 1, 1,
      1, 2, 1, 1, 1, 1, 1, 2, 1, 2, 1, 1, 1, 1, 1, 1, 1, 1, 1, 1, 1, 1, 1, 2, 1, 1, 1, 1, 1, 1, 1, 1,
      1, 2, 1, 1, 1, 1, 1, 1, 1, 2, 1, 1, 1, 1, 1, 1, 1, 1, 1, 1, 1, 1, 1, 3, 1, 3, 1, 1, 1, 1, 1, 1,
      1, 3, 1, 1, 1, 1, 1, 3, 1, 3, 1, 1, 1, 1, 1, 1, 1, 3, 1, 1, 1, 1, 1, 1, 1, 1, 1, 1, 1, 1, 1, 1]"

text \<open>
  The code point: \<open>(byte & 0x3f) | (codep << 6)\<close> inside a sequence, \<open>(0xFF >> type) & byte\<close>
  at its start; both are written arithmetically.
\<close>

definition decode :: "nat \<Rightarrow> nat \<Rightarrow> nat \<Rightarrow> nat \<times> nat" where
  "decode state codep b =
     (let type = utf8d_type ! b
      in (utf8d_state ! (state * 16 + type),
          if state \<noteq> 0 then b mod 64 + codep * 64 else b mod 2 ^ (8 - type)))"

definition hex_char :: "nat \<Rightarrow> char" where
  "hex_char d = char_of (if d < 10 then 48 + d else 87 + d)"

definition u_escape :: "nat \<Rightarrow> string" where
  "u_escape cp = [CHR 0x5C, CHR ''u'', hex_char (cp div 4096 mod 16), hex_char (cp div 256 mod 16),
                  hex_char (cp div 16 mod 16), hex_char (cp mod 16)]"

definition escape :: "nat \<Rightarrow> char \<Rightarrow> string" where
  "escape cp c =
     (if cp = 0x08 then [CHR 0x5C, CHR ''b'']
      else if cp = 0x09 then [CHR 0x5C, CHR ''t'']
      else if cp = 0x0A then [CHR 0x5C, CHR ''n'']
      else if cp = 0x0C then [CHR 0x5C, CHR ''f'']
      else if cp = 0x0D then [CHR 0x5C, CHR ''r'']
      else if cp = 0x22 then [CHR 0x5C, CHR 0x22]
      else if cp = 0x5C then [CHR 0x5C, CHR 0x5C]
      else if cp \<le> 0x1F then u_escape cp
      else [c])"

fun dump_escaped_from :: "nat \<Rightarrow> nat \<Rightarrow> string \<Rightarrow> cpp_exn + string" where
  "dump_escaped_from state codep [] = (if state = 0 then Inr [] else Inl (type_error 316))"
| "dump_escaped_from state codep (c # s) =
     (case decode state codep (byte c) of
        (state', codep') \<Rightarrow>
          if state' = 1 then Inl (type_error 316)
          else bindR (dump_escaped_from state' codep' s) (\<lambda>t.
                 Inr ((if state' = 0 then escape codep' c else [c]) @ t)))"

definition dump_escaped :: "string \<Rightarrow> cpp_exn + string" where
  "dump_escaped s = dump_escaped_from 0 0 s"

definition dump_string :: "string \<Rightarrow> cpp_exn + string" where
  "dump_string s = bindR (dump_escaped s) (\<lambda>t. Inr (CHR 0x22 # t @ [CHR 0x22]))"

fun json_dump :: "fp_env \<Rightarrow> json \<Rightarrow> cpp_exn + string"
  and dump_elements :: "fp_env \<Rightarrow> json list \<Rightarrow> cpp_exn + string"
  and dump_members :: "fp_env \<Rightarrow> (string \<times> json) list \<Rightarrow> cpp_exn + string" where
  "json_dump F (JObj kvs) =
     (if kvs = [] then Inr ''{}''
      else bindR (dump_members F kvs) (\<lambda>t. Inr (CHR 0x7B # t @ [CHR 0x7D])))"
| "json_dump F (JArr js) =
     (if js = [] then Inr ''[]''
      else bindR (dump_elements F js) (\<lambda>t. Inr (CHR 0x5B # t @ [CHR 0x5D])))"
| "json_dump F (JStr s) = dump_string s"
| "json_dump F (JBool b) = Inr (if b then ''true'' else ''false'')"
| "json_dump F (JInt i) = Inr (to_string i)"
| "json_dump F (JUint n) = Inr (nat_digits n)"
| "json_dump F (JFloat m e) = Inr (fp_to_chars F m e)"
| "json_dump F JNull = Inr ''null''"
| "dump_elements F [] = Inr []"
| "dump_elements F [j] = json_dump F j"
| "dump_elements F (j # k # js) =
     bindR (json_dump F j) (\<lambda>t. bindR (dump_elements F (k # js)) (\<lambda>u. Inr (t @ CHR 0x2C # u)))"
| "dump_members F [] = Inr []"
| "dump_members F [(k, j)] =
     bindR (dump_string k) (\<lambda>s. bindR (json_dump F j) (\<lambda>t. Inr (s @ CHR 0x3A # t)))"
| "dump_members F ((k, j) # e # kvs) =
     bindR (dump_string k) (\<lambda>s. bindR (json_dump F j) (\<lambda>t.
       bindR (dump_members F (e # kvs)) (\<lambda>u. Inr (s @ CHR 0x3A # t @ CHR 0x2C # u))))"

subsection \<open>The lexer: string literals\<close>

definition hex_value :: "char \<Rightarrow> nat option" where
  "hex_value c =
     (if 0x30 \<le> byte c \<and> byte c \<le> 0x39 then Some (byte c - 0x30)
      else if 0x41 \<le> byte c \<and> byte c \<le> 0x46 then Some (byte c - 0x37)
      else if 0x61 \<le> byte c \<and> byte c \<le> 0x66 then Some (byte c - 0x57)
      else None)"

fun get_codepoint :: "string \<Rightarrow> (nat \<times> string) option" where
  "get_codepoint (a # b # c # d # s) =
     (case (hex_value a, hex_value b, hex_value c, hex_value d) of
        (Some x, Some y, Some z, Some w) \<Rightarrow> Some (x * 4096 + y * 256 + z * 16 + w, s)
      | _ \<Rightarrow> None)"
| "get_codepoint _ = None"

fun next_byte_in_range :: "(nat \<times> nat) list \<Rightarrow> string \<Rightarrow> (string \<times> string) option" where
  "next_byte_in_range [] s = Some ([], s)"
| "next_byte_in_range (r # rs) [] = None"
| "next_byte_in_range ((lo, hi) # rs) (c # s) =
     (if lo \<le> byte c \<and> byte c \<le> hi
      then map_option (\<lambda>(bs, s'). (c # bs, s')) (next_byte_in_range rs s)
      else None)"

text \<open>The bytes of a code point read from an escape.\<close>

definition codepoint_bytes :: "nat \<Rightarrow> string" where
  "codepoint_bytes cp =
     map char_of
       (if cp < 0x80 then [cp]
        else if cp \<le> 0x7FF then [0xC0 + cp div 64, 0x80 + cp mod 64]
        else if cp \<le> 0xFFFF then [0xE0 + cp div 4096, 0x80 + cp div 64 mod 64, 0x80 + cp mod 64]
        else [0xF0 + cp div 262144, 0x80 + cp div 4096 mod 64, 0x80 + cp div 64 mod 64, 0x80 + cp mod 64])"

text \<open>What one turn of the loop of \<open>scan_string\<close> does: the literal is closed, bytes are
  added, or the literal is rejected; the rest of the input goes with it.\<close>

datatype scan_item = Closed string | Added string string | Rejected

definition scan_unicode :: "string \<Rightarrow> scan_item" where
  "scan_unicode s =
     (case get_codepoint s of
        None \<Rightarrow> Rejected
      | Some (cp1, s1) \<Rightarrow>
          if 0xD800 \<le> cp1 \<and> cp1 \<le> 0xDBFF then
            (case s1 of
               x # y # s2 \<Rightarrow>
                 if x = CHR 0x5C \<and> y = CHR ''u'' then
                   (case get_codepoint s2 of
                      None \<Rightarrow> Rejected
                    | Some (cp2, s3) \<Rightarrow>
                        if 0xDC00 \<le> cp2 \<and> cp2 \<le> 0xDFFF
                        then Added (codepoint_bytes (cp1 * 1024 + cp2 - 0x35FDC00)) s3
                        else Rejected)
                 else Rejected
             | _ \<Rightarrow> Rejected)
          else if 0xDC00 \<le> cp1 \<and> cp1 \<le> 0xDFFF then Rejected
          else Added (codepoint_bytes cp1) s1)"

fun scan_escape :: "string \<Rightarrow> scan_item" where
  "scan_escape [] = Rejected"
| "scan_escape (c # s) =
     (if c = CHR 0x22 then Added [CHR 0x22] s
      else if c = CHR 0x5C then Added [CHR 0x5C] s
      else if c = CHR ''/'' then Added [CHR ''/''] s
      else if c = CHR ''b'' then Added [CHR 0x08] s
      else if c = CHR ''f'' then Added [CHR 0x0C] s
      else if c = CHR ''n'' then Added [CHR 0x0A] s
      else if c = CHR ''r'' then Added [CHR 0x0D] s
      else if c = CHR ''t'' then Added [CHR 0x09] s
      else if c = CHR ''u'' then scan_unicode s
      else Rejected)"

text \<open>The continuation ranges of a leading byte; \<open>None\<close> for a byte that may not lead.\<close>

definition utf8_ranges :: "nat \<Rightarrow> (nat \<times> nat) list option" where
  "utf8_ranges b =
     (if b < 0x80 then Some []
      else if 0xC2 \<le> b \<and> b \<le> 0xDF then Some [(0x80, 0xBF)]
      else if b = 0xE0 then Some [(0xA0, 0xBF), (0x80, 0xBF)]
      else if 0xE1 \<le> b \<and> b \<le> 0xEC \<or> 0xEE \<le> b \<and> b \<le> 0xEF then Some [(0x80, 0xBF), (0x80, 0xBF)]
      else if b = 0xED then Some [(0x80, 0x9F), (0x80, 0xBF)]
      else if b = 0xF0 then Some [(0x90, 0xBF), (0x80, 0xBF), (0x80, 0xBF)]
      else if 0xF1 \<le> b \<and> b \<le> 0xF3 then Some [(0x80, 0xBF), (0x80, 0xBF), (0x80, 0xBF)]
      else if b = 0xF4 then Some [(0x80, 0x8F), (0x80, 0xBF), (0x80, 0xBF)]
      else None)"

fun scan_char :: "string \<Rightarrow> scan_item" where
  "scan_char [] = Rejected"
| "scan_char (c # s) =
     (if c = CHR 0x22 then Closed s
      else if c = CHR 0x5C then scan_escape s
      else if byte c < 0x20 then Rejected
      else case utf8_ranges (byte c) of
             None \<Rightarrow> Rejected
           | Some rs \<Rightarrow>
               (case next_byte_in_range rs s of None \<Rightarrow> Rejected | Some (bs, s') \<Rightarrow> Added (c # bs) s'))"

lemma get_codepoint_length: "get_codepoint s = Some (cp, r) \<Longrightarrow> length r < length s"
  by (induction s rule: get_codepoint.induct) (auto split: option.splits)

lemma next_byte_in_range_append: "next_byte_in_range rs s = Some (bs, r) \<Longrightarrow> s = bs @ r"
  by (induction rs s arbitrary: bs rule: next_byte_in_range.induct) (auto split: if_splits)

lemma scan_unicode_length: "scan_unicode s = Added bs r \<Longrightarrow> length r < length s"
  by (auto simp: scan_unicode_def dest!: get_codepoint_length split: option.splits if_splits list.splits)

lemma scan_escape_length: "scan_escape s = Added bs r \<Longrightarrow> length r < length s"
  by (cases s) (auto dest!: scan_unicode_length split: if_splits)

lemma scan_char_length:
  assumes "scan_char s = Added bs r"
  shows "length r < length s"
  using assms
  by (cases s) (auto dest!: scan_escape_length next_byte_in_range_append split: if_splits option.splits)

lemma scan_char_closed: "scan_char s = Closed r \<Longrightarrow> s = CHR 0x22 # r"
  by (cases s) (auto simp: scan_unicode_def split: if_splits option.splits list.splits elim!: scan_escape.elims)

function scan_string :: "string \<Rightarrow> string \<Rightarrow> (string \<times> string) option" where
  "scan_string token_buffer s =
     (case scan_char s of
        Rejected \<Rightarrow> None
      | Closed r \<Rightarrow> Some (token_buffer, r)
      | Added bs r \<Rightarrow> scan_string (token_buffer @ bs) r)"
  by pat_completeness auto
termination
  by (relation "measure (\<lambda>(b, s). length s)") (auto simp: scan_char_length)

declare scan_string.simps [simp del]

subsection \<open>The lexer: numbers and tokens\<close>

datatype token =
    TBeginArray | TEndArray | TBeginObject | TEndObject | TName | TSep
  | TTrue | TFalse | TNull
  | TString string | TUnsigned nat | TInteger int | TFloat "(int \<times> int) option"
  | TEnd | TError

datatype number_type = value_unsigned | value_integer | value_float

definition is_digit :: "char \<Rightarrow> bool" where
  "is_digit c \<longleftrightarrow> 48 \<le> byte c \<and> byte c < 58"

text \<open>
  \<open>scan_number_done\<close>: integers that do not fit 64 bits fall back to floating point. The
  functions before it are the labels of the automaton, with the number's bytes read so far.
\<close>

definition scan_number_done :: "fp_env \<Rightarrow> number_type \<Rightarrow> string \<Rightarrow> string \<Rightarrow> token \<times> string" where
  "scan_number_done F ty buf s =
     (if ty = value_unsigned \<and> int (digits_value buf) < 2 ^ 64 then (TUnsigned (digits_value buf), s)
      else if ty = value_integer \<and> int (digits_value (tl buf)) \<le> 2 ^ 63 then (TInteger (- int (digits_value (tl buf))), s)
      else (TFloat (fp_strtod F buf), s))"

definition scan_number_any2 :: "fp_env \<Rightarrow> string \<Rightarrow> string \<Rightarrow> token \<times> string" where
  "scan_number_any2 F buf s =
     scan_number_done F value_float (buf @ takeWhile is_digit s) (dropWhile is_digit s)"

definition scan_number_sign :: "fp_env \<Rightarrow> string \<Rightarrow> string \<Rightarrow> token \<times> string" where
  "scan_number_sign F buf s =
     (case s of [] \<Rightarrow> (TError, [])
      | c # r \<Rightarrow> if is_digit c then scan_number_any2 F (buf @ [c]) r else (TError, r))"

definition scan_number_exponent :: "fp_env \<Rightarrow> string \<Rightarrow> string \<Rightarrow> token \<times> string" where
  "scan_number_exponent F buf s =
     (case s of [] \<Rightarrow> (TError, [])
      | c # r \<Rightarrow>
          if c = CHR ''+'' \<or> c = CHR ''-'' then scan_number_sign F (buf @ [c]) r
          else if is_digit c then scan_number_any2 F (buf @ [c]) r
          else (TError, r))"

definition scan_number_decimal2 :: "fp_env \<Rightarrow> string \<Rightarrow> string \<Rightarrow> token \<times> string" where
  "scan_number_decimal2 F buf s =
     (let buf' = buf @ takeWhile is_digit s
      in case dropWhile is_digit s of
           [] \<Rightarrow> scan_number_done F value_float buf' []
         | c # r \<Rightarrow>
             if c = CHR ''e'' \<or> c = CHR ''E'' then scan_number_exponent F (buf' @ [c]) r
             else scan_number_done F value_float buf' (c # r))"

definition scan_number_decimal1 :: "fp_env \<Rightarrow> string \<Rightarrow> string \<Rightarrow> token \<times> string" where
  "scan_number_decimal1 F buf s =
     (case s of [] \<Rightarrow> (TError, [])
      | c # r \<Rightarrow> if is_digit c then scan_number_decimal2 F (buf @ [c]) r else (TError, r))"

definition scan_number_zero :: "fp_env \<Rightarrow> number_type \<Rightarrow> string \<Rightarrow> string \<Rightarrow> token \<times> string" where
  "scan_number_zero F ty buf s =
     (case s of [] \<Rightarrow> scan_number_done F ty buf []
      | c # r \<Rightarrow>
          if c = CHR ''.'' then scan_number_decimal1 F (buf @ [c]) r
          else if c = CHR ''e'' \<or> c = CHR ''E'' then scan_number_exponent F (buf @ [c]) r
          else scan_number_done F ty buf (c # r))"

definition scan_number_any1 :: "fp_env \<Rightarrow> number_type \<Rightarrow> string \<Rightarrow> string \<Rightarrow> token \<times> string" where
  "scan_number_any1 F ty buf s =
     scan_number_zero F ty (buf @ takeWhile is_digit s) (dropWhile is_digit s)"

definition scan_number_minus :: "fp_env \<Rightarrow> string \<Rightarrow> string \<Rightarrow> token \<times> string" where
  "scan_number_minus F buf s =
     (case s of [] \<Rightarrow> (TError, [])
      | c # r \<Rightarrow>
          if c = CHR ''0'' then scan_number_zero F value_integer (buf @ [c]) r
          else if is_digit c then scan_number_any1 F value_integer (buf @ [c]) r
          else (TError, r))"

definition scan_number :: "fp_env \<Rightarrow> char \<Rightarrow> string \<Rightarrow> token \<times> string" where
  "scan_number F c s =
     (if c = CHR ''-'' then scan_number_minus F [c] s
      else if c = CHR ''0'' then scan_number_zero F value_unsigned [c] s
      else scan_number_any1 F value_unsigned [c] s)"

text \<open>\<open>scan_literal\<close>, after the first character has been matched.\<close>

fun scan_literal :: "string \<Rightarrow> token \<Rightarrow> string \<Rightarrow> token \<times> string" where
  "scan_literal [] t s = (t, s)"
| "scan_literal (l # ls) t [] = (TError, [])"
| "scan_literal (l # ls) t (c # s) = (if c = l then scan_literal ls t s else (TError, s))"

definition is_space :: "char \<Rightarrow> bool" where
  "is_space c \<longleftrightarrow> c = CHR '' '' \<or> c = CHR 0x09 \<or> c = CHR 0x0A \<or> c = CHR 0x0D"

definition scan :: "fp_env \<Rightarrow> string \<Rightarrow> token \<times> string" where
  "scan F s =
     (case dropWhile is_space s of
        [] \<Rightarrow> (TEnd, [])
      | c # r \<Rightarrow>
          if c = CHR 0x5B then (TBeginArray, r)
          else if c = CHR 0x5D then (TEndArray, r)
          else if c = CHR 0x7B then (TBeginObject, r)
          else if c = CHR 0x7D then (TEndObject, r)
          else if c = CHR 0x3A then (TName, r)
          else if c = CHR 0x2C then (TSep, r)
          else if c = CHR ''t'' then scan_literal ''rue'' TTrue r
          else if c = CHR ''f'' then scan_literal ''alse'' TFalse r
          else if c = CHR ''n'' then scan_literal ''ull'' TNull r
          else if c = CHR 0x22 then
            (case scan_string [] r of None \<Rightarrow> (TError, r) | Some (str, r') \<Rightarrow> (TString str, r'))
          else if c = CHR ''-'' \<or> is_digit c then scan_number F c r
          else if c = CHR 0x00 then (TEnd, r)
          else (TError, r))"

lemma scan_string_length: "scan_string buf s = Some (str, r) \<Longrightarrow> length r < length s"
proof (induction buf s rule: scan_string.induct)
  case (1 buf s)
  show ?case
  proof (cases "scan_char s")
    case (Closed r')
    then have "scan_string buf s = Some (buf, r')" by (simp add: scan_string.simps [of buf s])
    with "1.prems" scan_char_closed [OF Closed] show ?thesis by simp
  next
    case (Added bs r')
    with "1.IH" [OF Added] "1.prems" scan_char_length [OF Added] show ?thesis
      by (simp add: scan_string.simps [of buf s])
  next
    case Rejected
    with "1.prems" show ?thesis by (simp add: scan_string.simps [of buf s])
  qed
qed

lemmas scan_number_defs = scan_number_done_def scan_number_any2_def scan_number_sign_def
  scan_number_exponent_def scan_number_decimal2_def scan_number_decimal1_def scan_number_zero_def
  scan_number_any1_def scan_number_minus_def scan_number_def

lemma scan_number_done_rest: "snd (scan_number_done F ty buf s) = s"
  by (simp add: scan_number_done_def)

lemma length_dropWhile: "length (dropWhile P xs) \<le> length xs"
  by (simp add: dropWhile_eq_drop)

lemma number_lengths:
  "length (snd (scan_number_any2 F buf s)) \<le> length s"
  "length (snd (scan_number_sign F buf s)) \<le> length s"
  "length (snd (scan_number_exponent F buf s)) \<le> length s"
  "length (snd (scan_number_decimal2 F buf s)) \<le> length s"
  "length (snd (scan_number_decimal1 F buf s)) \<le> length s"
  "length (snd (scan_number_zero F ty buf s)) \<le> length s"
  "length (snd (scan_number_any1 F ty buf s)) \<le> length s"
  "length (snd (scan_number_minus F buf s)) \<le> length s"
  "length (snd (scan_number F c s)) \<le> length s"
proof -
  show a2: "length (snd (scan_number_any2 F buf s)) \<le> length s" for buf s
    by (simp add: scan_number_any2_def scan_number_done_rest length_dropWhile)
  show sg: "length (snd (scan_number_sign F buf s)) \<le> length s" for buf s
    by (cases s) (auto simp: scan_number_sign_def intro: order_trans [OF a2])
  show ex: "length (snd (scan_number_exponent F buf s)) \<le> length s" for buf s
    by (cases s) (auto simp: scan_number_exponent_def intro: order_trans [OF a2] order_trans [OF sg])
  show d2: "length (snd (scan_number_decimal2 F buf s)) \<le> length s" for buf s
  proof (cases "dropWhile is_digit s")
    case Nil
    then show ?thesis
      by (simp add: scan_number_decimal2_def Let_def scan_number_done_rest del: dropWhile_eq_Nil_conv)
  next
    case (Cons c r)
    then have "Suc (length r) \<le> length s" using length_dropWhile [of is_digit s] by simp
    with Cons ex [of "buf @ takeWhile is_digit s @ [c]" r] show ?thesis
      by (simp add: scan_number_decimal2_def Let_def scan_number_done_rest)
  qed
  show d1: "length (snd (scan_number_decimal1 F buf s)) \<le> length s" for buf s
    by (cases s) (auto simp: scan_number_decimal1_def intro: order_trans [OF d2])
  show z: "length (snd (scan_number_zero F ty buf s)) \<le> length s" for ty buf s
    by (cases s) (auto simp: scan_number_zero_def scan_number_done_rest intro: order_trans [OF d1] order_trans [OF ex])
  show a1: "length (snd (scan_number_any1 F ty buf s)) \<le> length s" for ty buf s
    unfolding scan_number_any1_def by (rule order_trans [OF z length_dropWhile])
  show m: "length (snd (scan_number_minus F buf s)) \<le> length s" for buf s
    by (cases s) (auto simp: scan_number_minus_def intro: order_trans [OF a1] order_trans [OF z])
  show "length (snd (scan_number F c s)) \<le> length s"
    by (simp add: scan_number_def m z a1)
qed

lemma scan_literal_length: "length (snd (scan_literal ls t s)) \<le> length s"
  by (induction ls t s rule: scan_literal.induct) auto

lemma scan_length:
  assumes "scan F s = (t, r)" and "t \<noteq> TEnd" and "t \<noteq> TError"
  shows "length r < length s"
proof (cases "dropWhile is_space s")
  case Nil
  with assms show ?thesis by (simp add: scan_def)
next
  case (Cons c u)
  then have "length u < length s" using length_dropWhile [of is_space s] by simp
  moreover have "length r \<le> length u"
    using assms Cons scan_literal_length [of "''rue''" TTrue u] scan_literal_length [of "''alse''" TFalse u]
      scan_literal_length [of "''ull''" TNull u] number_lengths(9) [of F c u]
    by (auto simp: scan_def dest: scan_string_length split: if_splits option.splits)
  ultimately show ?thesis by simp
qed

function tokens :: "fp_env \<Rightarrow> string \<Rightarrow> token list" where
  "tokens F s =
     (case scan F s of (t, r) \<Rightarrow> if t = TEnd \<or> t = TError then [t] else t # tokens F r)"
  by pat_completeness auto
termination
  by (relation "measure (\<lambda>(F, s). length s)") (auto dest: scan_length [OF sym])

declare tokens.simps [simp del]

subsection \<open>The parser\<close>

text \<open>A frame is an entry of \<open>states\<close> together with the container under construction.\<close>

datatype frame =
    FArr "json list"
  | FObj "(string \<times> json) list" string

text \<open>
  \<open>parse_value\<close> is an iteration that reads a value, \<open>parse_state\<close> the evaluation of the
  state after a value. A repeated key overwrites the earlier value.
\<close>

function parse_value :: "frame list \<Rightarrow> token list \<Rightarrow> (json \<times> token list) option"
  and parse_state :: "frame list \<Rightarrow> json \<Rightarrow> token list \<Rightarrow> (json \<times> token list) option" where
  "parse_value states [] = None"
| "parse_value states (t # ts) =
     (case t of
        TBeginObject \<Rightarrow>
          (case ts of
             TEndObject # ts' \<Rightarrow> parse_state states (JObj []) ts'
           | TString k # TName # ts' \<Rightarrow> parse_value (FObj [] k # states) ts'
           | _ \<Rightarrow> None)
      | TBeginArray \<Rightarrow>
          (case ts of
             TEndArray # ts' \<Rightarrow> parse_state states (JArr []) ts'
           | _ \<Rightarrow> parse_value (FArr [] # states) ts)
      | TFloat (Some (m, e)) \<Rightarrow> parse_state states (JFloat m e) ts
      | TFalse \<Rightarrow> parse_state states (JBool False) ts
      | TNull \<Rightarrow> parse_state states JNull ts
      | TTrue \<Rightarrow> parse_state states (JBool True) ts
      | TInteger i \<Rightarrow> parse_state states (JInt i) ts
      | TString s \<Rightarrow> parse_state states (JStr s) ts
      | TUnsigned n \<Rightarrow> parse_state states (JUint n) ts
      | _ \<Rightarrow> None)"
| "parse_state [] v ts = Some (v, ts)"
| "parse_state (FArr vs # states) v ts =
     (case ts of
        TSep # ts' \<Rightarrow> parse_value (FArr (vs @ [v]) # states) ts'
      | TEndArray # ts' \<Rightarrow> parse_state states (JArr (vs @ [v])) ts'
      | _ \<Rightarrow> None)"
| "parse_state (FObj kvs k # states) v ts =
     (case ts of
        TSep # TString k' # TName # ts' \<Rightarrow> parse_value (FObj (obj_set k v kvs) k' # states) ts'
      | TEndObject # ts' \<Rightarrow> parse_state states (JObj (obj_set k v kvs)) ts'
      | _ \<Rightarrow> None)"
  by pat_completeness auto
termination
  by (relation "measure (\<lambda>x. case x of Inl (states, ts) \<Rightarrow> length ts | Inr (states, v, ts) \<Rightarrow> length ts)") auto

definition skip_bom :: "string \<Rightarrow> string option" where
  "skip_bom s =
     (case s of
        c # r \<Rightarrow>
          if byte c = 0xEF then
            (case r of
               d # e # r' \<Rightarrow> if byte d = 0xBB \<and> byte e = 0xBF then Some r' else None
             | _ \<Rightarrow> None)
          else Some s
      | [] \<Rightarrow> Some s)"

definition json_parse :: "fp_env \<Rightarrow> string \<Rightarrow> json option" where
  "json_parse F s =
     (case skip_bom s of
        None \<Rightarrow> None
      | Some s' \<Rightarrow>
          (case parse_value [] (tokens F s') of
             Some (v, TEnd # ts) \<Rightarrow> Some v
           | _ \<Rightarrow> None))"

end
