(* ===== verification/Client.thy ===== *)
theory Client
  imports Json_Text Chat_Service
begin

section \<open>The chat client (src/client/main.cpp)\<close>

text \<open>
  The client has two threads: \<open>main\<close> reads the keyboard, sends requests and waits on the
  semaphore \<open>rwSem\<close>; \<open>readTaskHandler\<close> receives and handles what the server sends. The
  record \<open>client\<close> holds the globals of the file, the standard input, everything given to the
  socket (\<open>outbox\<close>, one entry per \<open>send\<close>) and everything printed (\<open>screen\<close>, one entry
  per statement), and where the main thread is (\<open>phase\<close>). \<open>client_step\<close> interleaves the
  two threads. The environment holds what the operating system contributes: the clock and the
  result of \<open>send\<close>. An exception that leaves a thread ends the process.
\<close>

subsection \<open>Standard input\<close>

text \<open>
  \<open>std::cin\<close>: the characters not yet read, followed by the end of the file, and the state bits.
\<close>

record istream =
  unread :: string
  eofbit :: bool
  failbit :: bool

definition good :: "istream \<Rightarrow> bool" where
  "good s \<longleftrightarrow> \<not> eofbit s \<and> \<not> failbit s"

definition isspace :: "char \<Rightarrow> bool" where
  "isspace c \<longleftrightarrow> c = CHR '' '' \<or> 9 \<le> byte c \<and> byte c \<le> 13"

text \<open>An optional sign and the digits after it: their value and the rest.\<close>

definition read_sign :: "string \<Rightarrow> bool \<times> string" where
  "read_sign s =
     (case s of
        c # r \<Rightarrow> if c = CHR ''-'' then (True, r) else if c = CHR ''+'' then (False, r) else (False, s)
      | [] \<Rightarrow> (False, s))"

definition signed_value :: "bool \<Rightarrow> string \<Rightarrow> int" where
  "signed_value neg ds = (if neg then - int (digits_value ds) else int (digits_value ds))"

text \<open>
  \<open>cin >> x\<close> for an \<open>int\<close> variable with the value \<open>old\<close>: a stream that is not good
  leaves it alone, an input without digits gives 0, one out of range the nearest bound.
\<close>

definition extract_int :: "int \<Rightarrow> istream \<Rightarrow> int \<times> istream" where
  "extract_int old s =
     (if \<not> good s then (old, s\<lparr>failbit := True\<rparr>)
      else let r = dropWhile isspace (unread s) in
        if r = [] then (old, s\<lparr>unread := [], eofbit := True, failbit := True\<rparr>)
        else case read_sign r of (neg, r1) \<Rightarrow>
          (let ds = takeWhile is_digit r1;
               r2 = dropWhile is_digit r1;
               v = signed_value neg ds;
               s' = s\<lparr>unread := r2, eofbit := (r2 = [])\<rparr>
           in if ds = [] then (0, s'\<lparr>failbit := True\<rparr>)
              else if v < - (2 ^ 31) then (- (2 ^ 31), s'\<lparr>failbit := True\<rparr>)
              else if 2 ^ 31 \<le> v then (2 ^ 31 - 1, s'\<lparr>failbit := True\<rparr>)
              else (v, s')))"

definition cin_get :: "istream \<Rightarrow> istream" where
  "cin_get s =
     (if \<not> good s then s\<lparr>failbit := True\<rparr>
      else case unread s of
        [] \<Rightarrow> s\<lparr>eofbit := True, failbit := True\<rparr>
      | c # r \<Rightarrow> s\<lparr>unread := r\<rparr>)"

text \<open>
  \<open>cin.getline(buffer, n)\<close>: at most \<open>n - 1\<close> characters of the line; when the line is longer
  the rest stays in the stream and the stream fails, so that every later read fails too.
\<close>

definition getline :: "nat \<Rightarrow> istream \<Rightarrow> string \<times> istream" where
  "getline n s =
     (if \<not> good s then ([], s\<lparr>failbit := True\<rparr>)
      else let line = takeWhile (\<lambda>c. c \<noteq> CHR 0x0A) (unread s); r = drop (length line) (unread s) in
        if n \<le> length line then (take (n - 1) line, s\<lparr>unread := drop (n - 1) (unread s), failbit := True\<rparr>)
        else if r = [] then (line, s\<lparr>unread := [], eofbit := True, failbit := (line = [])\<rparr>)
        else (line, s\<lparr>unread := tl r\<rparr>))"

text \<open>A character array read as a C string.\<close>

definition cstr :: "string \<Rightarrow> string" where
  "cstr s = takeWhile (\<lambda>c. c \<noteq> CHR 0x00) s"

text \<open>\<open>atoi\<close>: \<open>strtol\<close>, which saturates at 64 bits, cast to \<open>int\<close>.\<close>

definition atoi :: "string \<Rightarrow> int" where
  "atoi s =
     (case read_sign (dropWhile isspace (cstr s)) of
        (neg, r) \<Rightarrow> to_int32 (max (- (2 ^ 63)) (min (2 ^ 63 - 1) (signed_value neg (takeWhile is_digit r)))))"

text \<open>\<open>str.find(":")\<close>: what is before the first colon and what is after it.\<close>

definition split_colon :: "string \<Rightarrow> (string \<times> string) option" where
  "split_colon s =
     (if CHR 0x3A \<in> set s
      then Some (takeWhile (\<lambda>c. c \<noteq> CHR 0x3A) s, tl (dropWhile (\<lambda>c. c \<noteq> CHR 0x3A) s)) else None)"

subsection \<open>State\<close>

datatype phase = AtMenu | WaitLogin | WaitReg | InMenu | Exited int | Terminated cpp_exn

record client =
  cin :: istream
  isMainMenuRunning :: bool
  isLoginSuccess :: bool
  rwSem :: nat
  currentUser :: user
  currentUserFriendList :: "user list"
  currentUserGroupList :: "group list"
  outbox :: "string list"
  screen :: "string list"
  phase :: phase

record tm =
  tm_year :: int
  tm_mon :: int
  tm_mday :: int
  tm_hour :: int
  tm_min :: int
  tm_sec :: int

record client_env =
  ce_fp :: fp_env
  ce_now :: "client \<Rightarrow> tm"
  ce_send :: "string \<Rightarrow> client \<Rightarrow> int"

definition print_line :: "string \<Rightarrow> client \<Rightarrow> client" where
  "print_line text c = c\<lparr>screen := screen c @ [text]\<rparr>"

text \<open>\<open>send(clientfd, buf, size, 0)\<close>: -1, or the number of bytes that were taken.\<close>

definition client_send :: "client_env \<Rightarrow> string \<Rightarrow> client \<Rightarrow> int \<times> client" where
  "client_send E buf c =
     (let len = ce_send E buf c
      in (len, if len = - 1 then c else c\<lparr>outbox := outbox c @ [take (nat len) buf]\<rparr>))"

definition error_if :: "bool \<Rightarrow> string \<Rightarrow> client \<Rightarrow> client" where
  "error_if condition errmsg c = (if condition then print_line errmsg c else c)"

text \<open>\<open>sprintf\<close> with \<open>%02d\<close>.\<close>

definition two_digits :: "int \<Rightarrow> string" where
  "two_digits i = replicate (2 - length (to_string i)) (CHR ''0'') @ to_string i"

definition getCurrentTime :: "tm \<Rightarrow> string" where
  "getCurrentTime t =
     to_string (tm_year t + 1900) @ ''-'' @ two_digits (tm_mon t + 1) @ ''-'' @ two_digits (tm_mday t) @ '' '' @
     two_digits (tm_hour t) @ '':'' @ two_digits (tm_min t) @ '':'' @ two_digits (tm_sec t)"

subsection \<open>Commands\<close>

definition commandMap :: "(string \<times> string) list" where
  "commandMap =
     [(''help'', utf8 [230, 152, 190, 231, 164, 186, 230, 137, 128, 230, 156, 137, 230, 148, 175, 230, 140, 129,
         231, 154, 132, 229, 145, 189, 228, 187, 164, 239, 188, 140, 230, 160, 188, 229, 188, 143] @ ''help''),
      (''chat'', utf8 [228, 184, 128, 229, 175, 185, 228, 184, 128, 232, 129, 138, 229, 164, 169, 239, 188, 140,
         230, 160, 188, 229, 188, 143] @ ''chat:friendid:message''),
      (''addFriend'', utf8 [230, 183, 187, 229, 138, 160, 229, 165, 189, 229, 143, 139, 239, 188, 140, 230, 160, 188,
         229, 188, 143] @ ''addFriend:friendid''),
      (''createGroup'', utf8 [229, 136, 155, 229, 187, 186, 231, 190, 164, 232, 129, 138, 239, 188, 140, 230, 160, 188,
         229, 188, 143] @ ''createGroup:groupName:groupDesc''),
      (''joinGroup'', utf8 [229, 138, 160, 229, 133, 165, 231, 190, 164, 232, 129, 138, 239, 188, 140, 230, 160, 188,
         229, 188, 143] @ ''joinGroup:groupid''),
      (''groupChat'', utf8 [231, 190, 164, 232, 129, 138, 239, 188, 140, 230, 160, 188, 229, 188, 143] @
         ''groupChat:groupid:message''),
      (''loginout'', utf8 [230, 179, 168, 233, 148, 128, 239, 188, 140, 230, 160, 188, 229, 188, 143] @ ''loginout'')]"

text \<open>C++ leaves open in which order \<open>help\<close> prints the entries of the unordered map; here it is that of the source.\<close>

definition client_help :: "client \<Rightarrow> client" where
  "client_help c =
     print_line []
       (fold (\<lambda>(name, text). print_line (name @ '':'' @ text)) commandMap
          (print_line ''Show command list >>> '' c))"

text \<open>Printing a request and sending it; \<open>complaint\<close> is printed when \<open>send\<close> fails.\<close>

definition send_request :: "client_env \<Rightarrow> json \<Rightarrow> string \<Rightarrow> client \<Rightarrow> cpp_exn + (int \<times> client)" where
  "send_request E js complaint c =
     bindR (json_dump (ce_fp E) js) (\<lambda>buf.
       case client_send E buf c of (len, c1) \<Rightarrow> Inr (len, error_if (len = - 1) complaint c1))"

definition send_command :: "client_env \<Rightarrow> json \<Rightarrow> string \<Rightarrow> client \<Rightarrow> cpp_exn + client" where
  "send_command E js complaint c = bindR (send_request E js complaint c) (\<lambda>(len, c1). Inr c1)"

definition empty_chat_text :: string where
  "empty_chat_text = utf8 [231, 167, 129, 232, 129, 138, 230, 182, 136, 230, 129, 175, 228, 184, 141, 232, 131, 189,
     228, 184, 186, 231, 169, 186, 239, 188, 129]"

definition empty_group_text :: string where
  "empty_group_text = utf8 [231, 190, 164, 232, 129, 138, 230, 182, 136, 230, 129, 175, 228, 184, 141, 232, 131, 189,
     228, 184, 186, 231, 169, 186, 239, 188, 129]"

definition client_chat :: "client_env \<Rightarrow> string \<Rightarrow> client \<Rightarrow> cpp_exn + client" where
  "client_chat E str c =
     (case split_colon str of
        None \<Rightarrow> Inr (error_if True ''chat command invalid'' c)
      | Some (friend_text, message) \<Rightarrow>
          (if message = [] then Inr (print_line empty_chat_text c)
           else send_command E
             (json_obj [(''msgid'', JInt ONE_CHAT_MSG), (''id'', JInt (user_id (currentUser c))),
                (''name'', JStr (user_name (currentUser c))), (''to'', JInt (atoi friend_text)),
                (''msg'', JStr message), (''time'', JStr (getCurrentTime (ce_now E c)))])
             ''send chat msg error'' c))"

definition client_addFriend :: "client_env \<Rightarrow> string \<Rightarrow> client \<Rightarrow> cpp_exn + client" where
  "client_addFriend E str c =
     send_command E
       (json_obj [(''msgid'', JInt ADD_FRIEND_MSG), (''id'', JInt (user_id (currentUser c))), (''friendid'', JInt (atoi str))])
       ''send addFriend msg error'' c"

definition client_createGroup :: "client_env \<Rightarrow> string \<Rightarrow> client \<Rightarrow> cpp_exn + client" where
  "client_createGroup E str c =
     (case split_colon str of
        None \<Rightarrow> Inr (error_if True ''creategroup command invalid!!!'' c)
      | Some (groupName, groupDesc) \<Rightarrow>
          send_command E
            (json_obj [(''msgid'', JInt CREATE_GROUP_MSG), (''id'', JInt (user_id (currentUser c))),
               (''groupname'', JStr groupName), (''groupdesc'', JStr groupDesc)])
            ''createGroup msg error!!!'' c)"

definition client_joinGroup :: "client_env \<Rightarrow> string \<Rightarrow> client \<Rightarrow> cpp_exn + client" where
  "client_joinGroup E str c =
     send_command E
       (json_obj [(''msgid'', JInt JOIN_GROUP_MSG), (''id'', JInt (user_id (currentUser c))), (''groupid'', JInt (atoi str))])
       ''joinGroup msg error !!!'' c"

definition client_groupChat :: "client_env \<Rightarrow> string \<Rightarrow> client \<Rightarrow> cpp_exn + client" where
  "client_groupChat E str c =
     (case split_colon str of
        None \<Rightarrow> Inr (error_if True ''groupChat command invalid!!'' c)
      | Some (group_text, groupMsg) \<Rightarrow>
          (if groupMsg = [] then Inr (print_line empty_group_text c)
           else send_command E
             (json_obj [(''msgid'', JInt GROUP_CHAT_MSG), (''id'', JInt (user_id (currentUser c))),
                (''name'', JStr (user_name (currentUser c))), (''groupid'', JInt (atoi group_text)),
                (''msg'', JStr groupMsg), (''time'', JStr (getCurrentTime (ce_now E c)))])
             ''groupChat msg error!!'' c))"

definition client_loginout :: "client_env \<Rightarrow> string \<Rightarrow> client \<Rightarrow> cpp_exn + client" where
  "client_loginout E str c =
     bindR (send_request E
         (json_obj [(''msgid'', JInt LOGIN_OUT_MSG), (''id'', JInt (user_id (currentUser c))),
            (''name'', JStr (user_name (currentUser c)))])
         ''send loginmsg msg error!!'' c)
       (\<lambda>(len, c1). Inr (if len \<noteq> - 1 then c1\<lparr>isMainMenuRunning := False\<rparr> else c1))"

definition commandHandlerMap :: "(string \<times> (client_env \<Rightarrow> string \<Rightarrow> client \<Rightarrow> cpp_exn + client)) list" where
  "commandHandlerMap =
     [(''help'', \<lambda>E str c. Inr (client_help c)), (''chat'', client_chat), (''addFriend'', client_addFriend),
      (''createGroup'', client_createGroup), (''joinGroup'', client_joinGroup), (''groupChat'', client_groupChat),
      (''loginout'', client_loginout)]"

definition bad_command_text :: string where
  "bad_command_text = utf8 [232, 190, 147, 229, 133, 165, 228, 186, 134, 228, 184, 141, 229, 144, 136, 230, 179, 149,
     231, 154, 132, 229, 145, 189, 228, 187, 164]"

text \<open>One turn of the loop of \<open>mainmenu\<close>.\<close>

definition mainmenu_turn :: "client_env \<Rightarrow> client \<Rightarrow> cpp_exn + client" where
  "mainmenu_turn E c =
     (case getline 1024 (cin c) of
        (buffer, s) \<Rightarrow>
          (let c1 = c\<lparr>cin := s\<rparr>;
               commandBuffer = cstr buffer;
               (command, rest) = (case split_colon commandBuffer of None \<Rightarrow> (commandBuffer, commandBuffer) | Some x \<Rightarrow> x)
           in case map_of commandHandlerMap command of
                None \<Rightarrow> Inr (print_line bad_command_text c1)
              | Some handler \<Rightarrow> handler E rest c1))"

subsection \<open>The main thread\<close>

text \<open>\<open>std::terminate\<close> when an exception leaves a thread.\<close>

definition settle :: "client \<Rightarrow> cpp_exn + client \<Rightarrow> client" where
  "settle c r = (case r of Inl e \<Rightarrow> c\<lparr>phase := Terminated e\<rparr> | Inr c' \<Rightarrow> c')"

definition menu_lines :: "string list" where
  "menu_lines = [''======================='', ''1. login'', ''2. register'', ''3. quit'', ''======================='', ''Your choice:'']"

text \<open>The cases of the main menu, up to the \<open>sem_wait\<close>.\<close>

definition choose_login :: "client_env \<Rightarrow> client \<Rightarrow> cpp_exn + client" where
  "choose_login E c =
     (case extract_int 0 (cin c) of (i, s1) \<Rightarrow>
      case getline 20 (cin_get s1) of (pwd, s2) \<Rightarrow>
        (let c1 = print_line ''Password:'' (print_line ''Userid:'' (c\<lparr>cin := s2\<rparr>)) in
         bindR (json_dump (ce_fp E)
             (json_obj [(''msgid'', JInt LOGIN_MSG), (''id'', JInt i), (''password'', JStr (cstr pwd))]))
           (\<lambda>request.
              case client_send E request (c1\<lparr>isLoginSuccess := False\<rparr>) of (len, c2) \<Rightarrow>
                Inr ((error_if (len = - 1) (''Send login msg error!!'' @ request) c2)\<lparr>phase := WaitLogin\<rparr>))))"

definition choose_register :: "client_env \<Rightarrow> client \<Rightarrow> cpp_exn + client" where
  "choose_register E c =
     (case getline 50 (cin c) of (name, s1) \<Rightarrow>
      case getline 50 s1 of (pwd, s2) \<Rightarrow>
        (let c1 = print_line ''userpassword:'' (print_line ''username:'' (c\<lparr>cin := s2\<rparr>)) in
         bindR (json_dump (ce_fp E)
             (json_obj [(''msgid'', JInt REG_MSG), (''name'', JStr (cstr name)), (''password'', JStr (cstr pwd))]))
           (\<lambda>request.
              case client_send E (cstr request @ [CHR 0x00]) c1 of (len, c2) \<Rightarrow>
                Inr ((error_if (len = - 1) (''send reg msg error:'' @ request) c2)\<lparr>phase := WaitReg\<rparr>))))"

definition main_turn :: "client_env \<Rightarrow> client \<Rightarrow> cpp_exn + client" where
  "main_turn E c =
     (case extract_int 0 (cin c) of (choice, s) \<Rightarrow>
        (let c1 = (fold print_line menu_lines c)\<lparr>cin := cin_get s\<rparr> in
         if choice = 1 then choose_login E c1
         else if choice = 2 then choose_register E c1
         else if choice = 3 then Inr (c1\<lparr>phase := Exited 0\<rparr>)
         else Inr (print_line ''Invalid input!!'' c1)))"

text \<open>After \<open>sem_wait\<close> has returned.\<close>

definition after_login :: "client \<Rightarrow> client" where
  "after_login c =
     (if isLoginSuccess c then client_help (c\<lparr>isMainMenuRunning := True, phase := InMenu\<rparr>)
      else c\<lparr>phase := AtMenu\<rparr>)"

subsection \<open>The receiving thread\<close>

definition parseR :: "fp_env \<Rightarrow> string \<Rightarrow> cpp_exn + json" where
  "parseR F s = (case json_parse F s of None \<Rightarrow> Inl parse_error | Some j \<Rightarrow> Inr j)"

text \<open>\<open>0 == j\<close> on JSON values: numbers of any kind compare by value.\<close>

fun json_is_zero :: "json \<Rightarrow> bool" where
  "json_is_zero (JInt i) \<longleftrightarrow> i = 0"
| "json_is_zero (JUint n) \<longleftrightarrow> n = 0"
| "json_is_zero (JFloat m e) \<longleftrightarrow> m = 0"
| "json_is_zero _ \<longleftrightarrow> False"

text \<open>\<open>cout << js[key]\<close>.\<close>

definition shown :: "fp_env \<Rightarrow> string \<Rightarrow> json \<Rightarrow> cpp_exn + string \<times> json" where
  "shown F k js = bindR (json_index k js) (\<lambda>(v, js1). bindR (json_dump F v) (\<lambda>t. Inr (t, js1)))"

definition doRegResponse :: "fp_env \<Rightarrow> json \<Rightarrow> client \<Rightarrow> cpp_exn + client" where
  "doRegResponse F js c =
     bindR (json_index ''errno'' js) (\<lambda>(v, js1).
       if \<not> json_is_zero v then Inr (print_line ''name is already exist, register error!'' c)
       else bindR (shown F ''id'' js1) (\<lambda>(t, js2).
         Inr (print_line (''name register success, userid is '' @ t @ '', do not forget it'') c)))"

definition friend_of_text :: "fp_env \<Rightarrow> string \<Rightarrow> cpp_exn + user" where
  "friend_of_text F str =
     bindR (parseR F str) (\<lambda>js.
     bindR (field_int ''id'' js) (\<lambda>(i, js1).
     bindR (field_string ''name'' js1) (\<lambda>(n, js2).
     bindR (field_string ''state'' js2) (\<lambda>(st, js3).
       Inr (User_default\<lparr>user_id := i, user_name := n, user_state := st\<rparr>)))))"

definition groupuser_of_text :: "fp_env \<Rightarrow> string \<Rightarrow> cpp_exn + groupuser" where
  "groupuser_of_text F str =
     bindR (parseR F str) (\<lambda>js.
     bindR (field_int ''id'' js) (\<lambda>(i, js1).
     bindR (field_string ''name'' js1) (\<lambda>(n, js2).
     bindR (field_string ''state'' js2) (\<lambda>(st, js3).
     bindR (field_string ''role'' js3) (\<lambda>(r, js4).
       Inr \<lparr>user_id = i, user_name = n, user_password = [], user_state = st, gu_role = r\<rparr>)))))"

definition group_of_text :: "fp_env \<Rightarrow> string \<Rightarrow> cpp_exn + group" where
  "group_of_text F str =
     bindR (parseR F str) (\<lambda>js.
     bindR (field_int ''id'' js) (\<lambda>(i, js1).
     bindR (field_string ''groupname'' js1) (\<lambda>(n, js2).
     bindR (field_string ''groupdesc'' js2) (\<lambda>(ds, js3).
     bindR (json_index ''users'' js3) (\<lambda>(v, js4).
     bindR (get_string_vector v) (\<lambda>vec2.
     bindR (mapR (groupuser_of_text F) vec2) (\<lambda>us.
       Inr ((Group i n ds)\<lparr>group_users := us\<rparr>))))))))"

definition user_line :: "'a user_scheme \<Rightarrow> string" where
  "user_line u = to_string (user_id u) @ '' '' @ user_name u @ '' '' @ user_state u"

definition showCurrentUserData :: "client \<Rightarrow> client" where
  "showCurrentUserData c =
     fold print_line
       ([''=============Current User================='',
         ''Current User id: [ '' @ to_string (user_id (currentUser c)) @ '' ] name: [ '' @ user_name (currentUser c) @ '' ]'',
         ''-------------Friend List------------------''] @
        map user_line (currentUserFriendList c) @
        [''-------------Group List-------------------''] @
        concat (map (\<lambda>g. (to_string (group_id g) @ '' '' @ group_name g @ '' '' @ group_desc g) #
                    map (\<lambda>u. user_line u @ '' '' @ gu_role u) (group_users g)) (currentUserGroupList c)) @
        [''==========================================='']) c"

text \<open>time + [id] + name + said: + text\<close>

definition chat_line :: "fp_env \<Rightarrow> json \<Rightarrow> cpp_exn + string" where
  "chat_line F js =
     bindR (field_string ''time'' js) (\<lambda>(t, js1).
     bindR (shown F ''id'' js1) (\<lambda>(i, js2).
     bindR (field_string ''name'' js2) (\<lambda>(n, js3).
     bindR (field_string ''msg'' js3) (\<lambda>(m, js4).
       Inr (t @ '' ['' @ i @ '']'' @ n @ '' said: '' @ m)))))"

definition group_line :: "fp_env \<Rightarrow> json \<Rightarrow> cpp_exn + string" where
  "group_line F js =
     bindR (shown F ''groupid'' js) (\<lambda>(g, js1).
     bindR (chat_line F js1) (\<lambda>t.
       Inr (utf8 [231, 190, 164, 230, 182, 136, 230, 129, 175] @ ''['' @ g @ '']:'' @ t)))"

definition offline_line :: "fp_env \<Rightarrow> string \<Rightarrow> cpp_exn + string" where
  "offline_line F str =
     bindR (parseR F str) (\<lambda>js.
     bindR (field_int ''msgid'' js) (\<lambda>(msgid, js1).
       if msgid = ONE_CHAT_MSG then chat_line F js1 else group_line F js1))"

text \<open>\<open>if (js.contains(k)) { vector<string> vec = js[k]; ... }\<close>\<close>

definition listed :: "string \<Rightarrow> json \<Rightarrow> (string \<Rightarrow> cpp_exn + 'a) \<Rightarrow> cpp_exn + 'a list option" where
  "listed k js f =
     (if json_contains k js then
        bindR (json_index k js) (\<lambda>(v, js1). bindR (get_string_vector v) (\<lambda>vec. bindR (mapR f vec) (\<lambda>xs. Inr (Some xs))))
      else Inr None)"

definition doLoginResponse :: "fp_env \<Rightarrow> json \<Rightarrow> client \<Rightarrow> cpp_exn + client" where
  "doLoginResponse F js c =
     bindR (json_index ''errno'' js) (\<lambda>(v, js1).
       if \<not> json_is_zero v then
         bindR (shown F ''errormsg'' js1) (\<lambda>(t, js2). Inr ((print_line t c)\<lparr>isLoginSuccess := False\<rparr>))
       else
         bindR (field_int ''id'' js1) (\<lambda>(i, js2).
         bindR (listed ''friends'' js2 (friend_of_text F)) (\<lambda>friends.
         bindR (listed ''groups'' js2 (group_of_text F)) (\<lambda>groups.
         bindR (listed ''offlinemessage'' js2 (offline_line F)) (\<lambda>msgs.
           (let c1 = c\<lparr>currentUser := (currentUser c)\<lparr>user_id := i\<rparr>,
                      currentUserFriendList := (case friends of None \<Rightarrow> currentUserFriendList c | Some us \<Rightarrow> us),
                      currentUserGroupList := (case groups of None \<Rightarrow> currentUserGroupList c | Some gs \<Rightarrow> gs)\<rparr>;
                c2 = showCurrentUserData c1;
                c3 = fold print_line (case msgs of None \<Rightarrow> [] | Some ls \<Rightarrow> ls) c2
            in Inr (c3\<lparr>isLoginSuccess := True\<rparr>)))))))"

text \<open>
  One turn of \<open>readTaskHandler\<close>; \<open>None\<close> is a \<open>recv\<close> that failed or met the end of the
  stream. The buffer is an array of 1024 zeros into which the received bytes are written.
\<close>

definition recv_buffer :: "string \<Rightarrow> string" where
  "recv_buffer bytes = take 1024 (bytes @ replicate 1024 (CHR 0x00))"

definition read_turn :: "fp_env \<Rightarrow> string option \<Rightarrow> client \<Rightarrow> cpp_exn + client" where
  "read_turn F received c =
     (case received of
        None \<Rightarrow> Inr (c\<lparr>phase := Exited (- 1)\<rparr>)
      | Some bytes \<Rightarrow>
          bindR (parseR F (recv_buffer bytes)) (\<lambda>js.
          bindR (field_int ''msgid'' js) (\<lambda>(msgType, js1).
            if msgType = ONE_CHAT_MSG then bindR (chat_line F js1) (\<lambda>t. Inr (print_line t c))
            else if msgType = GROUP_CHAT_MSG then bindR (group_line F js1) (\<lambda>t. Inr (print_line t c))
            else if msgType = LOGIN_MSG_ACK then bindR (doLoginResponse F js1 c) (\<lambda>c1. Inr (c1\<lparr>rwSem := rwSem c1 + 1\<rparr>))
            else if msgType = REG_MSG_ACK then bindR (doRegResponse F js1 c) (\<lambda>c1. Inr (c1\<lparr>rwSem := rwSem c1 + 1\<rparr>))
            else Inr c)))"

subsection \<open>The two threads\<close>

definition alive :: "client \<Rightarrow> bool" where
  "alive c \<longleftrightarrow> phase c \<in> {AtMenu, WaitLogin, WaitReg, InMenu}"

text \<open>
  A step of the client process. The receiving thread may run at any moment; \<open>recv\<close> gives at most
  1024 bytes.
\<close>

inductive client_step :: "client_env \<Rightarrow> client \<Rightarrow> client \<Rightarrow> bool" for E :: client_env where
  menu: "phase c = AtMenu \<Longrightarrow> client_step E c (settle c (main_turn E c))"
| login_wait: "phase c = WaitLogin \<Longrightarrow> 0 < rwSem c \<Longrightarrow> client_step E c (after_login (c\<lparr>rwSem := rwSem c - 1\<rparr>))"
| reg_wait: "phase c = WaitReg \<Longrightarrow> 0 < rwSem c \<Longrightarrow> client_step E c (c\<lparr>rwSem := rwSem c - 1, phase := AtMenu\<rparr>)"
| command: "phase c = InMenu \<Longrightarrow> isMainMenuRunning c \<Longrightarrow> client_step E c (settle c (mainmenu_turn E c))"
| leave: "phase c = InMenu \<Longrightarrow> \<not> isMainMenuRunning c \<Longrightarrow> client_step E c (c\<lparr>phase := AtMenu\<rparr>)"
| receive: "alive c \<Longrightarrow> (\<forall>bytes. received = Some bytes \<longrightarrow> 0 < length bytes \<and> length bytes \<le> 1024) \<Longrightarrow>
    client_step E c (settle c (read_turn (ce_fp E) received c))"

inductive client_reach :: "client_env \<Rightarrow> client \<Rightarrow> client \<Rightarrow> bool" for E :: client_env and c0 :: client where
  start: "client_reach E c0 c0"
| step: "client_reach E c0 c \<Longrightarrow> client_step E c c' \<Longrightarrow> client_reach E c0 c'"

inductive_cases client_stepE: "client_step E c c'"

text \<open>The state after the connection has been made and the semaphore initialised.\<close>

definition client_start :: "string \<Rightarrow> client" where
  "client_start keyboard =
     \<lparr>cin = \<lparr>unread = keyboard, eofbit = False, failbit = False\<rparr>, isMainMenuRunning = False, isLoginSuccess = False,
      rwSem = 0, currentUser = User_default, currentUserFriendList = [], currentUserGroupList = [], outbox = [],
      screen = [], phase = AtMenu\<rparr>"

text \<open>
  \<open>main\<close> up to its loop: the arguments, the socket and the connection. \<open>connected ip port\<close>
  says whether \<open>connect\<close> succeeds; the port is cut to 16 bits.
\<close>

definition client_main :: "string list \<Rightarrow> bool \<Rightarrow> (string \<Rightarrow> int \<Rightarrow> bool) \<Rightarrow> string \<Rightarrow> client" where
  "client_main argv socket_ok connected keyboard =
     (let c = client_start keyboard in
      if length argv < 3 then
        (print_line ''command invalid ! example:./ChatClient 127.1 2222'' c)\<lparr>phase := Exited (- 1)\<rparr>
      else let ip = argv ! 1; port = atoi (argv ! 2) mod 2 ^ 16 in
        if \<not> socket_ok then (print_line ''Client socket create error!!'' c)\<lparr>phase := Exited (- 1)\<rparr>
        else let c1 = print_line (''Port:'' @ to_string port @ '' ip:'' @ ip) c in
          if \<not> connected ip port then (print_line ''Client connect server error!!'' c1)\<lparr>phase := Exited (- 1)\<rparr>
          else c1)"

end
