(* ===== verification/Json_Roundtrip.thy ===== *)
theory Json_Roundtrip
  imports Json_Text
begin

section \<open>JSON texts: round trip and well-formedness\<close>

text \<open>
  What printing and parsing give each other: a value whose strings are UTF-8 and which has no
  floating-point number is printed without an exception, and parsing the text gives it back, with
  every non-negative integer as \<open>number_unsigned\<close>; a value that was parsed is well-formed, so
  printing it again cannot throw. The proofs go over the tokens: the automaton of the serializer
  accepts exactly along the byte ranges of the lexer, and the stack machine of the parser rebuilds
  a value from its tokens. The locale \<open>json_codec\<close> is what the components rely on when they
  exchange messages.
\<close>

subsection \<open>UTF-8 strings\<close>

function utf8_ok :: "string \<Rightarrow> bool" where
  "utf8_ok [] = True"
| "utf8_ok (c # s) =
     (case utf8_ranges (byte c) of
        None \<Rightarrow> False
      | Some rs \<Rightarrow> (case next_byte_in_range rs s of None \<Rightarrow> False | Some (bs, r) \<Rightarrow> utf8_ok r))"
  by pat_completeness auto
termination
  by (relation "measure length") (auto dest!: next_byte_in_range_append)

declare utf8_ok.simps(2) [simp del]

lemma utf8_okE:
  assumes "utf8_ok (c # s)"
  obtains rs bs r where "utf8_ranges (byte c) = Some rs" "next_byte_in_range rs s = Some (bs, r)" "s = bs @ r" "utf8_ok r"
  using assms by (auto simp: utf8_ok.simps(2) dest: next_byte_in_range_append split: option.splits)

lemma next_byte_in_range_app: "next_byte_in_range rs s = Some (bs, r) \<Longrightarrow> next_byte_in_range rs (s @ t) = Some (bs, r @ t)"
  by (induction rs s arbitrary: bs rule: next_byte_in_range.induct) (auto split: if_splits)

lemma utf8_ok_append: "utf8_ok s \<Longrightarrow> utf8_ok t \<Longrightarrow> utf8_ok (s @ t)"
proof (induction s rule: utf8_ok.induct)
  case (2 c s)
  then obtain rs bs r where "utf8_ranges (byte c) = Some rs" "next_byte_in_range rs s = Some (bs, r)" "s = bs @ r" "utf8_ok r"
    by (auto elim: utf8_okE)
  with 2 next_byte_in_range_app [of rs s bs r t] show ?case by (simp add: utf8_ok.simps(2))
qed simp

text \<open>The classes of the bytes and the transitions the automaton takes on them.\<close>

lemma utf8d_type_classes:
  "b < 0x80 \<Longrightarrow> utf8d_type ! b = 0"
  "0x80 \<le> b \<Longrightarrow> b \<le> 0x8F \<Longrightarrow> utf8d_type ! b = 1"
  "0x90 \<le> b \<Longrightarrow> b \<le> 0x9F \<Longrightarrow> utf8d_type ! b = 9"
  "0xA0 \<le> b \<Longrightarrow> b \<le> 0xBF \<Longrightarrow> utf8d_type ! b = 7"
  "0xC2 \<le> b \<Longrightarrow> b \<le> 0xDF \<Longrightarrow> utf8d_type ! b = 2"
  "0xE1 \<le> b \<Longrightarrow> b \<le> 0xEC \<Longrightarrow> utf8d_type ! b = 3"
  by (auto simp: utf8d_type_def nth_append)

lemma utf8d_type_points:
  "utf8d_type ! 0xE0 = 10" "utf8d_type ! 0xED = 4" "utf8d_type ! 0xEE = 3" "utf8d_type ! 0xEF = 3"
  "utf8d_type ! 0xF0 = 11" "utf8d_type ! 0xF1 = 6" "utf8d_type ! 0xF2 = 6" "utf8d_type ! 0xF3 = 6" "utf8d_type ! 0xF4 = 5"
  by (simp_all add: utf8d_type_def nth_append)

lemma utf8d_state_points:
  "utf8d_state ! 0 = 0" "utf8d_state ! 2 = 2" "utf8d_state ! 3 = 3" "utf8d_state ! 4 = 5" "utf8d_state ! 5 = 8"
  "utf8d_state ! 6 = 7" "utf8d_state ! 10 = 4" "utf8d_state ! 11 = 6"
  "utf8d_state ! 33 = 0" "utf8d_state ! 39 = 0" "utf8d_state ! 41 = 0"
  "utf8d_state ! 49 = 2" "utf8d_state ! 55 = 2" "utf8d_state ! 57 = 2"
  "utf8d_state ! 71 = 2" "utf8d_state ! 81 = 2" "utf8d_state ! 89 = 2" "utf8d_state ! 103 = 3" "utf8d_state ! 105 = 3"
  "utf8d_state ! 113 = 3" "utf8d_state ! 119 = 3" "utf8d_state ! 121 = 3" "utf8d_state ! 129 = 3"
  by (simp_all add: utf8d_state_def)


lemma decode_ascii: "b < 0x80 \<Longrightarrow> decode 0 cp b = (0, b)"
  by (simp add: decode_def utf8d_type_classes utf8d_state_points)

lemma decode_lead:
  "0xC2 \<le> b \<Longrightarrow> b \<le> 0xDF \<Longrightarrow> decode 0 cp b = (2, b mod 64)"
  "0xE1 \<le> b \<and> b \<le> 0xEC \<or> 0xEE \<le> b \<and> b \<le> 0xEF \<Longrightarrow> decode 0 cp b = (3, b mod 32)"
  "decode 0 cp 0xE0 = (4, 0)" "decode 0 cp 0xED = (5, 13)" "decode 0 cp 0xF0 = (6, 0)" "decode 0 cp 0xF4 = (8, 4)"
  "0xF1 \<le> b \<Longrightarrow> b \<le> 0xF3 \<Longrightarrow> decode 0 cp b = (7, b mod 4)"
proof -
  show "decode 0 cp b = (3, b mod 32)" if "0xE1 \<le> b \<and> b \<le> 0xEC \<or> 0xEE \<le> b \<and> b \<le> 0xEF"
  proof -
    from that consider "0xE1 \<le> b \<and> b \<le> 0xEC" | "b = 0xEE" | "b = 0xEF" by linarith
    then show ?thesis
      by cases (simp_all add: decode_def utf8d_type_classes utf8d_type_points utf8d_state_points)
  qed
  show "decode 0 cp b = (7, b mod 4)" if "0xF1 \<le> b" "b \<le> 0xF3"
  proof -
    from that consider "b = 0xF1" | "b = 0xF2" | "b = 0xF3" by linarith
    then show ?thesis by cases (simp_all add: decode_def utf8d_type_points utf8d_state_points)
  qed
qed (simp_all add: decode_def utf8d_type_classes utf8d_type_points utf8d_state_points)

lemma decode_cont:
  assumes "0x80 \<le> b" and "b \<le> 0xBF"
  shows "decode 2 cp b = (0, b mod 64 + cp * 64)" "decode 3 cp b = (2, b mod 64 + cp * 64)"
    "0xA0 \<le> b \<Longrightarrow> decode 4 cp b = (2, b mod 64 + cp * 64)" "b \<le> 0x9F \<Longrightarrow> decode 5 cp b = (2, b mod 64 + cp * 64)"
    "0x90 \<le> b \<Longrightarrow> decode 6 cp b = (3, b mod 64 + cp * 64)" "decode 7 cp b = (3, b mod 64 + cp * 64)"
    "b \<le> 0x8F \<Longrightarrow> decode 8 cp b = (3, b mod 64 + cp * 64)"
proof -
  consider "b \<le> 0x8F" | "0x90 \<le> b \<and> b \<le> 0x9F" | "0xA0 \<le> b" by linarith
  then have "decode 2 cp b = (0, b mod 64 + cp * 64) \<and> decode 3 cp b = (2, b mod 64 + cp * 64) \<and>
      (0xA0 \<le> b \<longrightarrow> decode 4 cp b = (2, b mod 64 + cp * 64)) \<and> (b \<le> 0x9F \<longrightarrow> decode 5 cp b = (2, b mod 64 + cp * 64)) \<and>
      (0x90 \<le> b \<longrightarrow> decode 6 cp b = (3, b mod 64 + cp * 64)) \<and> decode 7 cp b = (3, b mod 64 + cp * 64) \<and>
      (b \<le> 0x8F \<longrightarrow> decode 8 cp b = (3, b mod 64 + cp * 64))"
    using assms by cases (simp_all add: decode_def utf8d_type_classes utf8d_state_points)
  then show "decode 2 cp b = (0, b mod 64 + cp * 64)" "decode 3 cp b = (2, b mod 64 + cp * 64)"
    "0xA0 \<le> b \<Longrightarrow> decode 4 cp b = (2, b mod 64 + cp * 64)" "b \<le> 0x9F \<Longrightarrow> decode 5 cp b = (2, b mod 64 + cp * 64)"
    "0x90 \<le> b \<Longrightarrow> decode 6 cp b = (3, b mod 64 + cp * 64)" "decode 7 cp b = (3, b mod 64 + cp * 64)"
    "b \<le> 0x8F \<Longrightarrow> decode 8 cp b = (3, b mod 64 + cp * 64)" by blast+
qed

text \<open>The code point of a sequence of several bytes is at least \<open>0x80\<close> and is not escaped.\<close>

lemma escape_copy: "0x80 \<le> cp \<Longrightarrow> escape cp c = [c]"
  by (simp add: escape_def)

lemma dump_escaped_from_0: "dump_escaped_from 0 cp s = dump_escaped s"
  by (cases s) (simp_all add: dump_escaped_def decode_def)

definition chunk_text :: "char \<Rightarrow> string \<Rightarrow> string" where
  "chunk_text c bs = (if bs = [] then escape (byte c) c else c # bs)"

lemma bindR_assoc: "bindR (bindR r f) g = bindR r (\<lambda>x. bindR (f x) g)"
  by (cases r) simp_all


lemma mod_offset: "k * m \<le> b \<Longrightarrow> b < k * m + m \<Longrightarrow> b mod m = b - k * m" for b k m :: nat
  by (intro mod_nat_eqI) auto

lemma lead_bounds:
  fixes b :: nat
  shows "0xC2 \<le> b \<Longrightarrow> b \<le> 0xDF \<Longrightarrow> 2 \<le> b mod 64"
    "0xE1 \<le> b \<and> b \<le> 0xEC \<or> 0xEE \<le> b \<and> b \<le> 0xEF \<Longrightarrow> 1 \<le> b mod 32"
    "0xF1 \<le> b \<Longrightarrow> b \<le> 0xF3 \<Longrightarrow> 1 \<le> b mod 4"
    "0xA0 \<le> b \<Longrightarrow> b \<le> 0xBF \<Longrightarrow> 32 \<le> b mod 64"
    "0x90 \<le> b \<Longrightarrow> b \<le> 0xBF \<Longrightarrow> 16 \<le> b mod 64"
  using mod_offset [of 3 64 b] mod_offset [of 7 32 b] mod_offset [of 60 4 b] mod_offset [of 2 64 b] by auto

lemma range1E:
  assumes "next_byte_in_range [(l1, h1)] s = Some (bs, r)"
  obtains d where "s = d # r" "bs = [d]" "l1 \<le> byte d" "byte d \<le> h1"
  using assms by (cases s) (auto split: if_splits)

lemma range2E:
  assumes "next_byte_in_range [(l1, h1), (l2, h2)] s = Some (bs, r)"
  obtains d e where "s = d # e # r" "bs = [d, e]" "l1 \<le> byte d" "byte d \<le> h1" "l2 \<le> byte e" "byte e \<le> h2"
  using assms by (cases s; cases "tl s") (auto split: if_splits)

lemma range3E:
  assumes "next_byte_in_range [(l1, h1), (l2, h2), (l3, h3)] s = Some (bs, r)"
  obtains d e f where "s = d # e # f # r" "bs = [d, e, f]" "l1 \<le> byte d" "byte d \<le> h1" "l2 \<le> byte e" "byte e \<le> h2"
    "l3 \<le> byte f" "byte f \<le> h3"
  using assms by (cases s; cases "tl s"; cases "tl (tl s)") (auto split: if_splits)

text \<open>A sequence whose first bytes lead the automaton to the accepting state is copied.\<close>

lemma dump_seq2:
  assumes "decode 0 0 (byte c) = (2, cp)" "2 \<le> cp" "0x80 \<le> byte d" "byte d \<le> 0xBF"
  shows "dump_escaped (c # d # r) = bindR (dump_escaped r) (\<lambda>t. Inr ([c, d] @ t))"
proof -
  have "128 \<le> byte d mod 64 + cp * 64" using assms(2) by linarith
  with assms show ?thesis
    by (simp add: dump_escaped_def [of "c # d # r"] decode_cont escape_copy dump_escaped_from_0 bindR_assoc)
qed

lemma dump_seq3:
  assumes "decode 0 0 (byte c) = (st, cp)" "decode st cp (byte d) = (2, cp')" "st \<notin> {0, 1}" "2 \<le> cp'" "0x80 \<le> byte e" "byte e \<le> 0xBF"
  shows "dump_escaped (c # d # e # r) = bindR (dump_escaped r) (\<lambda>t. Inr ([c, d, e] @ t))"
proof -
  have "128 \<le> byte e mod 64 + cp' * 64" using assms(4) by linarith
  with assms show ?thesis
    by (simp add: dump_escaped_def [of "c # d # e # r"] decode_cont escape_copy dump_escaped_from_0 bindR_assoc)
qed

lemma dump_seq4:
  assumes "decode 0 0 (byte c) = (st, cp)" "decode st cp (byte d) = (3, cp')" "st \<notin> {0, 1}" "2 \<le> cp'"
    "0x80 \<le> byte e" "byte e \<le> 0xBF" "0x80 \<le> byte f" "byte f \<le> 0xBF"
  shows "dump_escaped (c # d # e # f # r) = bindR (dump_escaped r) (\<lambda>t. Inr ([c, d, e, f] @ t))"
proof -
  have "128 \<le> byte e mod 64 + cp' * 64" using assms(4) by linarith
  then have "128 \<le> byte f mod 64 + (byte e mod 64 + cp' * 64) * 64"
    by (intro trans_le_add2 order_trans [OF _ mult_le_mono2 [of 1 64], of 128]) simp_all
  with assms show ?thesis
    by (simp add: dump_escaped_def [of "c # d # e # f # r"] decode_cont escape_copy dump_escaped_from_0 bindR_assoc)
qed

lemma utf8_ranges_cases:
  assumes "utf8_ranges b = Some rs"
  obtains "b < 0x80" "rs = []"
  | "0xC2 \<le> b" "b \<le> 0xDF" "rs = [(0x80, 0xBF)]"
  | "b = 0xE0" "rs = [(0xA0, 0xBF), (0x80, 0xBF)]"
  | "0xE1 \<le> b \<and> b \<le> 0xEC \<or> 0xEE \<le> b \<and> b \<le> 0xEF" "rs = [(0x80, 0xBF), (0x80, 0xBF)]"
  | "b = 0xED" "rs = [(0x80, 0x9F), (0x80, 0xBF)]"
  | "b = 0xF0" "rs = [(0x90, 0xBF), (0x80, 0xBF), (0x80, 0xBF)]"
  | "0xF1 \<le> b" "b \<le> 0xF3" "rs = [(0x80, 0xBF), (0x80, 0xBF), (0x80, 0xBF)]"
  | "b = 0xF4" "rs = [(0x80, 0x8F), (0x80, 0xBF), (0x80, 0xBF)]"
  using assms by (auto simp: utf8_ranges_def split: if_splits)

lemma dump_escaped_chunk:
  assumes "utf8_ranges (byte c) = Some rs" and "next_byte_in_range rs s = Some (bs, r)"
  shows "dump_escaped (c # s) = bindR (dump_escaped r) (\<lambda>t. Inr (chunk_text c bs @ t))"
  using assms(1)
proof (cases rule: utf8_ranges_cases)
  case 1
  with assms(2) have "bs = []" "s = r" by simp_all
  with 1 show ?thesis
    by (simp add: dump_escaped_def [of "c # r"] decode_ascii dump_escaped_from_0 chunk_text_def)
next
  case 2
  from assms(2) [unfolded 2(3)] obtain d where "s = d # r" "bs = [d]" "0x80 \<le> byte d" "byte d \<le> 0xBF" by (rule range1E)
  with dump_seq2 [OF decode_lead(1) [OF 2(1,2)] lead_bounds(1) [OF 2(1,2)]] show ?thesis by (simp add: chunk_text_def)
next
  case 3
  from assms(2) [unfolded 3(2)] obtain d e where "s = d # e # r" "bs = [d, e]" and d: "0xA0 \<le> byte d" "byte d \<le> 0xBF" and
    "0x80 \<le> byte e" "byte e \<le> 0xBF" by (rule range2E)
  with dump_seq3 [of c 4 0 d "byte d mod 64" e] decode_lead(3) decode_cont(3) [of "byte d" 0] lead_bounds(4) [OF d] 3 show ?thesis
    by (simp add: chunk_text_def)
next
  case 4
  from assms(2) [unfolded 4(2)] obtain d e where "s = d # e # r" "bs = [d, e]" and d: "0x80 \<le> byte d" "byte d \<le> 0xBF" and
    "0x80 \<le> byte e" "byte e \<le> 0xBF" by (rule range2E)
  with dump_seq3 [OF decode_lead(2) [OF 4(1)] decode_cont(2) [OF d], of e r] lead_bounds(2) [OF 4(1)] show ?thesis
    by (simp add: chunk_text_def)
next
  case 5
  from assms(2) [unfolded 5(2)] obtain d e where "s = d # e # r" "bs = [d, e]" and d: "0x80 \<le> byte d" "byte d \<le> 0x9F" and
    "0x80 \<le> byte e" "byte e \<le> 0xBF" by (rule range2E)
  with dump_seq3 [of c 5 13 d "byte d mod 64 + 13 * 64" e] decode_lead(4) decode_cont(4) [of "byte d" 13] 5 show ?thesis
    by (simp add: chunk_text_def)
next
  case 6
  from assms(2) [unfolded 6(2)] obtain d e f where "s = d # e # f # r" "bs = [d, e, f]" and d: "0x90 \<le> byte d" "byte d \<le> 0xBF" and
    "0x80 \<le> byte e" "byte e \<le> 0xBF" "0x80 \<le> byte f" "byte f \<le> 0xBF" by (rule range3E)
  with dump_seq4 [of c 6 0 d "byte d mod 64" e f] decode_lead(5) decode_cont(5) [of "byte d" 0] lead_bounds(5) [OF d] 6 show ?thesis
    by (simp add: chunk_text_def)
next
  case 7
  from assms(2) [unfolded 7(3)] obtain d e f where "s = d # e # f # r" "bs = [d, e, f]" and d: "0x80 \<le> byte d" "byte d \<le> 0xBF" and
    "0x80 \<le> byte e" "byte e \<le> 0xBF" "0x80 \<le> byte f" "byte f \<le> 0xBF" by (rule range3E)
  with dump_seq4 [OF decode_lead(7) [OF 7(1,2)] decode_cont(6) [OF d], of e f r] lead_bounds(3) [OF 7(1,2)] show ?thesis
    by (simp add: chunk_text_def)
next
  case 8
  from assms(2) [unfolded 8(2)] obtain d e f where "s = d # e # f # r" "bs = [d, e, f]" and d: "0x80 \<le> byte d" "byte d \<le> 0x8F" and
    "0x80 \<le> byte e" "byte e \<le> 0xBF" "0x80 \<le> byte f" "byte f \<le> 0xBF" by (rule range3E)
  with dump_seq4 [of c 8 4 d "byte d mod 64 + 4 * 64" e f] decode_lead(6) decode_cont(7) [of "byte d" 4] 8 show ?thesis
    by (simp add: chunk_text_def)
qed

lemma dump_escaped_utf8: "utf8_ok s \<Longrightarrow> \<exists>t. dump_escaped s = Inr t"
proof (induction s rule: utf8_ok.induct)
  case 1
  then show ?case by (simp add: dump_escaped_def)
next
  case (2 c s)
  then obtain rs bs r where u: "utf8_ranges (byte c) = Some rs" "next_byte_in_range rs s = Some (bs, r)" "utf8_ok r"
    by (auto elim: utf8_okE)
  with 2 obtain t where "dump_escaped r = Inr t" by blast
  with dump_escaped_chunk [OF u(1,2)] show ?case by simp
qed


subsection \<open>Scanning what was printed\<close>

lemma scan_string_added:
  assumes "scan_char s = Added bs r"
  shows "scan_string buf s = scan_string (buf @ bs) r"
  by (subst scan_string.simps) (simp add: assms)

lemma hex_value_hex_char: "d < 16 \<Longrightarrow> hex_value (hex_char d) = Some d"
  by (auto simp: hex_value_def hex_char_def)

lemma scan_u_escape:
  assumes "cp < 0x20"
  shows "scan_char (u_escape cp @ s) = Added [char_of cp] s"
proof -
  have "cp div 4096 mod 16 = 0" "cp div 256 mod 16 = 0" and
    v: "cp div 16 mod 16 * 16 + cp mod 16 = cp" using assms by simp_all
  then have "get_codepoint (hex_char (cp div 4096 mod 16) # hex_char (cp div 256 mod 16) #
      hex_char (cp div 16 mod 16) # hex_char (cp mod 16) # s) = Some (cp, s)"
    by (simp add: hex_value_hex_char)
  with assms show ?thesis by (simp add: u_escape_def scan_unicode_def codepoint_bytes_def)
qed

lemma byte_eqD: "byte c = byte d \<Longrightarrow> c = d"
  by simp

lemma byte_char:
  "byte c = 8 \<Longrightarrow> c = CHR 0x08" "byte c = 9 \<Longrightarrow> c = CHR 0x09" "byte c = 10 \<Longrightarrow> c = CHR 0x0A" "byte c = 12 \<Longrightarrow> c = CHR 0x0C"
  "byte c = 13 \<Longrightarrow> c = CHR 0x0D" "byte c = 34 \<Longrightarrow> c = CHR 0x22" "byte c = 92 \<Longrightarrow> c = CHR 0x5C"
  by (rule byte_eqD, simp)+

lemma scan_chunk:
  assumes "utf8_ranges (byte c) = Some rs" and "next_byte_in_range rs s = Some (bs, r)"
  shows "scan_char (chunk_text c bs @ t) = Added (c # bs) t"
proof (cases "bs = []")
  case False
  then have ne: "rs \<noteq> []" using assms(2) by (cases rs) auto
  from assms(1) have "0xC2 \<le> byte c" by (cases rule: utf8_ranges_cases) (use ne in auto)
  moreover have "next_byte_in_range rs (bs @ t) = Some (bs, t)" using assms(2)
    by (induction rs s arbitrary: bs rule: next_byte_in_range.induct) (auto split: if_splits)
  ultimately show ?thesis using False assms(1) by (auto simp: chunk_text_def)
next
  case True
  then have e: "rs = []" using assms(2) by (cases rs; cases s) (auto split: if_splits)
  from assms(1) have a: "byte c < 0x80" by (cases rule: utf8_ranges_cases) (use e in auto)
  show ?thesis
  proof (cases "byte c < 0x20 \<and> byte c \<notin> {0x08, 0x09, 0x0A, 0x0C, 0x0D}")
    case True
    with \<open>bs = []\<close> scan_u_escape [of "byte c" t] show ?thesis by (simp add: chunk_text_def escape_def)
  next
    case False
    have e: "c = CHR 0x08 \<or> c = CHR 0x09 \<or> c = CHR 0x0A \<or> c = CHR 0x0C \<or> c = CHR 0x0D \<or> c = CHR 0x22 \<or> c = CHR 0x5C \<or>
       (c \<noteq> CHR 0x22 \<and> c \<noteq> CHR 0x5C \<and> \<not> byte c < 0x20 \<and> escape (byte c) c = [c])"
      using False byte_char [of c] by (auto simp: escape_def)
    from e \<open>bs = []\<close> a show ?thesis
      by (elim disjE) (auto simp: chunk_text_def escape_def utf8_ranges_def)
  qed
qed

lemma scan_string_dumped:
  "utf8_ok s \<Longrightarrow> dump_escaped s = Inr t \<Longrightarrow> scan_string buf (t @ CHR 0x22 # u) = Some (buf @ s, u)"
proof (induction s arbitrary: t buf rule: utf8_ok.induct)
  case 1
  then show ?case by (simp add: dump_escaped_def) (subst scan_string.simps, simp)
next
  case (2 c s)
  then obtain rs bs r where r: "utf8_ranges (byte c) = Some rs" "next_byte_in_range rs s = Some (bs, r)" "s = bs @ r" "utf8_ok r"
    by (auto elim: utf8_okE)
  with "2.prems"(2) obtain t' where t: "dump_escaped r = Inr t'" "t = chunk_text c bs @ t'"
    by (auto simp: dump_escaped_chunk bindR_Inr_iff)
  have "scan_string buf (t @ CHR 0x22 # u) = scan_string (buf @ c # bs) (t' @ CHR 0x22 # u)"
    unfolding t(2) append_assoc by (rule scan_string_added [OF scan_chunk [OF r(1,2)]])
  with "2.IH" [OF r(1) r(2) refl r(4) t(1)] r(3) show ?case by simp
qed


text \<open>The tokens of a value, and the value they stand for: a non-negative integer is read back
  as \<open>number_unsigned\<close>.\<close>

fun json_norm :: "json \<Rightarrow> json" where
  "json_norm (JInt i) = (if 0 \<le> i then JUint (nat i) else JInt i)"
| "json_norm (JArr js) = JArr (map json_norm js)"
| "json_norm (JObj kvs) = JObj (map (\<lambda>(k, j). (k, json_norm j)) kvs)"
| "json_norm j = j"

fun json_toks :: "json \<Rightarrow> token list"
  and elems_toks :: "json list \<Rightarrow> token list"
  and members_toks :: "(string \<times> json) list \<Rightarrow> token list" where
  "json_toks JNull = [TNull]"
| "json_toks (JBool b) = [if b then TTrue else TFalse]"
| "json_toks (JInt i) = [if 0 \<le> i then TUnsigned (nat i) else TInteger i]"
| "json_toks (JUint n) = [TUnsigned n]"
| "json_toks (JFloat m e) = [TFloat (Some (m, e))]"
| "json_toks (JStr s) = [TString s]"
| "json_toks (JArr js) = TBeginArray # elems_toks js @ [TEndArray]"
| "json_toks (JObj kvs) = TBeginObject # members_toks kvs @ [TEndObject]"
| "elems_toks [] = []"
| "elems_toks [j] = json_toks j"
| "elems_toks (j # k # js) = json_toks j @ TSep # elems_toks (k # js)"
| "members_toks [] = []"
| "members_toks [(k, j)] = TString k # TName # json_toks j"
| "members_toks ((k, j) # e # kvs) = TString k # TName # json_toks j @ TSep # members_toks (e # kvs)"

text \<open>
  Well-formed values: strings and keys are UTF-8, objects are sorted, integers are in the range of
  their types (printing \<open>-2 ^ 63\<close> takes the absolute value of an \<open>intmax_t\<close> and is
  undefined). \<open>json_no_float\<close>: no number is a floating-point number.
\<close>

fun json_typed :: "json \<Rightarrow> bool" where
  "json_typed (JInt i) \<longleftrightarrow> - (2 ^ 63) \<le> i \<and> i < 2 ^ 63"
| "json_typed (JUint n) \<longleftrightarrow> int n < 2 ^ 64"
| "json_typed (JStr s) \<longleftrightarrow> utf8_ok s"
| "json_typed (JArr js) \<longleftrightarrow> (\<forall>j \<in> set js. json_typed j)"
| "json_typed (JObj kvs) \<longleftrightarrow> obj_wf kvs \<and> (\<forall>e \<in> set kvs. utf8_ok (fst e) \<and> json_typed (snd e))"
| "json_typed _ \<longleftrightarrow> True"

fun json_no_float :: "json \<Rightarrow> bool" where
  "json_no_float (JFloat m e) \<longleftrightarrow> False"
| "json_no_float (JArr js) \<longleftrightarrow> (\<forall>j \<in> set js. json_no_float j)"
| "json_no_float (JObj kvs) \<longleftrightarrow> (\<forall>e \<in> set kvs. json_no_float (snd e))"
| "json_no_float _ \<longleftrightarrow> True"


lemma tokens_step: "scan F s = (t, r) \<Longrightarrow> t \<noteq> TEnd \<Longrightarrow> t \<noteq> TError \<Longrightarrow> tokens F s = t # tokens F r"
  by (subst tokens.simps) simp

text \<open>What may follow a number without being read as a part of it.\<close>

definition number_ends :: "string \<Rightarrow> bool" where
  "number_ends s \<longleftrightarrow> (case s of [] \<Rightarrow> True | c # r \<Rightarrow> \<not> is_digit c \<and> c \<noteq> CHR ''.'' \<and> c \<noteq> CHR ''e'' \<and> c \<noteq> CHR ''E'')"

lemma nat_digits_Cons: "\<exists>c ds. nat_digits n = c # ds \<and> is_digit c \<and> (\<forall>d \<in> set ds. is_digit d)"
proof (cases "nat_digits n")
  case Nil
  then show ?thesis by (subst (asm) nat_digits.simps) (simp split: if_splits)
next
  case (Cons c ds)
  then show ?thesis using nat_digits_chars [of _ n] by (auto simp: is_digit_def)
qed

lemma nat_digits_hd: "0 < n \<Longrightarrow> hd (nat_digits n) \<noteq> CHR ''0''"
proof (induction n rule: nat_digits.induct)
  case (1 n)
  show ?case
  proof (cases "n < 10")
    case True
    with "1.prems" show ?thesis
      by (auto simp: nat_digits.simps [of n] digit_char_def dest: arg_cong [where f = byte])
  next
    case False
    with 1 have "hd (nat_digits (n div 10)) \<noteq> CHR ''0''" by simp
    with False nat_digits_Cons [of "n div 10"] show ?thesis by (auto simp: nat_digits.simps [of n])
  qed
qed

lemma scan_zero_done: "number_ends s \<Longrightarrow> scan_number_zero F ty buf s = scan_number_done F ty buf s"
  by (cases s) (auto simp: scan_number_zero_def number_ends_def)

lemma span_digits:
  assumes "\<forall>d \<in> set ds. is_digit d" and "number_ends s"
  shows "takeWhile is_digit (ds @ s) = ds" "dropWhile is_digit (ds @ s) = s"
  using assms by (cases s; simp add: number_ends_def)+

lemma scan_any1_done:
  "\<forall>d \<in> set ds. is_digit d \<Longrightarrow> number_ends s \<Longrightarrow>
    scan_number_any1 F ty buf (ds @ s) = scan_number_done F ty (buf @ ds) s"
  unfolding scan_number_any1_def by (simp only: span_digits scan_zero_done)

lemma scan_digits:
  assumes "nat_digits n = c # ds" and "number_ends s"
  shows "(if c = CHR ''0'' then scan_number_zero F ty (buf @ [c]) (ds @ s) else scan_number_any1 F ty (buf @ [c]) (ds @ s)) =
    scan_number_done F ty (buf @ nat_digits n) s"
proof (cases "n = 0")
  case True
  have "digit_char 0 = CHR ''0''" by (rule byte_eqD) (simp add: digit_char_def)
  then have "nat_digits 0 = [CHR ''0'']" by (simp add: nat_digits.simps)
  with True assms show ?thesis by (simp add: scan_zero_done)
next
  case False
  with nat_digits_hd [of n] assms(1) have "c \<noteq> CHR ''0''" by simp
  moreover have "\<forall>d \<in> set ds. is_digit d" using nat_digits_Cons [of n] assms(1) by simp
  ultimately show ?thesis using assms by (simp add: scan_any1_done)
qed

lemma digit_not_special:
  assumes "is_digit c"
  shows "\<not> is_space c" "c \<notin> {CHR 0x5B, CHR 0x5D, CHR 0x7B, CHR 0x7D, CHR 0x3A, CHR 0x2C, CHR ''t'', CHR ''f'', CHR ''n'', CHR 0x22, CHR ''-''}"
  using assms by (auto simp: is_digit_def is_space_def)

lemma scan_unsigned:
  assumes "int n < 2 ^ 64" and "number_ends s"
  shows "scan F (nat_digits n @ s) = (TUnsigned n, s)"
proof -
  obtain c ds where d: "nat_digits n = c # ds" "is_digit c" using nat_digits_Cons by blast
  have "scan F (nat_digits n @ s) = scan_number F c (ds @ s)"
    using d digit_not_special [OF d(2)] by (simp add: scan_def)
  also have "\<dots> = scan_number_done F value_unsigned (nat_digits n) s"
    using scan_digits [OF d(1) assms(2), of F value_unsigned "[]"] digit_not_special(2) [OF d(2)]
    by (auto simp: scan_number_def split: if_splits)
  finally show ?thesis using assms(1) by (simp add: scan_number_done_def digits_value_nat_digits)
qed

lemma scan_negative:
  assumes "int n \<le> 2 ^ 63" and "number_ends s"
  shows "scan F (CHR ''-'' # nat_digits n @ s) = (TInteger (- int n), s)"
proof -
  obtain c ds where d: "nat_digits n = c # ds" "is_digit c" using nat_digits_Cons by blast
  have "scan F (CHR ''-'' # nat_digits n @ s) = scan_number_minus F ''-'' (c # ds @ s)"
    using d by (simp add: scan_def is_space_def scan_number_def)
  also have "\<dots> = scan_number_done F value_integer (CHR ''-'' # nat_digits n) s"
    using scan_digits [OF d(1) assms(2), of F value_integer "''-''"] d(2)
    by (auto simp: scan_number_minus_def split: if_splits)
  finally show ?thesis using assms(1) by (simp add: scan_number_done_def digits_value_nat_digits)
qed


lemma number_ends_sep [simp]:
  "number_ends (CHR 0x2C # s)" "number_ends (CHR 0x5D # s)" "number_ends (CHR 0x7D # s)" "number_ends []" "number_ends (CHR 0x00 # s)"
  "number_ends (CHR 0x7B # s)"
  by (simp_all add: number_ends_def is_digit_def)

lemma scan_structural:
  "scan F (CHR 0x5B # r) = (TBeginArray, r)" "scan F (CHR 0x5D # r) = (TEndArray, r)"
  "scan F (CHR 0x7B # r) = (TBeginObject, r)" "scan F (CHR 0x7D # r) = (TEndObject, r)"
  "scan F (CHR 0x3A # r) = (TName, r)" "scan F (CHR 0x2C # r) = (TSep, r)"
  "scan F (''true'' @ r) = (TTrue, r)" "scan F (''false'' @ r) = (TFalse, r)" "scan F (''null'' @ r) = (TNull, r)"
  "scan F [] = (TEnd, [])" "scan F (CHR 0x00 # r) = (TEnd, r)"
  by (simp_all add: scan_def is_space_def is_digit_def)

lemma tokens_structural:
  "tokens F (CHR 0x5B # r) = TBeginArray # tokens F r" "tokens F (CHR 0x5D # r) = TEndArray # tokens F r"
  "tokens F (CHR 0x7B # r) = TBeginObject # tokens F r" "tokens F (CHR 0x7D # r) = TEndObject # tokens F r"
  "tokens F (CHR 0x3A # r) = TName # tokens F r" "tokens F (CHR 0x2C # r) = TSep # tokens F r"
  "tokens F (''true'' @ r) = TTrue # tokens F r" "tokens F (''false'' @ r) = TFalse # tokens F r" "tokens F (''null'' @ r) = TNull # tokens F r"
  by (rule tokens_step; simp add: scan_structural del: append.simps)+

lemma tokens_end: "tokens F [] = [TEnd]" "tokens F (CHR 0x00 # r) = [TEnd]"
  by (subst tokens.simps, simp add: scan_structural)+

lemma tokens_string:
  assumes "utf8_ok s" and "dump_string s = Inr t"
  shows "tokens F (t @ r) = TString s # tokens F r"
proof (rule tokens_step)
  obtain u where u: "dump_escaped s = Inr u" "t = CHR 0x22 # u @ [CHR 0x22]"
    using assms(2) by (auto simp: dump_string_def bindR_Inr_iff)
  with scan_string_dumped [OF assms(1) u(1), of "[]" r] show "scan F (t @ r) = (TString s, r)"
    by (simp add: scan_def is_space_def)
qed simp_all

lemma tokens_dump:
  "json_dump F j = Inr t \<Longrightarrow> json_typed j \<Longrightarrow> json_no_float j \<Longrightarrow> number_ends r \<Longrightarrow>
    tokens F (t @ r) = json_toks j @ tokens F r"
  "dump_elements F js = Inr t \<Longrightarrow> \<forall>j \<in> set js. json_typed j \<and> json_no_float j \<Longrightarrow> number_ends r \<Longrightarrow>
    tokens F (t @ r) = elems_toks js @ tokens F r"
  "dump_members F kvs = Inr t \<Longrightarrow> \<forall>e \<in> set kvs. utf8_ok (fst e) \<and> json_typed (snd e) \<and> json_no_float (snd e) \<Longrightarrow> number_ends r \<Longrightarrow>
    tokens F (t @ r) = members_toks kvs @ tokens F r"
proof (induction F j and F js and F kvs arbitrary: t r and t r and t r rule: json_dump_dump_elements_dump_members.induct)
  case (1 F kvs)
  show ?case
  proof (cases "kvs = []")
    case True
    with 1 show ?thesis by (auto simp: tokens_structural)
  next
    case False
    with "1.prems" obtain u where u: "dump_members F kvs = Inr u" "t = CHR 0x7B # u @ [CHR 0x7D]"
      by (auto simp: bindR_Inr_iff)
    with "1.IH" [OF False u(1), of "CHR 0x7D # r"] "1.prems" show ?thesis
      by (simp add: tokens_structural)
  qed
next
  case (2 F js)
  show ?case
  proof (cases "js = []")
    case True
    with 2 show ?thesis by (auto simp: tokens_structural)
  next
    case False
    with "2.prems" obtain u where u: "dump_elements F js = Inr u" "t = CHR 0x5B # u @ [CHR 0x5D]"
      by (auto simp: bindR_Inr_iff)
    with "2.IH" [OF False u(1), of "CHR 0x5D # r"] "2.prems" show ?thesis
      by (simp add: tokens_structural)
  qed
next
  case (3 F s)
  then show ?case by (simp add: tokens_string)
next
  case (4 F b)
  then show ?case using tokens_structural(7,8) [of F r] by (cases b) auto
next
  case (5 F i)
  show ?case
  proof (cases "0 \<le> i")
    case True
    with 5 have "scan F (t @ r) = (TUnsigned (nat i), r)"
      using scan_unsigned [of "nat i" r F] by (auto simp: to_string_def)
    with True show ?thesis by (simp add: tokens_step)
  next
    case False
    with 5 have "scan F (t @ r) = (TInteger i, r)"
      using scan_negative [of "nat (- i)" r F] by (auto simp: to_string_def)
    with False show ?thesis by (simp add: tokens_step)
  qed
next
  case (6 F n)
  then have "scan F (t @ r) = (TUnsigned n, r)" using scan_unsigned [of n r F] by auto
  then show ?case by (simp add: tokens_step)
next
  case (8 F)
  then show ?case using tokens_structural(9) [of F r] by auto
next
  case (11 F j k js)
  then obtain u v where u: "json_dump F j = Inr u" "dump_elements F (k # js) = Inr v" "t = u @ CHR 0x2C # v"
    by (auto simp: bindR_Inr_iff)
  with "11.IH"(1) [OF u(1), of "CHR 0x2C # v @ r"] "11.IH"(2) [OF u(2), of r] "11.prems" show ?case
    by (simp add: tokens_structural)
next
  case (13 F k j)
  then obtain s u where u: "dump_string k = Inr s" "json_dump F j = Inr u" "t = s @ CHR 0x3A # u"
    by (auto simp: bindR_Inr_iff)
  with "13.IH" [OF u(2), of r] "13.prems" tokens_string [OF _ u(1), of F "CHR 0x3A # u @ r"] show ?case
    by (simp add: tokens_structural)
next
  case (14 F k j e kvs)
  then obtain s u v where u: "dump_string k = Inr s" "json_dump F j = Inr u" "dump_members F (e # kvs) = Inr v"
    "t = s @ CHR 0x3A # u @ CHR 0x2C # v"
    by (auto simp: bindR_Inr_iff)
  with "14.IH"(1) [OF u(2), of "CHR 0x2C # v @ r"] "14.IH"(2) [OF u(3), of r] "14.prems"
    tokens_string [OF _ u(1), of F "CHR 0x3A # u @ CHR 0x2C # v @ r"] show ?case
    by (simp add: tokens_structural)
qed simp_all


subsection \<open>Parsing the tokens of a value\<close>

lemma obj_set_last:
  "sorted_wrt (<) (map fst kvs @ [k]) \<Longrightarrow> obj_set k v kvs = kvs @ [(k, v)]"
  by (induction kvs) (auto simp: sorted_wrt_append)

lemma json_toks_hd: "\<exists>t ts. json_toks j = t # ts \<and> t \<noteq> TEndArray"
  by (cases j) auto

lemma parse_begin_array:
  "t \<noteq> TEndArray \<Longrightarrow> parse_value states (TBeginArray # t # ts) = parse_value (FArr [] # states) (t # ts)"
  by (cases t) simp_all

lemma parse_toks:
  "json_typed j \<Longrightarrow> parse_value states (json_toks j @ ts) = parse_state states (json_norm j) ts"
  "js \<noteq> [] \<Longrightarrow> \<forall>j \<in> set js. json_typed j \<Longrightarrow>
    parse_value (FArr vs # states) (elems_toks js @ TEndArray # ts) = parse_state states (JArr (vs @ map json_norm js)) ts"
  "kvs \<noteq> [] \<Longrightarrow> \<forall>e \<in> set kvs. json_typed (snd e) \<Longrightarrow> sorted_wrt (<) (map fst (acc @ kvs)) \<Longrightarrow>
    \<exists>k us. members_toks kvs = TString k # TName # us \<and>
      parse_value (FObj acc k # states) (us @ TEndObject # ts) =
        parse_state states (JObj (acc @ map (\<lambda>(k, j). (k, json_norm j)) kvs)) ts"
proof (induction j and js and kvs arbitrary: states ts and vs states ts and acc states ts rule: json_toks_elems_toks_members_toks.induct)
  case (7 js)
  show ?case
  proof (cases js)
    case Nil
    then show ?thesis by simp
  next
    case (Cons j js')
    obtain t us where t: "elems_toks js = t # us" "t \<noteq> TEndArray"
      using json_toks_hd [of j] Cons by (cases js') auto
    have "parse_value states (json_toks (JArr js) @ ts) = parse_value (FArr [] # states) (elems_toks js @ TEndArray # ts)"
      using t by (simp add: parse_begin_array del: parse_value.simps)
    also have "\<dots> = parse_state states (JArr (map json_norm js)) ts"
      using "7.IH" [of "[]" states ts] "7.prems" Cons by (simp del: parse_value.simps)
    finally show ?thesis by simp
  qed
next
  case (8 kvs)
  show ?case
  proof (cases "kvs = []")
    case False
    from "8.IH" [OF False, of "[]" states ts] "8.prems" obtain k us where "members_toks kvs = TString k # TName # us"
      "parse_value (FObj [] k # states) (us @ TEndObject # ts) = parse_state states (JObj (map (\<lambda>(k, j). (k, json_norm j)) kvs)) ts"
      by (auto simp: obj_wf_def)
    then show ?thesis by (simp del: parse_value.simps add: parse_value.simps(2) [of states TBeginObject])
  qed simp
next
  case (11 j k js)
  then show ?case by simp
next
  case (13 k j)
  then show ?case by (simp add: obj_set_last)
next
  case (14 k j e kvs)
  from "14.IH"(2) [of "acc @ [(k, json_norm j)]" states ts] "14.prems" obtain k' us where k': "members_toks (e # kvs) = TString k' # TName # us"
    "parse_value (FObj (acc @ [(k, json_norm j)]) k' # states) (us @ TEndObject # ts) =
       parse_state states (JObj (acc @ [(k, json_norm j)] @ map (\<lambda>(k, j). (k, json_norm j)) (e # kvs))) ts"
    by auto
  have "obj_set k (json_norm j) acc = acc @ [(k, json_norm j)]"
    using "14.prems"(3) by (intro obj_set_last) (simp add: sorted_wrt_append)
  with k' "14.IH"(1) [of "FObj acc k # states" "TSep # members_toks (e # kvs) @ TEndObject # ts"] "14.prems" show ?case
    by (simp del: parse_value.simps)
qed simp_all


subsection \<open>Round trip\<close>

lemma dump_string_ok: "utf8_ok s \<Longrightarrow> \<exists>t. dump_string s = Inr t"
  using dump_escaped_utf8 [of s] by (auto simp: dump_string_def)

lemma json_dump_typed:
  "json_typed j \<Longrightarrow> \<exists>t. json_dump F j = Inr t"
  "\<forall>j \<in> set js. json_typed j \<Longrightarrow> \<exists>t. dump_elements F js = Inr t"
  "\<forall>e \<in> set kvs. utf8_ok (fst e) \<and> json_typed (snd e) \<Longrightarrow> \<exists>t. dump_members F kvs = Inr t"
proof (induction F j and F js and F kvs rule: json_dump_dump_elements_dump_members.induct)
  case (11 F j k js)
  then obtain t u where "json_dump F j = Inr t" "dump_elements F (k # js) = Inr u" by auto
  then show ?case by simp
next
  case (13 F k j)
  then obtain s t where "dump_string k = Inr s" "json_dump F j = Inr t" using dump_string_ok [of k] by auto
  then show ?case by simp
next
  case (14 F k j e kvs)
  then obtain s t u where "dump_string k = Inr s" "json_dump F j = Inr t" "dump_members F (e # kvs) = Inr u"
    using dump_string_ok [of k] by auto
  then show ?case by simp
qed (auto simp: dump_string_ok)

lemma digits_first: "nat_digits n \<noteq> [] \<and> byte (hd (nat_digits n)) < 0x80"
  using nat_digits_Cons [of n] by (auto simp: is_digit_def)

lemma json_dump_first:
  assumes "json_dump F j = Inr t" and "json_no_float j"
  shows "t \<noteq> [] \<and> byte (hd t) < 0x80"
proof (cases j)
  case JNull
  with assms show ?thesis by auto
next
  case (JBool b)
  with assms show ?thesis by (cases b) auto
next
  case (JInt i)
  then have "t = to_string i" using assms(1) by simp
  with digits_first [of "nat i"] show ?thesis by (cases "i < 0") (simp_all add: to_string_def)
next
  case (JUint n)
  with assms(1) digits_first [of n] show ?thesis by simp
next
  case (JFloat m e)
  with assms(2) show ?thesis by simp
next
  case (JStr s)
  with assms(1) show ?thesis by (auto simp: bindR_Inr_iff dump_string_def)
next
  case (JArr js)
  with assms(1) show ?thesis by (cases "js = []") (auto simp: bindR_Inr_iff)
next
  case (JObj kvs)
  with assms(1) show ?thesis by (cases "kvs = []") (auto simp: bindR_Inr_iff)
qed

lemma skip_bom_dumped:
  assumes "json_dump F j = Inr t" and "json_no_float j"
  shows "skip_bom (t @ r) = Some (t @ r)"
  using json_dump_first [OF assms] by (cases t) (auto simp: skip_bom_def)

text \<open>A printed value followed by anything that cannot continue a number.\<close>

lemma json_parse_dumped:
  assumes "json_dump F j = Inr t" and "json_typed j" and "json_no_float j" and "number_ends r"
  shows "json_parse F (t @ r) = (case tokens F r of TEnd # ts \<Rightarrow> Some (json_norm j) | _ \<Rightarrow> None)"
  using tokens_dump(1) [OF assms] parse_toks(1) [OF assms(2), of "[]" "tokens F r"]
  by (simp add: json_parse_def skip_bom_dumped [OF assms(1,3)])

lemma json_roundtrip:
  assumes "json_typed j" and "json_no_float j" and "json_dump F j = Inr t"
  shows "json_parse F t = Some (json_norm j)"
  using json_parse_dumped [OF assms(3,1,2), of "[]"] by (simp add: tokens_end)


subsection \<open>Parsed values are well-formed\<close>

lemma utf8_ok_ascii: "byte c < 0x80 \<Longrightarrow> utf8_ok [c]"
  by (simp add: utf8_ok.simps(2) utf8_ranges_def)

lemma utf8_ok_chunk:
  assumes "utf8_ranges (byte c) = Some rs" and "next_byte_in_range rs s = Some (bs, r)"
  shows "utf8_ok (c # bs)"
proof -
  have "next_byte_in_range rs bs = Some (bs, [])" using assms(2)
    by (induction rs s arbitrary: bs rule: next_byte_in_range.induct) (auto split: if_splits)
  with assms(1) show ?thesis by (simp add: utf8_ok.simps(2))
qed

lemma utf8_ok_bytes:
  assumes "utf8_ranges b = Some rs" and "b < 256" and "\<forall>x \<in> set bs. x < 256"
    and "list_all2 (\<lambda>x (lo, hi). lo \<le> x \<and> x \<le> hi) bs rs"
  shows "utf8_ok (map char_of (b # bs))"
proof -
  have "next_byte_in_range rs (map char_of bs) = Some (map char_of bs, [])"
    using assms(4,3) by (induction bs rs rule: list_all2_induct) auto
  with assms(1,2) show ?thesis by (simp add: utf8_ok.simps(2))
qed

lemma codepoint_bytes_utf8:
  assumes "cp < 0x110000" and "\<not> (0xD800 \<le> cp \<and> cp \<le> 0xDFFF)"
  shows "utf8_ok (codepoint_bytes cp)"
proof -
  define a b c d where v: "a = cp div 262144" "b = cp div 4096 mod 64" "c = cp div 64 mod 64" "d = cp mod 64"
  have d1: "cp = (cp div 64) * 64 + d" "cp div 64 = (cp div 4096) * 64 + c" "cp div 4096 = a * 64 + b"
    using div_mult_mod_eq [of cp 64] div_mult_mod_eq [of "cp div 64" 64] div_mult_mod_eq [of "cp div 4096" 64]
    by (simp_all add: v div_mult2_eq [symmetric])
  have lt: "b < 64" "c < 64" "d < 64" by (simp_all add: v)
  consider "cp < 0x80" | "0x80 \<le> cp" "cp \<le> 0x7FF" | "0x7FF < cp" "cp \<le> 0xFFFF" | "0xFFFF < cp" by linarith
  then show ?thesis
  proof cases
    case 1
    then show ?thesis by (simp add: codepoint_bytes_def utf8_ok_ascii)
  next
    case 2
    with d1 lt have "2 \<le> cp div 64" "cp div 64 \<le> 31" by linarith+
    then have "utf8_ok (map char_of [0xC0 + cp div 64, 0x80 + d])"
      using lt by (intro utf8_ok_bytes [of _ "[(0x80, 0xBF)]"]) (auto simp: utf8_ranges_def)
    with 2 show ?thesis by (simp add: codepoint_bytes_def v)
  next
    case 3
    have "a = 0" using 3 d1 lt by linarith
    then have cp: "cp = b * 4096 + c * 64 + d" "cp div 4096 = b" using d1 by simp_all
    have a: "b \<le> 15" using 3 cp(1) by linarith
    moreover have "b = 0 \<Longrightarrow> 32 \<le> c" "b = 13 \<Longrightarrow> c < 32" using 3 cp(1) lt assms(2) by simp_all
    ultimately have "utf8_ranges (0xE0 + b) = Some (the (utf8_ranges (0xE0 + b)))"
      "list_all2 (\<lambda>x (lo, hi). lo \<le> x \<and> x \<le> hi) [0x80 + c, 0x80 + d] (the (utf8_ranges (0xE0 + b)))"
      using lt by (auto simp: utf8_ranges_def)
    then have "utf8_ok (map char_of [0xE0 + b, 0x80 + c, 0x80 + d])"
      using lt a by (intro utf8_ok_bytes) auto
    with 3 cp(2) show ?thesis by (simp add: codepoint_bytes_def v del: list.map)
  next
    case 4
    have a: "a \<le> 4" "a = 0 \<Longrightarrow> 16 \<le> b" "a = 4 \<Longrightarrow> b < 16"
      using 4 d1 lt assms by linarith+
    have "utf8_ok (map char_of [0xF0 + a, 0x80 + b, 0x80 + c, 0x80 + d])"
      using lt a by (intro utf8_ok_bytes [of _ "the (utf8_ranges (0xF0 + a))"]) (auto simp: utf8_ranges_def)
    with 4 show ?thesis by (simp add: codepoint_bytes_def v del: list.map)
  qed
qed

lemma hex_value_bound: "hex_value c = Some x \<Longrightarrow> x < 16"
  by (auto simp: hex_value_def split: if_splits)

lemma get_codepoint_bound: "get_codepoint s = Some (cp, r) \<Longrightarrow> cp < 65536"
  by (induction s rule: get_codepoint.induct) (fastforce split: option.splits dest!: hex_value_bound)+

lemma surrogate_bound: "a \<le> 0xDBFF \<Longrightarrow> b \<le> 0xDFFF \<Longrightarrow> a * 1024 + b - 0x35FDC00 < (0x110000 :: nat)"
  by linarith

lemma scan_unicode_utf8: "scan_unicode s = Added bs r \<Longrightarrow> utf8_ok bs"
  by (auto simp: scan_unicode_def split: option.splits if_splits list.splits
      intro!: codepoint_bytes_utf8 surrogate_bound dest!: get_codepoint_bound)

lemma scan_char_utf8: "scan_char s = Added bs r \<Longrightarrow> utf8_ok bs"
  by (cases s; cases "tl s")
    (auto simp: utf8_ok_ascii intro: scan_unicode_utf8 utf8_ok_chunk split: if_splits option.splits)

lemma scan_string_utf8: "scan_string buf s = Some (str, r) \<Longrightarrow> utf8_ok buf \<Longrightarrow> utf8_ok str"
proof (induction buf s rule: scan_string.induct)
  case (1 buf s)
  show ?case
  proof (cases "scan_char s")
    case (Added bs u)
    with "1.IH" [OF Added] "1.prems" scan_char_utf8 [OF Added] scan_string_added [OF Added, of buf] show ?thesis
      by (simp add: utf8_ok_append)
  next
    case (Closed u)
    then have "scan_string buf s = Some (buf, u)" by (simp add: scan_string.simps [of buf s])
    with "1.prems" show ?thesis by simp
  next
    case Rejected
    then have "scan_string buf s = None" by (simp add: scan_string.simps [of buf s])
    with "1.prems" show ?thesis by simp
  qed
qed


fun token_ok :: "token \<Rightarrow> bool" where
  "token_ok (TString s) \<longleftrightarrow> utf8_ok s"
| "token_ok (TUnsigned n) \<longleftrightarrow> int n < 2 ^ 64"
| "token_ok (TInteger i) \<longleftrightarrow> - (2 ^ 63) \<le> i \<and> i < 2 ^ 63"
| "token_ok _ \<longleftrightarrow> True"

lemma scan_number_done_ok: "token_ok (fst (scan_number_done F ty buf s))"
proof -
  have "- (2 ^ 63) \<le> - int n \<and> - int n < 2 ^ 63" if "int n \<le> 2 ^ 63" for n
    using that by simp
  then show ?thesis by (simp add: scan_number_done_def)
qed

lemma scan_number_ok:
  "token_ok (fst (scan_number_any2 F buf s))" "token_ok (fst (scan_number_sign F buf s))"
  "token_ok (fst (scan_number_exponent F buf s))" "token_ok (fst (scan_number_decimal2 F buf s))"
  "token_ok (fst (scan_number_decimal1 F buf s))" "token_ok (fst (scan_number_zero F ty buf s))"
  "token_ok (fst (scan_number_any1 F ty buf s))" "token_ok (fst (scan_number_minus F buf s))"
  "token_ok (fst (scan_number F c s))"
proof -
  show a2: "token_ok (fst (scan_number_any2 F buf s))" for buf s
    by (simp add: scan_number_any2_def scan_number_done_ok)
  show sg: "token_ok (fst (scan_number_sign F buf s))" for buf s
    by (simp add: scan_number_sign_def a2 split: list.splits)
  show ex: "token_ok (fst (scan_number_exponent F buf s))" for buf s
    by (simp add: scan_number_exponent_def a2 sg split: list.splits)
  show d2: "token_ok (fst (scan_number_decimal2 F buf s))" for buf s
    by (simp add: scan_number_decimal2_def Let_def ex scan_number_done_ok split: list.splits)
  show d1: "token_ok (fst (scan_number_decimal1 F buf s))" for buf s
    by (simp add: scan_number_decimal1_def d2 split: list.splits)
  show z: "token_ok (fst (scan_number_zero F ty buf s))" for ty buf s
    by (simp add: scan_number_zero_def d1 ex scan_number_done_ok split: list.splits)
  show a1: "token_ok (fst (scan_number_any1 F ty buf s))" for ty buf s
    by (simp add: scan_number_any1_def z)
  show m: "token_ok (fst (scan_number_minus F buf s))" for buf s
    by (simp add: scan_number_minus_def z a1 split: list.splits)
  show "token_ok (fst (scan_number F c s))"
    by (simp add: scan_number_def m z a1)
qed

lemma scan_literal_ok: "token_ok t \<Longrightarrow> token_ok (fst (scan_literal ls t s))"
  by (induction ls t s rule: scan_literal.induct) auto

lemma scan_ok: "token_ok (fst (scan F s))"
proof (cases "dropWhile is_space s")
  case Nil
  then show ?thesis by (simp add: scan_def del: dropWhile_eq_Nil_conv)
next
  case (Cons c r)
  then show ?thesis
    using scan_string_utf8 [of "[]" r] by (auto simp: scan_def scan_literal_ok scan_number_ok split: option.splits)
qed

lemma tokens_ok: "t \<in> set (tokens F s) \<Longrightarrow> token_ok t"
proof (induction F s rule: tokens.induct)
  case (1 F s)
  obtain u r where u: "scan F s = (u, r)" by (cases "scan F s")
  with scan_ok [of F s] have "token_ok u" by simp
  moreover have "tokens F s = (if u = TEnd \<or> u = TError then [u] else u # tokens F r)"
    by (subst tokens.simps) (simp add: u)
  ultimately show ?case using 1 u by (cases "u = TEnd \<or> u = TError") auto
qed

lemma set_obj_set: "e \<in> set (obj_set k v kvs) \<Longrightarrow> e = (k, v) \<or> e \<in> set kvs"
  by (induction k v kvs rule: obj_set.induct) (auto split: if_splits)

fun frame_ok :: "frame \<Rightarrow> bool" where
  "frame_ok (FArr vs) \<longleftrightarrow> json_typed (JArr vs)"
| "frame_ok (FObj kvs k) \<longleftrightarrow> json_typed (JObj kvs) \<and> utf8_ok k"

lemma obj_set_typed: "json_typed (JObj kvs) \<Longrightarrow> utf8_ok k \<Longrightarrow> json_typed v \<Longrightarrow> json_typed (JObj (obj_set k v kvs))"
  by (auto simp: obj_set_wf dest!: set_obj_set)

text \<open>How a successful parse goes on after a first token and after a value in an object.\<close>

lemma parse_objectE:
  assumes "parse_value states (TBeginObject # ts) = Some x"
  obtains ts' where "ts = TEndObject # ts'" "parse_state states (JObj []) ts' = Some x"
  | k ts' where "ts = TString k # TName # ts'" "parse_value (FObj [] k # states) ts' = Some x"
  using assms by (simp split: list.splits token.splits)

lemma parse_arrayE:
  assumes "parse_value states (TBeginArray # ts) = Some x"
  obtains ts' where "ts = TEndArray # ts'" "parse_state states (JArr []) ts' = Some x"
  | "parse_value (FArr [] # states) ts = Some x"
proof (cases "\<exists>ts'. ts = TEndArray # ts'")
  case True
  with assms that(1) show ?thesis by auto
next
  case False
  with assms have "parse_value (FArr [] # states) ts = Some x"
    by (cases ts; cases "hd ts") (simp_all del: parse_value.simps add: parse_value.simps(1) parse_value.simps(2) [of states TBeginArray])
  then show ?thesis by (rule that(2))
qed

lemma parse_state_arrayE:
  assumes "parse_state (FArr vs # states) v ts = Some x"
  obtains ts' where "ts = TSep # ts'" "parse_value (FArr (vs @ [v]) # states) ts' = Some x"
  | ts' where "ts = TEndArray # ts'" "parse_state states (JArr (vs @ [v])) ts' = Some x"
  using assms by (simp split: list.splits token.splits)

lemma parse_state_objectE:
  assumes "parse_state (FObj kvs k # states) v ts = Some x"
  obtains k' ts' where "ts = TSep # TString k' # TName # ts'" "parse_value (FObj (obj_set k v kvs) k' # states) ts' = Some x"
  | ts' where "ts = TEndObject # ts'" "parse_state states (JObj (obj_set k v kvs)) ts' = Some x"
  using assms by (simp split: list.splits token.splits)

lemma parse_typed:
  assumes "\<forall>t \<in> set ts. token_ok t" and "\<forall>f \<in> set states. frame_ok f"
  shows "(parse_value states ts = Some (w, us) \<longrightarrow> json_typed w) \<and>
    (\<forall>v. json_typed v \<longrightarrow> parse_state states v ts = Some (w, us) \<longrightarrow> json_typed w)"
  using assms
proof (induction ts arbitrary: states rule: length_induct)
  case (1 ts)
  note tok = "1.prems"(1) and fr = "1.prems"(2)
  have IHv: "json_typed w" if "parse_value st ts' = Some (w, us)" "length ts' < length ts" "set ts' \<subseteq> set ts" "\<forall>f \<in> set st. frame_ok f" for st ts'
    using "1.IH" tok that by blast
  have IHs: "json_typed w" if "parse_state st v ts' = Some (w, us)" "json_typed v" "length ts' < length ts" "set ts' \<subseteq> set ts"
    "\<forall>f \<in> set st. frame_ok f" for st v ts'
    using "1.IH" tok that by blast
  have "json_typed w" if a: "parse_value states ts = Some (w, us)"
  proof (cases ts)
    case Nil
    with a show ?thesis by simp
  next
    case (Cons t ts')
    then have sub: "length ts' < length ts" "set ts' \<subseteq> set ts" "token_ok t" using tok by auto
    note leaf = IHs [OF _ _ sub(1,2) fr]
    show ?thesis
    proof (cases t)
      case TBeginObject
      from a [unfolded Cons TBeginObject] show ?thesis
      proof (rule parse_objectE)
        fix k us'
        assume "ts' = TString k # TName # us'" and p: "parse_value (FObj [] k # states) us' = Some (w, us)"
        then show ?thesis using tok fr Cons by (intro IHv [OF p]) (auto simp: obj_wf_def)
      qed (use fr Cons in \<open>auto simp: obj_wf_def intro: IHs\<close>)
    next
      case TBeginArray
      from a [unfolded Cons TBeginArray] show ?thesis
      proof (rule parse_arrayE)
        assume p: "parse_value (FArr [] # states) ts' = Some (w, us)"
        then show ?thesis using fr by (intro IHv [OF p sub(1,2)]) auto
      qed (use fr Cons in \<open>auto intro: IHs\<close>)
    next
      case (TFloat x)
      with a Cons leaf show ?thesis by (auto split: option.splits)
    qed (use a Cons sub(3) leaf in auto)
  qed
  moreover have "json_typed w" if v: "json_typed v" and a: "parse_state states v ts = Some (w, us)" for v
  proof (cases states)
    case Nil
    with a v show ?thesis by simp
  next
    case (Cons f st)
    show ?thesis
    proof (cases f)
      case (FArr vs)
      from a [unfolded Cons FArr] show ?thesis
      proof (rule parse_state_arrayE)
        fix us'
        assume "ts = TSep # us'" and p: "parse_value (FArr (vs @ [v]) # st) us' = Some (w, us)"
        then show ?thesis using fr v Cons FArr by (intro IHv [OF p]) auto
      next
        fix us'
        assume "ts = TEndArray # us'" and p: "parse_state st (JArr (vs @ [v])) us' = Some (w, us)"
        then show ?thesis using fr v Cons FArr by (intro IHs [OF p]) auto
      qed
    next
      case (FObj kvs k)
      then have "json_typed (JObj (obj_set k v kvs))" using fr Cons v by (intro obj_set_typed) auto
      with a [unfolded Cons FObj] show ?thesis
      proof (elim parse_state_objectE)
        fix k' us'
        assume "ts = TSep # TString k' # TName # us'" and "json_typed (JObj (obj_set k v kvs))"
          and p: "parse_value (FObj (obj_set k v kvs) k' # st) us' = Some (w, us)"
        then show ?thesis using tok fr Cons by (intro IHv [OF p]) (auto simp del: json_typed.simps)
      qed (use fr Cons in \<open>auto intro: IHs simp del: json_typed.simps\<close>)
    qed
  qed
  ultimately show ?case by blast
qed

lemma json_parse_typed:
  assumes "json_parse F s = Some j"
  shows "json_typed j"
proof -
  obtain u ts where "parse_value [] (tokens F u) = Some (j, ts)"
    using assms by (auto simp: json_parse_def split: option.splits list.splits token.splits)
  with parse_typed [of "tokens F u" "[]"] tokens_ok show ?thesis by auto
qed


subsection \<open>Reading a value back\<close>

lemma get_int_norm [simp]: "get_int (json_norm j) = get_int j"
  by (cases j) auto

lemma get_string_norm [simp]: "get_string (json_norm j) = get_string j"
  by (cases j) auto

lemma get_string_vector_norm [simp]: "get_string_vector (json_norm j) = get_string_vector j"
proof (cases j)
  case (JArr js)
  have "mapR get_string (map json_norm js) = mapR get_string js" by (induction js) simp_all
  with JArr show ?thesis by simp
qed auto

lemma json_get_norm [simp]: "json_get k (json_norm j) = map_option json_norm (json_get k j)"
proof (cases j)
  case (JObj kvs)
  have "map_of (map (\<lambda>(k, j). (k, json_norm j)) kvs) k = map_option json_norm (map_of kvs k)" by (induction kvs) auto
  with JObj show ?thesis by (simp add: json_get_def)
qed (auto simp: json_get_def)

lemma json_obj_props:
  assumes "\<forall>(k, v) \<in> set kvs. utf8_ok k \<and> json_typed v \<and> json_no_float v"
  shows "json_typed (json_obj kvs)" "json_no_float (json_obj kvs)"
proof -
  have "json_typed (JObj (fold (\<lambda>(k, v). obj_set k v) kvs acc)) \<and> json_no_float (JObj (fold (\<lambda>(k, v). obj_set k v) kvs acc))"
    if "json_typed (JObj acc)" "json_no_float (JObj acc)" for acc
    using assms that
  proof (induction kvs arbitrary: acc)
    case (Cons e kvs)
    obtain k v where e: "e = (k, v)" by (cases e)
    with Cons.prems have "json_typed (JObj (obj_set k v acc))" by (intro obj_set_typed) auto
    moreover have "json_no_float (JObj (obj_set k v acc))" using Cons.prems e by (auto dest!: set_obj_set)
    ultimately show ?case using Cons.IH Cons.prems e by (simp del: json_typed.simps json_no_float.simps)
  qed simp
  moreover have "json_typed (JObj [])" "json_no_float (JObj [])" by (simp_all add: obj_wf_def)
  ultimately show "json_typed (json_obj kvs)" "json_no_float (json_obj kvs)" unfolding json_obj_def by blast+
qed

text \<open>Two texts of objects in one buffer are rejected: the input does not end after the first.\<close>

lemma json_parse_coalesced:
  assumes "json_dump F j = Inr t" and "json_typed j" and "json_no_float j"
  shows "json_parse F (t @ CHR 0x7B # r) = None"
  using json_parse_dumped [OF assms, of "CHR 0x7B # r"] by (simp add: tokens_structural)

text \<open>A zero byte ends the input, whatever follows.\<close>

lemma json_parse_terminated:
  assumes "json_dump F j = Inr t" and "json_typed j" and "json_no_float j"
  shows "json_parse F (t @ CHR 0x00 # r) = Some (json_norm j)"
  using json_parse_dumped [OF assms, of "CHR 0x00 # r"] by (simp add: tokens_end)

subsection \<open>The interface: what a peer reads of a message\<close>

definition json_sendable :: "json \<Rightarrow> bool" where
  "json_sendable j \<longleftrightarrow> json_typed j \<and> json_no_float j"

text \<open>The text of a value that can be printed.\<close>

definition json_text :: "fp_env \<Rightarrow> json \<Rightarrow> string" where
  "json_text F j = (case json_dump F j of Inl e \<Rightarrow> [] | Inr t \<Rightarrow> t)"

lemma json_dump_text: "json_typed j \<Longrightarrow> json_dump F j = Inr (json_text F j)"
  using json_dump_typed(1) [of j F] by (auto simp: json_text_def)

text \<open>Printing gives UTF-8 again, and the same text for the value that is read back.\<close>

lemma to_string_nat: "0 \<le> i \<Longrightarrow> to_string i = nat_digits (nat i)"
  by (simp add: to_string_def)

lemma utf8_ok_all_ascii: "\<forall>c \<in> set s. byte c < 0x80 \<Longrightarrow> utf8_ok s"
  by (induction s) (simp_all add: utf8_ok.simps(2) utf8_ranges_def)

lemma to_string_utf8: "utf8_ok (to_string i)"
  by (rule utf8_ok_all_ascii) (auto dest: to_string_chars)

lemma json_dump_norm:
  "json_dump F (json_norm j) = json_dump F j"
  "dump_elements F (map json_norm js) = dump_elements F js"
  "dump_members F (map (\<lambda>(k, j). (k, json_norm j)) kvs) = dump_members F kvs"
proof (induction F j and F js and F kvs rule: json_dump_dump_elements_dump_members.induct)
  case (14 F k j e kvs)
  then show ?case by (cases e) simp
qed (auto simp: to_string_nat)

lemma json_text_norm: "json_text F (json_norm j) = json_text F j"
  by (simp add: json_text_def json_dump_norm)

lemma u_escape_ascii: "cp < 0x20 \<Longrightarrow> c \<in> set (u_escape cp) \<Longrightarrow> byte c < 0x80"
  by (auto simp: u_escape_def hex_char_def split: if_splits)

lemma escape_ascii: "byte c < 0x80 \<Longrightarrow> d \<in> set (escape (byte c) c) \<Longrightarrow> byte d < 0x80"
  using u_escape_ascii [of "byte c" d] by (auto simp: escape_def split: if_splits)

lemma dump_escaped_utf8_text: "utf8_ok s \<Longrightarrow> dump_escaped s = Inr t \<Longrightarrow> utf8_ok t"
proof (induction s arbitrary: t rule: utf8_ok.induct)
  case 1
  then show ?case by (simp add: dump_escaped_def)
next
  case (2 c s)
  then obtain rs bs r where r: "utf8_ranges (byte c) = Some rs" "next_byte_in_range rs s = Some (bs, r)" "utf8_ok r"
    by (auto elim: utf8_okE)
  with "2.prems"(2) obtain t' where t: "dump_escaped r = Inr t'" "t = chunk_text c bs @ t'"
    by (auto simp: dump_escaped_chunk bindR_Inr_iff)
  have "utf8_ok (chunk_text c bs)"
  proof (cases "bs = []")
    case True
    then have e: "rs = []" using r(2) by (cases rs; cases s) (auto split: if_splits)
    from r(1) have "byte c < 0x80" by (cases rule: utf8_ranges_cases) (use e in auto)
    then show ?thesis using True escape_ascii [of c] by (intro utf8_ok_all_ascii) (auto simp: chunk_text_def)
  next
    case False
    then show ?thesis using utf8_ok_chunk [OF r(1,2)] by (simp add: chunk_text_def)
  qed
  with "2.IH" [OF r(1,2) refl r(3) t(1)] t(2) show ?case by (simp add: utf8_ok_append)
qed

lemma utf8_ok_surround: "utf8_ok t \<Longrightarrow> byte a < 0x80 \<Longrightarrow> byte b < 0x80 \<Longrightarrow> utf8_ok (a # t @ [b])"
  using utf8_ok_append [of "[a]" "t @ [b]"] utf8_ok_append [of t "[b]"] by (simp add: utf8_ok_ascii)

lemma utf8_ok_joined: "utf8_ok s \<Longrightarrow> utf8_ok t \<Longrightarrow> byte a < 0x80 \<Longrightarrow> utf8_ok (s @ a # t)"
  using utf8_ok_append [of s "a # t"] utf8_ok_append [of "[a]" t] by (simp add: utf8_ok_ascii)

lemma dump_string_utf8: "utf8_ok s \<Longrightarrow> dump_string s = Inr t \<Longrightarrow> utf8_ok t"
  using dump_escaped_utf8_text by (auto simp: dump_string_def bindR_Inr_iff intro!: utf8_ok_surround)

lemma json_dump_utf8:
  "json_dump F j = Inr t \<Longrightarrow> json_typed j \<Longrightarrow> json_no_float j \<Longrightarrow> utf8_ok t"
  "dump_elements F js = Inr t \<Longrightarrow> \<forall>j \<in> set js. json_typed j \<and> json_no_float j \<Longrightarrow> utf8_ok t"
  "dump_members F kvs = Inr t \<Longrightarrow> \<forall>e \<in> set kvs. utf8_ok (fst e) \<and> json_typed (snd e) \<and> json_no_float (snd e) \<Longrightarrow> utf8_ok t"
proof (induction F j and F js and F kvs arbitrary: t and t and t rule: json_dump_dump_elements_dump_members.induct)
  case (1 F kvs)
  show ?case
  proof (cases "kvs = []")
    case False
    with "1.prems"(1) obtain u where "dump_members F kvs = Inr u" "t = CHR 0x7B # u @ [CHR 0x7D]" by (auto simp: bindR_Inr_iff)
    with 1 False show ?thesis by (simp add: utf8_ok_surround)
  qed (use 1 utf8_ok_all_ascii [of t] in auto)
next
  case (2 F js)
  show ?case
  proof (cases "js = []")
    case False
    with "2.prems"(1) obtain u where "dump_elements F js = Inr u" "t = CHR 0x5B # u @ [CHR 0x5D]" by (auto simp: bindR_Inr_iff)
    with 2 False show ?thesis by (simp add: utf8_ok_surround)
  qed (use 2 utf8_ok_all_ascii [of t] in auto)
next
  case (3 F s)
  then show ?case by (simp add: dump_string_utf8)
next
  case (4 F b)
  then show ?case using utf8_ok_all_ascii [of t] by (cases b) auto
next
  case (5 F i)
  then show ?case using to_string_utf8 [of i] by simp
next
  case (6 F n)
  then show ?case using to_string_utf8 [of "int n"] by (simp add: to_string_def)
next
  case (8 F)
  then show ?case using utf8_ok_all_ascii [of t] by auto
next
  case (11 F j k js)
  then obtain u v where "json_dump F j = Inr u" "dump_elements F (k # js) = Inr v" "t = u @ CHR 0x2C # v"
    by (auto simp: bindR_Inr_iff)
  with 11 show ?case by (simp add: utf8_ok_joined)
next
  case (13 F k j)
  then obtain s u where u: "dump_string k = Inr s" "json_dump F j = Inr u" "t = s @ CHR 0x3A # u"
    by (auto simp: bindR_Inr_iff)
  with 13 dump_string_utf8 [OF _ u(1)] show ?case by (simp add: utf8_ok_joined)
next
  case (14 F k j e kvs)
  then obtain s u v where u: "dump_string k = Inr s" "json_dump F j = Inr u" "dump_members F (e # kvs) = Inr v"
    "t = s @ CHR 0x3A # u @ CHR 0x2C # v"
    by (auto simp: bindR_Inr_iff)
  with 14 dump_string_utf8 [OF _ u(1)] show ?case by (simp add: utf8_ok_joined)
qed simp_all

lemma json_text_utf8: "json_sendable j \<Longrightarrow> utf8_ok (json_text F j)"
  using json_dump_utf8(1) [OF json_dump_text] by (simp add: json_sendable_def)

locale json_codec =
  fixes print :: "json \<Rightarrow> string"
    and parse :: "string \<Rightarrow> json option"
    and norm :: "json \<Rightarrow> json"
    and sendable :: "json \<Rightarrow> bool"
  assumes parse_print: "sendable j \<Longrightarrow> parse (print j) = Some (norm j)"
    and get_norm: "json_get k (norm j) = map_option norm (json_get k j)"
    and int_norm: "get_int (norm j) = get_int j"
    and string_norm: "get_string (norm j) = get_string j"
    and vector_norm: "get_string_vector (norm j) = get_string_vector j"
begin

lemma print_inj: "sendable i \<Longrightarrow> sendable j \<Longrightarrow> print i = print j \<Longrightarrow> norm i = norm j"
  using parse_print [of i] parse_print [of j] by simp

lemma received_int:
  assumes "json_get k j = Some v" and "get_int v = Inr i"
  shows "field_int k (norm j) = Inr (i, norm j)"
  using assms field_int_present [of k "norm j" "norm v" i] by (simp add: get_norm int_norm)

lemma norm_JStr: "norm (JStr s) = JStr s"
  using string_norm [of "JStr s"] by (auto elim: get_string_InrE)

lemma received_string:
  assumes "json_get k j = Some (JStr s)"
  shows "field_string k (norm j) = Inr (s, norm j)"
  using assms by (intro field_string_present) (simp_all add: get_norm norm_JStr)

lemma received_contains: "json_contains k (norm j) \<longleftrightarrow> json_contains k j"
  by (simp add: json_contains_get get_norm)

end

interpretation json_lib: json_codec "json_text F" "json_parse F" json_norm json_sendable for F
  by unfold_locales (auto simp: json_sendable_def intro: json_roundtrip json_dump_text)


subsection \<open>Properties\<close>

text \<open>
  C4. A well-formed value without floating-point numbers is printed, and parsing its text gives the
  value back, with non-negative integers as unsigned ones; so it does when the text is followed by a
  zero byte and anything else, as the client sends a registration. When another object follows
  directly, the parser rejects the buffer.
\<close>

theorem json_text_roundtrip:
  assumes "json_typed j" and "json_no_float j"
  shows "\<exists>t. json_dump F j = Inr t \<and> json_parse F t = Some (json_norm j) \<and>
    (\<forall>r. json_parse F (t @ CHR 0x00 # r) = Some (json_norm j)) \<and> (\<forall>r. json_parse F (t @ CHR 0x7B # r) = None)"
  using json_dump_typed(1) [OF assms(1)] json_roundtrip [OF assms] json_parse_terminated [OF _ assms] json_parse_coalesced [OF _ assms]
  by metis

theorem json_text_roundtrip_witness:
  "\<exists>t. json_dump \<lparr>fp_to_chars = \<lambda>m e. [], fp_strtod = \<lambda>s. None\<rparr> (JArr [JStr ''a'', JInt 5, JNull]) = Inr t \<and>
    json_parse \<lparr>fp_to_chars = \<lambda>m e. [], fp_strtod = \<lambda>s. None\<rparr> t = Some (JArr [JStr ''a'', JUint 5, JNull])"
proof -
  have "json_typed (JArr [JStr ''a'', JInt 5, JNull])" "json_no_float (JArr [JStr ''a'', JInt 5, JNull])" by code_simp+
  from json_text_roundtrip [OF this, of "\<lparr>fp_to_chars = \<lambda>m e. [], fp_strtod = \<lambda>s. None\<rparr>"] show ?thesis by auto
qed

text \<open>
  C22. Whatever bytes arrive, a value the parser returns is well-formed: strings and keys are UTF-8,
  objects are sorted without repeated keys, integers are in the range of their types. Printing it,
  as the server does when it relays or stores a message, therefore throws no exception.
\<close>

theorem json_parse_well_formed:
  assumes "json_parse F s = Some j"
  shows "json_typed j \<and> (\<exists>t. json_dump F j = Inr t)"
  using json_parse_typed [OF assms] json_dump_typed(1) by blast

theorem json_parse_well_formed_witness:
  "json_typed (JArr [JBool True, JUint 7]) \<and> (\<exists>t. json_dump \<lparr>fp_to_chars = \<lambda>m e. [], fp_strtod = \<lambda>s. None\<rparr> (JArr [JBool True, JUint 7]) = Inr t)"
proof -
  have "json_parse \<lparr>fp_to_chars = \<lambda>m e. [], fp_strtod = \<lambda>s. None\<rparr> '' [true,7]'' = Some (JArr [JBool True, JUint 7])" by code_simp
  from json_parse_well_formed [OF this] show ?thesis .
qed

end
