(* ===== verification/Client_Facts.thy ===== *)
theory Client_Facts
  imports Client Json_Roundtrip
begin

section \<open>Facts about the client\<close>

text \<open>
  What the steps of the client leave alone, a stream that has failed, and how a command line is
  taken apart.
\<close>

subsection \<open>Frames\<close>

lemma print_line_simps [simp]:
  "cin (print_line t c) = cin c" "isMainMenuRunning (print_line t c) = isMainMenuRunning c"
  "isLoginSuccess (print_line t c) = isLoginSuccess c" "rwSem (print_line t c) = rwSem c"
  "currentUser (print_line t c) = currentUser c" "currentUserFriendList (print_line t c) = currentUserFriendList c"
  "currentUserGroupList (print_line t c) = currentUserGroupList c" "outbox (print_line t c) = outbox c"
  "phase (print_line t c) = phase c" "screen (print_line t c) = screen c @ [t]"
  by (simp_all add: print_line_def)

lemma fold_print_line [simp]: "fold print_line ts c = c\<lparr>screen := screen c @ ts\<rparr>"
  by (induction ts arbitrary: c) (simp_all add: print_line_def)

lemma error_if_simps [simp]:
  "cin (error_if b t c) = cin c" "outbox (error_if b t c) = outbox c" "currentUser (error_if b t c) = currentUser c"
  "phase (error_if b t c) = phase c"
  by (simp_all add: error_if_def)

lemma client_help_frame: "\<exists>ls. client_help c = c\<lparr>screen := screen c @ ls\<rparr>"
proof -
  have "\<exists>ls. fold (\<lambda>(name, text). print_line (name @ '':'' @ text)) cmds c = c\<lparr>screen := screen c @ ls\<rparr>" for cmds c
  proof (induction cmds arbitrary: c)
    case Nil
    show ?case by (simp add: exI [of _ "[]"])
  next
    case (Cons e cmds)
    obtain name ds where e: "e = (name, ds)" by (cases e)
    from Cons obtain ls where "fold (\<lambda>(name, text). print_line (name @ '':'' @ text)) cmds (print_line (name @ '':'' @ ds) c) =
        (print_line (name @ '':'' @ ds) c)\<lparr>screen := screen (print_line (name @ '':'' @ ds) c) @ ls\<rparr>" by blast
    moreover have "(print_line (name @ '':'' @ ds) c)\<lparr>screen := screen (print_line (name @ '':'' @ ds) c) @ ls\<rparr> =
        c\<lparr>screen := screen c @ (name @ '':'' @ ds) # ls\<rparr>" by (simp add: print_line_def)
    ultimately show ?case unfolding e fold.simps comp_apply prod.case by metis
  qed
  from this [of commandMap "print_line ''Show command list >>> '' c"] show ?thesis
    unfolding client_help_def print_line_def by auto
qed

lemma client_help_simps [simp]:
  "cin (client_help c) = cin c" "outbox (client_help c) = outbox c" "currentUser (client_help c) = currentUser c"
  "phase (client_help c) = phase c" "isMainMenuRunning (client_help c) = isMainMenuRunning c"
  "rwSem (client_help c) = rwSem c"
  using client_help_frame [of c] by auto

lemma client_send_simps [simp]:
  "cin (snd (client_send E buf c)) = cin c" "currentUser (snd (client_send E buf c)) = currentUser c"
  by (simp_all add: client_send_def Let_def)

text \<open>A command keeps the stream and the user.\<close>

lemma send_request_frame: "send_request E js t c = Inr (len, c') \<Longrightarrow> cin c' = cin c \<and> currentUser c' = currentUser c"
  by (auto simp: send_request_def bindR_Inr_iff split_beta)

lemma send_command_frame: "send_command E js t c = Inr c' \<Longrightarrow> cin c' = cin c \<and> currentUser c' = currentUser c"
  by (auto simp: send_command_def bindR_Inr_iff dest: send_request_frame)

lemma loginout_frame: "client_loginout E str c = Inr c' \<Longrightarrow> cin c' = cin c \<and> currentUser c' = currentUser c"
  by (auto simp: client_loginout_def bindR_Inr_iff dest: send_request_frame)

lemma handler_frame:
  assumes "map_of commandHandlerMap cmd = Some h" and "h E str c = Inr c'"
  shows "cin c' = cin c \<and> currentUser c' = currentUser c"
  using assms
  by (auto simp: commandHandlerMap_def client_chat_def client_addFriend_def client_createGroup_def client_joinGroup_def
      client_groupChat_def dest: send_command_frame loginout_frame split: if_splits option.splits)

lemma showCurrentUserData_simps [simp]:
  "cin (showCurrentUserData c) = cin c" "outbox (showCurrentUserData c) = outbox c"
  "currentUser (showCurrentUserData c) = currentUser c" "phase (showCurrentUserData c) = phase c"
  by (simp_all add: showCurrentUserData_def)

lemma doLoginResponse_frame:
  assumes "doLoginResponse F js c = Inr c'"
  shows "cin c' = cin c \<and> outbox c' = outbox c \<and> user_name (currentUser c') = user_name (currentUser c) \<and> phase c' = phase c"
  using assms by (auto simp: doLoginResponse_def bindR_Inr_iff Let_def split: if_splits prod.splits)

lemma doRegResponse_frame:
  assumes "doRegResponse F js c = Inr c'"
  shows "\<exists>t. c' = print_line t c"
  using assms by (auto simp: doRegResponse_def bindR_Inr_iff split: if_splits prod.splits)

lemma read_turn_frame:
  assumes "read_turn F r c = Inr c'"
  shows "cin c' = cin c \<and> outbox c' = outbox c \<and> user_name (currentUser c') = user_name (currentUser c) \<and>
    (phase c' = phase c \<or> phase c' = Exited (- 1))"
  using assms
  by (auto simp: read_turn_def bindR_Inr_iff split: option.splits if_splits prod.splits
      dest!: doLoginResponse_frame doRegResponse_frame)

subsection \<open>A stream that has failed\<close>

lemma failed_stream:
  assumes "failbit s"
  shows "extract_int i s = (i, s)" "cin_get s = s" "getline n s = ([], s)"
  using assms by (simp_all add: extract_int_def cin_get_def getline_def good_def)

lemma failed_main_turn:
  "failbit (cin c) \<Longrightarrow> main_turn E c = Inr (c\<lparr>screen := screen c @ menu_lines @ [''Invalid input!!'']\<rparr>)"
  by (simp add: main_turn_def failed_stream print_line_def Let_def)

lemma failed_mainmenu_turn:
  "failbit (cin c) \<Longrightarrow> mainmenu_turn E c = Inr (print_line bad_command_text c)"
  by (simp add: mainmenu_turn_def failed_stream cstr_def split_colon_def commandHandlerMap_def)

lemma failed_step:
  assumes "client_step E c c'" and "failbit (cin c)"
  shows "cin c' = cin c \<and> outbox c' = outbox c \<and> phase c' \<noteq> Exited 0"
  using assms(1)
proof cases
  case menu
  with failed_main_turn [OF assms(2), of E] assms(2) show ?thesis by (auto simp: settle_def)
next
  case command
  with failed_mainmenu_turn [OF assms(2), of E] assms(2) show ?thesis by (simp add: settle_def)
next
  case (receive received)
  then show ?thesis using assms(2)
    by (cases "read_turn (ce_fp E) received c") (auto simp: settle_def alive_def dest: read_turn_frame)
qed (use assms(2) in \<open>auto simp: after_login_def\<close>)

text \<open>What the main thread prints over and over then, at the main menu and in the command menu.\<close>

definition stuck_text :: "phase \<Rightarrow> string" where
  "stuck_text ph = (if ph = AtMenu then ''Invalid input!!'' else bad_command_text)"

text \<open>The steps of the main thread; every other step is one of the receiving thread.\<close>

inductive main_step :: "client_env \<Rightarrow> client \<Rightarrow> client \<Rightarrow> bool" for E :: client_env where
  menu: "phase c = AtMenu \<Longrightarrow> main_step E c (settle c (main_turn E c))"
| login_wait: "phase c = WaitLogin \<Longrightarrow> 0 < rwSem c \<Longrightarrow> main_step E c (after_login (c\<lparr>rwSem := rwSem c - 1\<rparr>))"
| reg_wait: "phase c = WaitReg \<Longrightarrow> 0 < rwSem c \<Longrightarrow> main_step E c (c\<lparr>rwSem := rwSem c - 1, phase := AtMenu\<rparr>)"
| command: "phase c = InMenu \<Longrightarrow> isMainMenuRunning c \<Longrightarrow> main_step E c (settle c (mainmenu_turn E c))"
| leave: "phase c = InMenu \<Longrightarrow> \<not> isMainMenuRunning c \<Longrightarrow> main_step E c (c\<lparr>phase := AtMenu\<rparr>)"

lemma client_step_iff:
  "client_step E c c' \<longleftrightarrow> main_step E c c' \<or>
     (\<exists>received. alive c \<and> (\<forall>bytes. received = Some bytes \<longrightarrow> 0 < length bytes \<and> length bytes \<le> 1024) \<and>
        c' = settle c (read_turn (ce_fp E) received c))"
  by (simp add: client_step.simps main_step.simps) blast

lemma doLoginResponse_screen:
  "doLoginResponse F js c = Inr c' \<Longrightarrow> isMainMenuRunning c' = isMainMenuRunning c \<and> (\<exists>ls. screen c' = screen c @ ls)"
  by (auto simp: doLoginResponse_def showCurrentUserData_def bindR_Inr_iff Let_def split: if_splits prod.splits)

lemma read_turn_screen:
  "read_turn F r c = Inr c' \<Longrightarrow> isMainMenuRunning c' = isMainMenuRunning c \<and> (\<exists>ls. screen c' = screen c @ ls)"
  by (auto simp: read_turn_def bindR_Inr_iff split: option.splits if_splits prod.splits
      dest!: doLoginResponse_screen doRegResponse_frame)

text \<open>
  With a failed stream a step of the receiving thread keeps the phase or ends the process, and one of
  the main thread reaches or keeps one of the two menus and prints.
\<close>

lemma failed_receive:
  assumes "alive c" and "c' = settle c (read_turn F r c)"
  shows "(phase c' = phase c \<or> \<not> alive c') \<and> isMainMenuRunning c' = isMainMenuRunning c \<and> (\<exists>ls. screen c' = screen c @ ls)"
  using assms
  by (cases "read_turn F r c") (auto simp: settle_def alive_def dest: read_turn_frame read_turn_screen)

lemma failed_main_step:
  assumes "main_step E c c'" and "failbit (cin c)" and "phase c = InMenu \<longrightarrow> isMainMenuRunning c"
  shows "phase c' \<in> {AtMenu, InMenu} \<and> (phase c' = InMenu \<longrightarrow> isMainMenuRunning c') \<and> (\<exists>ls. screen c' = screen c @ ls) \<and>
    (phase c \<in> {AtMenu, InMenu} \<longrightarrow> phase c' = phase c \<and> (\<exists>ls. screen c' = screen c @ ls @ [stuck_text (phase c)]))"
  using assms(1)
proof cases
  case menu
  with failed_main_turn [OF assms(2), of E] show ?thesis by (simp add: settle_def stuck_text_def)
next
  case login_wait
  obtain ls where "client_help (c\<lparr>rwSem := rwSem c - 1, isMainMenuRunning := True, phase := InMenu\<rparr>) =
      c\<lparr>rwSem := rwSem c - 1, isMainMenuRunning := True, phase := InMenu, screen := screen c @ ls\<rparr>"
    using client_help_frame [of "c\<lparr>rwSem := rwSem c - 1, isMainMenuRunning := True, phase := InMenu\<rparr>"] by auto
  with login_wait show ?thesis by (simp add: after_login_def)
next
  case command
  with failed_mainmenu_turn [OF assms(2), of E] show ?thesis by (simp add: settle_def stuck_text_def)
next
  case leave
  with assms(3) show ?thesis by simp
qed simp

subsection \<open>The user's name\<close>

lemma choose_login_frame: "choose_login E c = Inr c' \<Longrightarrow> currentUser c' = currentUser c"
  by (auto simp: choose_login_def bindR_Inr_iff Let_def split_beta)

lemma choose_register_frame: "choose_register E c = Inr c' \<Longrightarrow> currentUser c' = currentUser c"
  by (auto simp: choose_register_def bindR_Inr_iff Let_def split_beta)

lemma main_turn_frame: "main_turn E c = Inr c' \<Longrightarrow> currentUser c' = currentUser c"
  by (auto simp: main_turn_def Let_def split_beta dest!: choose_login_frame choose_register_frame split: if_splits)

lemma mainmenu_turn_frame: "mainmenu_turn E c = Inr c' \<Longrightarrow> currentUser c' = currentUser c"
  by (auto simp: mainmenu_turn_def Let_def split_beta dest!: handler_frame split: option.splits)

text \<open>No step changes the name of \<open>currentUser\<close>.\<close>

lemma name_step:
  assumes "client_step E c c'"
  shows "user_name (currentUser c') = user_name (currentUser c)"
  using assms
proof cases
  case menu
  then show ?thesis by (cases "main_turn E c") (auto simp: settle_def dest: main_turn_frame)
next
  case command
  then show ?thesis by (cases "mainmenu_turn E c") (auto simp: settle_def dest: mainmenu_turn_frame)
next
  case (receive received)
  then show ?thesis by (cases "read_turn (ce_fp E) received c") (auto simp: settle_def dest: read_turn_frame)
qed (auto simp: after_login_def)

lemma name_reach: "client_reach E c0 c \<Longrightarrow> user_name (currentUser c) = user_name (currentUser c0)"
  by (induction rule: client_reach.induct) (auto dest: name_step)

lemma failed_reach:
  assumes "client_reach E c0 c" and "failbit (cin c0)" and "phase c0 \<noteq> Exited 0"
  shows "cin c = cin c0 \<and> outbox c = outbox c0 \<and> phase c \<noteq> Exited 0"
  using assms by (induction rule: client_reach.induct) (auto dest: failed_step)

lemma failed_reach_running:
  assumes "client_reach E c0 c" and "failbit (cin c0)" and "phase c0 = InMenu \<longrightarrow> isMainMenuRunning c0" and "phase c0 \<noteq> Exited 0"
  shows "phase c = InMenu \<longrightarrow> isMainMenuRunning c"
  using assms
proof (induction rule: client_reach.induct)
  case (step c c')
  then have c: "failbit (cin c)" "phase c = InMenu \<longrightarrow> isMainMenuRunning c" using failed_reach [OF step.hyps(1)] by auto
  from step.hyps(2) consider "main_step E c c'" | r where "alive c" "c' = settle c (read_turn (ce_fp E) r c)"
    unfolding client_step_iff by blast
  then show ?case
  proof cases
    case 1
    with failed_main_step [OF _ c] show ?thesis by blast
  next
    case 2
    with failed_receive [OF 2] c(2) show ?thesis by (metis alive_def insertCI)
  qed
qed

subsection \<open>Infinite runs\<close>

text \<open>
  A run of the process in which the main thread moves again and again, on a stream that has failed: it
  settles in one of the two menus and prints the same complaint without end.
\<close>

lemma dead_stuck: "client_step E c c' \<Longrightarrow> alive c"
  by (auto elim: client_step.cases simp: alive_def)

lemma failed_run:
  fixes run :: "nat \<Rightarrow> client"
  assumes run: "\<And>i. client_step E (run i) (run (Suc i))" and fair: "\<And>i. \<exists>j\<ge>i. main_step E (run j) (run (Suc j))"
    and bad: "failbit (cin (run 0))" and menu: "phase (run 0) = InMenu \<longrightarrow> isMainMenuRunning (run 0)"
  shows "\<exists>ph \<in> {AtMenu, InMenu}. (\<exists>i. \<forall>j\<ge>i. phase (run j) = ph) \<and> (\<forall>k. \<exists>j. k \<le> count_list (screen (run j)) (stuck_text ph))"
proof -
  have alive: "alive (run i)" for i using dead_stuck [OF run] .
  have reach: "client_reach E (run 0) (run i)" for i
    by (induction i) (auto intro: client_reach.intros run)
  have ne: "phase (run 0) \<noteq> Exited 0" using alive [of 0] by (auto simp: alive_def)
  have bad: "failbit (cin (run i))" for i using failed_reach [OF reach [of i] bad ne] bad by simp
  have menu: "phase (run i) = InMenu \<longrightarrow> isMainMenuRunning (run i)" for i
    by (rule failed_reach_running [OF reach bad menu ne])
  have main: "main_step E (run i) (run (Suc i)) \<Longrightarrow> phase (run (Suc i)) \<in> {AtMenu, InMenu} \<and>
      (phase (run i) \<in> {AtMenu, InMenu} \<longrightarrow> phase (run (Suc i)) = phase (run i) \<and>
        (\<exists>ls. screen (run (Suc i)) = screen (run i) @ ls @ [stuck_text (phase (run i))]))" for i
    using failed_main_step [OF _ bad menu] by blast
  have stays: "phase (run i) \<in> {AtMenu, InMenu} \<Longrightarrow> phase (run (Suc i)) = phase (run i)" for i
    using run [of i] main [of i] failed_receive [OF alive, of "run (Suc i)" i] alive [of "Suc i"] unfolding client_step_iff by blast
  have grows: "count_list (screen (run i)) x \<le> count_list (screen (run (Suc i))) x" for i x
  proof -
    obtain ls where "screen (run (Suc i)) = screen (run i) @ ls"
      using run [of i] failed_main_step [OF _ bad menu, of E i "run (Suc i)"] failed_receive [OF alive, of "run (Suc i)" i]
      unfolding client_step_iff by blast
    then show ?thesis by simp
  qed
  obtain i where i: "phase (run i) \<in> {AtMenu, InMenu}" using fair [of 0] main by blast
  define ph where "ph = phase (run i)"
  have const: "phase (run (i + j)) = ph" for j
    by (induction j) (use i stays in \<open>auto simp: ph_def\<close>)
  have "\<exists>j. k \<le> count_list (screen (run (i + j))) (stuck_text ph)" for k
  proof (induction k)
    case (Suc k)
    then obtain j where j: "k \<le> count_list (screen (run (i + j))) (stuck_text ph)" by blast
    obtain m where m: "i + j \<le> m" "main_step E (run m) (run (Suc m))" using fair by blast
    then obtain n where n: "m = i + n" "j \<le> n" using le_Suc_ex [of "i + j" m] by (metis add.assoc le_add1)
    have "count_list (screen (run (i + j))) (stuck_text ph) \<le> count_list (screen (run (i + n))) (stuck_text ph)"
      using lift_Suc_mono_le [of "\<lambda>l. count_list (screen (run l)) (stuck_text ph)", OF grows] n(2) by simp
    moreover obtain ls where "screen (run (Suc m)) = screen (run m) @ ls @ [stuck_text ph]"
      using main [OF m(2)] const [of n] i unfolding n(1) ph_def by auto
    ultimately have "Suc k \<le> count_list (screen (run (i + Suc n))) (stuck_text ph)" using j n(1) by simp
    then show ?case by blast
  qed simp
  then have "\<forall>k. \<exists>j. k \<le> count_list (screen (run j)) (stuck_text ph)" by blast
  moreover have "\<forall>j\<ge>i. phase (run j) = ph" using const le_Suc_ex by blast
  ultimately show ?thesis using i unfolding ph_def by blast
qed

subsection \<open>Lines and commands\<close>

lemma split_at:
  assumes "x \<notin> set a"
  shows "takeWhile (\<lambda>c. c \<noteq> x) (a @ x # b) = a" "dropWhile (\<lambda>c. c \<noteq> x) (a @ x # b) = x # b"
  using assms by (induction a) auto

lemma getline_line:
  assumes "good s" and "unread s = line @ CHR 0x0A # r" and "CHR 0x0A \<notin> set line" and "length line < n"
  shows "getline n s = (line, s\<lparr>unread := r\<rparr>)"
  using assms split_at(1) [OF assms(3), of r] by (simp add: getline_def Let_def)

lemma getline_long:
  assumes "good s" and "unread s = line @ CHR 0x0A # r" and "CHR 0x0A \<notin> set line" and "n \<le> length line"
  shows "getline n s = (take (n - 1) line, s\<lparr>unread := drop (n - 1) (unread s), failbit := True\<rparr>)"
  using assms split_at(1) [OF assms(3), of r] by (simp add: getline_def Let_def)

lemma cstr_id: "CHR 0x00 \<notin> set s \<Longrightarrow> cstr s = s"
  by (simp add: cstr_def takeWhile_eq_all_conv) metis

lemma split_colon_append: "CHR 0x3A \<notin> set a \<Longrightarrow> split_colon (a @ CHR 0x3A # b) = Some (a, b)"
  by (simp add: split_colon_def split_at)

lemma mainmenu_command:
  assumes "good (cin c)" and "unread (cin c) = cmd @ CHR 0x3A # arg @ CHR 0x0A # r"
    and "CHR 0x3A \<notin> set cmd" and "set (cmd @ arg) \<inter> {CHR 0x0A, CHR 0x00} = {}" and "length (cmd @ arg) < 1023"
    and "map_of commandHandlerMap cmd = Some h"
  shows "mainmenu_turn E c = h E arg (c\<lparr>cin := (cin c)\<lparr>unread := r\<rparr>\<rparr>)"
proof -
  have "getline 1024 (cin c) = (cmd @ CHR 0x3A # arg, (cin c)\<lparr>unread := r\<rparr>)"
    using assms by (intro getline_line) auto
  moreover have "cstr (cmd @ CHR 0x3A # arg) = cmd @ CHR 0x3A # arg" using assms(4) by (intro cstr_id) auto
  ultimately show ?thesis using split_colon_append [OF assms(3)] assms(6) by (simp add: mainmenu_turn_def)
qed

subsection \<open>What the receiving thread reads\<close>

text \<open>The keys of the messages are plain ASCII.\<close>

lemma key_utf8 [simp]:
  "utf8_ok ''msgid''" "utf8_ok ''id''" "utf8_ok ''password''" "utf8_ok ''name''" "utf8_ok ''to''" "utf8_ok ''msg''"
  "utf8_ok ''time''" "utf8_ok ''groupid''" "utf8_ok ''friendid''" "utf8_ok ''groupname''" "utf8_ok ''groupdesc''"
  "utf8_ok ''errno''" "utf8_ok ''errormsg''" "utf8_ok ''state''" "utf8_ok ''role''" "utf8_ok ''users''"
  "utf8_ok ''friends''" "utf8_ok ''groups''" "utf8_ok ''offlinemessage''"
  by (rule utf8_ok_all_ascii; simp)+

lemma msgids_typed [simp]:
  "json_typed (JInt LOGIN_MSG)" "json_typed (JInt LOGIN_MSG_ACK)" "json_typed (JInt REG_MSG)" "json_typed (JInt ONE_CHAT_MSG)"
  "json_typed (JInt GROUP_CHAT_MSG)" "json_typed (JInt LOGIN_OUT_MSG)" "json_typed (JInt ONE_CHAT_MSG_ACK)"
  by (simp_all add: msg_defs)

lemma int32_typed: "- (2 ^ 31) \<le> i \<Longrightarrow> i < 2 ^ 31 \<Longrightarrow> json_typed (JInt i)"
  by simp

lemma recv_parse:
  assumes "json_dump F j = Inr t" and "json_typed j" and "json_no_float j" and "length t \<le> 1024"
  shows "json_parse F (recv_buffer t) = Some (json_norm j)"
proof (cases "length t = 1024")
  case True
  with json_roundtrip [OF assms(2,3,1)] show ?thesis by (simp add: recv_buffer_def)
next
  case False
  then obtain n where n: "1024 - length t = Suc n" using assms(4) by (cases "1024 - length t") auto
  then have "recv_buffer t = t @ CHR 0x00 # replicate n (CHR 0x00)"
  proof -
    have "n \<le> 1023" "replicate (1024 - length t) (CHR 0x00) = CHR 0x00 # replicate n (CHR 0x00)" using n by simp_all
    with assms(4) n show ?thesis by (simp add: recv_buffer_def min_def)
  qed
  with json_parse_terminated [OF assms(1-3)] show ?thesis by simp
qed

lemma shown_present: "json_get k j = Some v \<Longrightarrow> json_dump F v = Inr t \<Longrightarrow> shown F k j = Inr (t, j)"
  by (simp add: shown_def json_index_present)

end
