(* ===== verification/Client_Properties.thy ===== *)
theory Client_Properties
  imports Client_Facts
begin

section \<open>The client on its own\<close>

text \<open>
  Properties of \<open>src/client/main.cpp\<close> that do not depend on the server: what a line that does not
  fit its buffer does to the client, the name it sends, and replies that arrive together.
\<close>

lemma extract_number:
  assumes "good s" and "unread s = nat_digits n @ CHR 0x0A # r" and "int n < 2 ^ 31"
  shows "extract_int i s = (int n, s\<lparr>unread := CHR 0x0A # r\<rparr>)"
proof -
  obtain c ds where d: "nat_digits n = c # ds" "is_digit c" "\<forall>d \<in> set ds. is_digit d" using nat_digits_Cons by blast
  have "number_ends (CHR 0x0A # r)" by (simp add: number_ends_def is_digit_def)
  then have sp: "takeWhile is_digit (nat_digits n @ CHR 0x0A # r) = nat_digits n" "dropWhile is_digit (nat_digits n @ CHR 0x0A # r) = CHR 0x0A # r"
    using d by (intro span_digits; simp)+
  have "\<not> isspace c" "read_sign (c # u) = (False, c # u)" for u
    using d(2) by (auto simp: isspace_def is_digit_def read_sign_def)
  then have "dropWhile isspace (unread s) = nat_digits n @ CHR 0x0A # r" "read_sign (nat_digits n @ CHR 0x0A # r) = (False, nat_digits n @ CHR 0x0A # r)"
    using assms(2) d(1) by simp_all
  moreover have "signed_value False (nat_digits n) = int n" by (simp add: signed_value_def digits_value_nat_digits)
  moreover have "nat_digits n \<noteq> []" using d(1) by simp
  moreover have "\<not> int n < - (2 ^ 31)" "\<not> 2 ^ 31 \<le> int n" using assms(3) by linarith+
  moreover have "s\<lparr>unread := CHR 0x0A # r, eofbit := False\<rparr> = s\<lparr>unread := CHR 0x0A # r\<rparr>" using assms(1) by (simp add: good_def)
  ultimately show ?thesis using assms(1) sp by (simp add: extract_int_def Let_def)
qed

definition ex_fp :: fp_env where
  "ex_fp = \<lparr>fp_to_chars = (\<lambda>m e. ''0.0''), fp_strtod = (\<lambda>s. None)\<rparr>"

definition ex_now :: tm where
  "ex_now = \<lparr>tm_year = 125, tm_mon = 0, tm_mday = 2, tm_hour = 3, tm_min = 4, tm_sec = 5\<rparr>"

definition ex_client_env :: client_env where
  "ex_client_env = \<lparr>ce_fp = ex_fp, ce_now = (\<lambda>c. ex_now), ce_send = (\<lambda>buf c. int (length buf))\<rparr>"

lemma ex_send: "ce_send ex_client_env buf c = int (length buf)"
  by (simp add: ex_client_env_def)

text \<open>
  C38. A password of 20 or more characters typed at the login prompt: the request carries only its
  first 19 characters and the input stream has failed. Whatever the server answers and whatever is
  typed afterwards, the client reads nothing more from the keyboard, sends nothing more and never takes
  the choice to quit. And in every infinite run in which the main thread moves again and again (it waits
  in \<open>sem_wait\<close> until the server has answered) the client ends up in one of its two menus for ever and
  prints the complaint of that menu again and again, more often than any bound.
\<close>

theorem long_password_locks_client:
  assumes "phase c = AtMenu" and "good (cin c)"
    and "unread (cin c) = nat_digits 1 @ CHR 0x0A # nat_digits n @ CHR 0x0A # pw @ CHR 0x0A # r" and "int n < 2 ^ 31"
    and "CHR 0x0A \<notin> set pw" and "20 \<le> length pw" and "utf8_ok (cstr (take 19 pw))"
    and "\<And>buf d. ce_send E buf d = int (length buf)"
    and "client_reach E (settle c (main_turn E c)) c'"
  shows "outbox c' = outbox c @ [json_text (ce_fp E) (json_obj [(''msgid'', JInt LOGIN_MSG), (''id'', JInt (int n)),
      (''password'', JStr (cstr (take 19 pw)))])] \<and> phase c' \<noteq> Exited 0 \<and> cin c' = cin (settle c (main_turn E c)) \<and>
    (\<forall>run. run 0 = c' \<and> (\<forall>i. client_step E (run i) (run (Suc i))) \<and> (\<forall>i. \<exists>j\<ge>i. main_step E (run j) (run (Suc j))) \<longrightarrow>
      (\<exists>ph \<in> {AtMenu, InMenu}. (\<exists>i. \<forall>j\<ge>i. phase (run j) = ph) \<and>
        (\<forall>k. \<exists>j. k \<le> count_list (screen (run j)) (stuck_text ph))))"
proof -
  let ?js = "json_obj [(''msgid'', JInt LOGIN_MSG), (''id'', JInt (int n)), (''password'', JStr (cstr (take 19 pw)))]"
  have ty: "json_typed ?js"
    using assms(4,7) int32_typed [of "int n"] by (intro json_obj_props(1)) (simp del: json_typed.simps(1))
  let ?s1 = "(cin c)\<lparr>unread := nat_digits n @ CHR 0x0A # pw @ CHR 0x0A # r\<rparr>"
    and ?s2 = "(cin c)\<lparr>unread := pw @ CHR 0x0A # r\<rparr>"
  have skip: "good s \<Longrightarrow> unread s = CHR 0x0A # u \<Longrightarrow> cin_get s = s\<lparr>unread := u\<rparr>" for s u by (simp add: cin_get_def)
  have g: "good ((cin c)\<lparr>unread := u\<rparr>)" for u using assms(2) by (simp add: good_def)
  have "extract_int 0 (cin c) = (1, (cin c)\<lparr>unread := CHR 0x0A # unread ?s1\<rparr>)"
    using extract_number [OF assms(2,3)] by simp
  then have m: "main_turn E c = choose_login E ((fold print_line menu_lines c)\<lparr>cin := ?s1\<rparr>)"
    by (simp add: main_turn_def Let_def skip g)
  have "extract_int 0 ?s1 = (int n, (cin c)\<lparr>unread := CHR 0x0A # pw @ CHR 0x0A # r\<rparr>)"
    using extract_number [OF g _ assms(4)] by simp
  moreover have "getline 20 ?s2 = (take 19 pw, ?s2\<lparr>unread := drop 19 (unread ?s2), failbit := True\<rparr>)"
    using getline_long [OF g _ assms(5,6)] by simp
  ultimately obtain c1 where c1: "main_turn E c = Inr c1" "outbox c1 = outbox c @ [json_text (ce_fp E) ?js]" "failbit (cin c1)" "phase c1 = WaitLogin"
    unfolding m choose_login_def
    by (simp add: skip g Let_def json_dump_text [OF ty] client_send_def assms(8) error_if_def)
  have r: "client_reach E c1 c'" using assms(9) c1(1) by (simp add: settle_def)
  have p: "phase c1 \<noteq> Exited 0" "phase c1 = InMenu \<longrightarrow> isMainMenuRunning c1" using c1(4) by simp_all
  note same = failed_reach [OF r c1(3) p(1)] and menu = failed_reach_running [OF r c1(3) p(2,1)]
  have "\<exists>ph \<in> {AtMenu, InMenu}. (\<exists>i. \<forall>j\<ge>i. phase (run j) = ph) \<and> (\<forall>k. \<exists>j. k \<le> count_list (screen (run j)) (stuck_text ph))"
    if "run 0 = c'" "\<forall>i. client_step E (run i) (run (Suc i))" "\<forall>i. \<exists>j\<ge>i. main_step E (run j) (run (Suc j))" for run
    using failed_run [of E run] that same c1(3) menu by simp
  with same c1(1,2) show ?thesis by (simp add: settle_def)
qed

text \<open>
  The server refuses the cut password, and the main menu comes back for ever.
\<close>

definition ex_refusal :: json where
  "ex_refusal = json_obj [(''msgid'', JInt LOGIN_MSG_ACK), (''errno'', JInt 1), (''errormsg'', JStr ''wrong'')]"

lemma ex_refusal_facts:
  "json_typed ex_refusal" "json_no_float ex_refusal" "length (json_text ex_fp ex_refusal) \<le> 1024" "json_text ex_fp ex_refusal \<noteq> []"
  "json_norm ex_refusal = JObj [(''errno'', JUint 1), (''errormsg'', JStr ''wrong''), (''msgid'', JUint 2)]"
  by code_simp+

lemma ex_refusal_read:
  "read_turn ex_fp (Some (json_text ex_fp ex_refusal)) c =
     Inr (c\<lparr>screen := screen c @ [json_text ex_fp (JStr ''wrong'')], isLoginSuccess := False, rwSem := rwSem c + 1\<rparr>)"
proof -
  have "json_parse ex_fp (recv_buffer (json_text ex_fp ex_refusal)) =
      Some (JObj [(''errno'', JUint 1), (''errormsg'', JStr ''wrong''), (''msgid'', JUint 2)])"
    using recv_parse [OF json_dump_text ex_refusal_facts(1-3)] ex_refusal_facts(1,5) by simp
  moreover have "json_dump ex_fp (JStr ''wrong'') = Inr (json_text ex_fp (JStr ''wrong''))"
    by (rule json_dump_text) code_simp
  ultimately show ?thesis
    by (simp add: read_turn_def parseR_def field_int_def doLoginResponse_def shown_def msg_defs to_int32_def print_line_def)
qed

definition ex_long_password :: string where
  "ex_long_password = ''1'' @ CHR 0x0A # ''7'' @ CHR 0x0A # replicate 20 (CHR ''x'') @ [CHR 0x0A]"

definition ex_asked :: client where
  "ex_asked = settle (client_start ex_long_password) (main_turn ex_client_env (client_start ex_long_password))"

definition ex_refused :: client where
  "ex_refused = ex_asked\<lparr>screen := screen ex_asked @ [json_text ex_fp (JStr ''wrong'')], isLoginSuccess := False, rwSem := 1\<rparr>"

definition ex_locked :: "nat \<Rightarrow> client" where
  "ex_locked i =
     (if i = 0 then ex_asked else if i = 1 then ex_refused
      else ex_refused\<lparr>rwSem := 0, phase := AtMenu,
        screen := screen ex_refused @ concat (replicate (i - 2) (menu_lines @ [''Invalid input!!'']))\<rparr>)"

lemma ex_asked_facts: "phase ex_asked = WaitLogin" "rwSem ex_asked = 0" "failbit (cin ex_asked)"
  by code_simp+

lemma ex_locked_main: "0 < i \<Longrightarrow> main_step ex_client_env (ex_locked i) (ex_locked (Suc i))"
proof (cases "i = 1")
  case True
  have "main_step ex_client_env ex_refused (after_login (ex_refused\<lparr>rwSem := rwSem ex_refused - 1\<rparr>))"
    by (rule main_step.login_wait) (simp_all add: ex_refused_def ex_asked_facts)
  moreover have "after_login (ex_refused\<lparr>rwSem := rwSem ex_refused - 1\<rparr>) = ex_locked (Suc 1)" "ex_refused = ex_locked 1"
    by (simp_all add: ex_locked_def after_login_def ex_refused_def)
  ultimately show ?thesis by (simp add: True)
next
  case False
  assume "0 < i"
  with False obtain n where n: "i = Suc (Suc n)" by (metis One_nat_def gr0_implies_Suc old.nat.exhaust)
  have "concat (replicate (Suc n) xs) = concat (replicate n xs) @ xs" for xs :: "string list"
    by (induction n) simp_all
  then have "phase (ex_locked i) = AtMenu" "failbit (cin (ex_locked i))"
    and s: "(ex_locked i)\<lparr>screen := screen (ex_locked i) @ menu_lines @ [''Invalid input!!'']\<rparr> = ex_locked (Suc i)"
    by (simp_all add: n ex_locked_def ex_refused_def ex_asked_facts del: replicate.simps)
  with failed_main_turn [of "ex_locked i" ex_client_env] main_step.menu [of "ex_locked i" ex_client_env] show ?thesis
    by (simp add: settle_def)
qed

lemma ex_locked_step: "client_step ex_client_env (ex_locked i) (ex_locked (Suc i))"
proof (cases "i = 0")
  case True
  have "client_step ex_client_env ex_asked (settle ex_asked (read_turn ex_fp (Some (json_text ex_fp ex_refusal)) ex_asked))"
    using client_step.receive [of ex_asked "Some (json_text ex_fp ex_refusal)" ex_client_env]
    by (simp add: alive_def ex_asked_facts ex_client_env_def ex_refusal_facts(3,4))
  then show ?thesis by (simp add: True ex_locked_def ex_refusal_read settle_def ex_refused_def ex_asked_facts)
next
  case False
  then show ?thesis using ex_locked_main [of i] by (simp add: client_step_iff)
qed

theorem long_password_locks_client_witness:
  "outbox ex_asked = [json_text ex_fp (json_obj [(''msgid'', JInt LOGIN_MSG), (''id'', JInt 7), (''password'', JStr (replicate 19 (CHR ''x'')))])] \<and>
   (\<forall>i. client_step ex_client_env (ex_locked i) (ex_locked (Suc i))) \<and>
   (\<forall>k. \<exists>j. k \<le> count_list (screen (ex_locked j)) ''Invalid input!!'')"
proof -
  let ?c = "client_start ex_long_password"
  have "nat_digits 1 = ''1''" "nat_digits 7 = ''7''" by code_simp+
  then have k: "unread (cin ?c) = nat_digits 1 @ CHR 0x0A # nat_digits 7 @ CHR 0x0A # replicate 20 (CHR ''x'') @ CHR 0x0A # []"
    by (simp add: client_start_def ex_long_password_def)
  have t: "cstr (take 19 (replicate 20 (CHR ''x''))) = replicate 19 (CHR ''x'')" "CHR 0x0A \<notin> set (replicate 20 (CHR ''x''))"
    by (simp_all add: cstr_def)
  have u: "utf8_ok (cstr (take 19 (replicate 20 (CHR ''x''))))" unfolding t by (rule utf8_ok_all_ascii) simp
  have g: "phase ?c = AtMenu" "good (cin ?c)" "outbox ?c = []"
    by (simp_all add: client_start_def good_def)
  note locked = long_password_locks_client [OF g(1,2) k _ t(2) _ u ex_send client_reach.start, folded ex_asked_def]
  have o: "outbox ex_asked = [json_text ex_fp (json_obj [(''msgid'', JInt LOGIN_MSG), (''id'', JInt 7), (''password'', JStr (replicate 19 (CHR ''x'')))])]"
    using locked g(3) t(1) by (simp add: ex_client_env_def)
  have "\<exists>j\<ge>i. main_step ex_client_env (ex_locked j) (ex_locked (Suc j))" for i
    using ex_locked_main [of "Suc i"] by (intro exI [of _ "Suc i"]) simp
  then obtain ph i where ph: "\<forall>j\<ge>i. phase (ex_locked j) = ph" "\<forall>k. \<exists>j. k \<le> count_list (screen (ex_locked j)) (stuck_text ph)"
    using locked [THEN conjunct2, THEN conjunct2, THEN conjunct2, rule_format, of ex_locked] ex_locked_step
    by (force simp: ex_locked_def)
  have "ph = AtMenu" using ph(1) [rule_format, of "i + 2"] by (simp add: ex_locked_def)
  then show ?thesis using o ex_locked_step ph(2) by (simp add: stuck_text_def)
qed

text \<open>
  The name of \<open>currentUser\<close> is empty in every state the client can get into, since the
  assignment in \<open>doLoginResponse\<close> is commented out; so every private message it sends carries
  an empty name, whoever is logged in.
\<close>

theorem client_name_always_empty:
  assumes "client_reach E (client_start keyboard) c"
  shows "user_name (currentUser c) = [] \<and>
    (\<forall>friend_text message. CHR 0x3A \<notin> set friend_text \<and> message \<noteq> [] \<longrightarrow>
      client_chat E (friend_text @ CHR 0x3A # message) c =
        send_command E (json_obj [(''msgid'', JInt ONE_CHAT_MSG), (''id'', JInt (user_id (currentUser c))), (''name'', JStr []),
          (''to'', JInt (atoi friend_text)), (''msg'', JStr message), (''time'', JStr (getCurrentTime (ce_now E c)))])
          ''send chat msg error'' c)"
proof -
  have "user_name (currentUser c) = []"
    using name_reach [OF assms] by (simp add: client_start_def User_default_def)
  then show ?thesis by (simp add: client_chat_def split_colon_append)
qed

theorem client_name_always_empty_witness:
  "client_chat ex_client_env (''2'' @ CHR 0x3A # ''hi'') (client_start []) =
     send_command ex_client_env (json_obj [(''msgid'', JInt ONE_CHAT_MSG), (''id'', JInt (- 1)), (''name'', JStr []),
       (''to'', JInt (atoi ''2'')), (''msg'', JStr ''hi''), (''time'', JStr (getCurrentTime ex_now))])
       ''send chat msg error'' (client_start [])"
proof -
  have "user_id (currentUser (client_start [])) = - 1" "ce_now ex_client_env (client_start []) = ex_now"
    by (simp_all add: client_start_def User_default_def ex_client_env_def)
  then show ?thesis
    using client_name_always_empty [OF client_reach.start, where E = ex_client_env and keyboard = "[]",
        THEN conjunct2, rule_format, of "''2''" "''hi''"] by simp
qed

text \<open>
  The receiving thread takes whatever one \<open>recv\<close> gives as one message: when two objects
  the server printed arrive in one buffer, the parser throws, nothing in the thread catches the
  exception, and the client process ends, wherever its main thread is.
\<close>

theorem coalesced_messages_terminate:
  assumes "json_sendable j" and "json_dump (ce_fp E) j = Inr t" and "json_dump (ce_fp E) (JObj kvs) = Inr t'"
    and "length (t @ t') \<le> 1024" and "alive c"
  shows "client_step E c (c\<lparr>phase := Terminated parse_error\<rparr>)"
proof -
  obtain r where r: "t' = CHR 0x7B # r" using assms(3) by (auto simp: bindR_Inr_iff split: if_splits)
  obtain z where "recv_buffer (t @ t') = t @ CHR 0x7B # z"
    using assms(4) by (simp add: recv_buffer_def r take_Cons' split: if_splits)
  with json_parse_coalesced [OF assms(2)] assms(1) have "read_turn (ce_fp E) (Some (t @ t')) c = Inl parse_error"
    by (simp add: read_turn_def parseR_def json_sendable_def)
  with client_step.receive [OF assms(5), of "Some (t @ t')" E] assms(4) r show ?thesis by (simp add: settle_def)
qed

theorem coalesced_messages_terminate_witness:
  "client_step ex_client_env (client_start []) ((client_start [])\<lparr>phase := Terminated parse_error\<rparr>)"
  by (rule coalesced_messages_terminate [of "JObj []" _ "''{}''" "[]" "''{}''"])
    (simp_all add: json_sendable_def obj_wf_def alive_def client_start_def)

end
