(* ===== verification/Chat_Properties.thy ===== *)
theory Chat_Properties
  imports Example_Node
begin

section \<open>Private messages\<close>

text \<open>
  Properties of \<open>oneChat\<close> and \<open>addFriend\<close> of \<open>src/server/chatservice.cpp\<close> and of the
  messages kept for absent users.
\<close>

lemma oneChat_fields:
  assumes "json_get ''msg'' js = Some (JStr text)" and "text \<noteq> []"
    and "json_get ''id'' js = Some v" and "get_int v = Inr i"
    and "json_get ''to'' js = Some v'" and "get_int v' = Inr t"
  shows "oneChat E conn js w = map_option (\<lambda>w'. (Inr (), w')) (oneChat_checked E conn i t js w)"
  using assms
  by (simp add: oneChat_def empty_msg_def json_index_present json_is_null_def json_contains_get field_int_present)

lemma oneChat_checked_eq:
  "oneChat_checked E conn i t js w =
     (let q = FriendModel_query (c_sql E) i (ms (off w)); w1 = w\<lparr>off := (off w)\<lparr>ms := snd q\<rparr>\<rparr>
      in if t \<in> set (map user_id (fst q)) then deliver_or_store E conn t js w1
         else Some (send conn (ack E 1 ''errormsg'' ''No this friend'') w1))"
  by (simp add: oneChat_checked_def on_mysql_eq Let_def)

lemma friend_ids:
  assumes "tables_wf cfg tb"
  shows "fst ` set (friend_rows tb u) = {f. (u, f) \<in> set (t_Friend tb)}"
proof -
  have "\<exists>n p st. (f, n, p, st) \<in> set (t_User tb)" if "(u, f) \<in> set (t_Friend tb)" for f
  proof -
    from assms that have "f \<in> set (user_ids tb)" unfolding tables_wf_def by blast
    then obtain r where "r \<in> set (t_User tb)" "fst r = f" by (auto simp: user_ids_def)
    then show ?thesis by (metis prod.collapse)
  qed
  then show ?thesis unfolding friend_rows_set by (auto simp: image_iff)
qed

lemma FriendModel_query_friends:
  assumes "mysql_reliable cfg (c_sql E) tv" and "available m" and "tables_wf cfg (tv (db m))"
  shows "f \<in> set (map user_id (fst (FriendModel_query (c_sql E) u m))) \<longleftrightarrow> (u, f) \<in> set (t_Friend (tv (db m)))"
  using mysql_reliable.FriendModel_query_ok [OF assms(1,2)] friend_ids [OF assms(3)] by blast

context mysql_server
begin

text \<open>The friend query changes no table.\<close>

lemma FriendModel_query_tables: "\<exists>l. view (db (snd (FriendModel_query exec u m))) = (view (db m))\<lparr>last_id := l\<rparr>"
proof -
  have s: "\<exists>l. view d' = (view d)\<lparr>last_id := l\<rparr>" if "exec c (SelectFriends u) d = (r, d')" for c d r d'
  proof (cases r)
    case (Inl e)
    with that exec_raise show ?thesis by auto
  next
    case (Inr rows)
    with that exec_effect [of c "SelectFriends u" d rows d'] have "view d' = view d" by simp
    then show ?thesis by (intro exI [of _ "last_id (view d)"]) simp
  qed
  have q: "\<exists>l. view d' = (view d)\<lparr>last_id := l\<rparr>" if "query_with exec (SelectFriends u) rf c d = (r, d')" for rf :: "sql_row list \<Rightarrow> sql_exc + user list" and c d r d'
    using that s by (auto simp: query_with_def split: prod.splits sum.splits)
  have "\<exists>l. view (db m) = (view (db m))\<lparr>last_id := l\<rparr>" by (intro exI [of _ "last_id (view (db m))"]) simp
  then show ?thesis unfolding FriendModel_query_def
    by (cases rule: sql_call_cases [of m "[]" "[]" False "query_with exec (SelectFriends u) (mapR read_friend)"])
      (auto dest: q)
qed

lemma FriendModel_query_stored:
  "stored (view (db (snd (FriendModel_query exec u m)))) = stored (view (db m))"
  "offline_row_ok (view (db (snd (FriendModel_query exec u m)))) r t = offline_row_ok (view (db m)) r t"
  using FriendModel_query_tables [of u m] by (auto simp: stored_def offline_row_ok_def user_ids_def)

end

lemma oneChat_deliver:
  assumes "mysql_reliable cfg (c_sql E) tv" and "available (ms (off w))" and "tables_wf cfg (tv (db (ms (off w))))"
    and "json_get ''msg'' js = Some (JStr text)" and "text \<noteq> []"
    and "json_get ''id'' js = Some v" and "get_int v = Inr i" and "json_get ''to'' js = Some v'" and "get_int v' = Inr t"
    and "map_of (userConnMap w) t = Some c"
  shows "\<exists>w'. oneChat E conn js w = Some (Inr (), w') \<and>
    sent w' = sent w @
      (if (i, t) \<in> set (t_Friend (tv (db (ms (off w)))))
       then [(conn, ack E 0 ''msg'' ''MSG have sent''), (c, c_dump E js)]
       else [(conn, ack E 1 ''errormsg'' ''No this friend'')]) \<and>
    stored (tv (db (ms (off w')))) = stored (tv (db (ms (off w)))) \<and> failedQueue (off w') = failedQueue (off w) \<and>
    userConnMap w' = userConnMap w \<and> groupMembers w' = groupMembers w \<and> rc w' = rc w"
proof -
  let ?q = "FriendModel_query (c_sql E) i (ms (off w))"
  have "stored (tv (db (snd ?q))) = stored (tv (db (ms (off w))))"
    using mysql_server.FriendModel_query_stored(1) [OF mysql_reliable.axioms(1) [OF assms(1)]] .
  moreover have "t \<in> set (map user_id (fst ?q)) \<longleftrightarrow> (i, t) \<in> set (t_Friend (tv (db (ms (off w)))))"
    by (rule FriendModel_query_friends [OF assms(1-3)])
  ultimately show ?thesis
    using assms(10)
    by (simp add: oneChat_fields [OF assms(4-9)] oneChat_checked_eq Let_def deliver_or_store_def del: set_map)
qed

text \<open>
  C2. A private message to a user who is connected to this node, on a working database: if the
  sender has a friendship row towards the receiver, the sender gets the acknowledgement and the
  receiver's connection gets exactly the message, in this order, and if not, the sender gets errno 1
  and nobody else gets anything; either way nothing is stored, no map changes and Redis is not used.
\<close>

theorem oneChat_online_correct:
  assumes "mysql_reliable cfg (c_sql E) tv" and "available (ms (off w))" and "tables_wf cfg (tv (db (ms (off w))))"
    and "json_get ''msg'' js = Some (JStr text)" and "text \<noteq> []"
    and "json_get ''id'' js = Some v" and "get_int v = Inr i" and "json_get ''to'' js = Some v'" and "get_int v' = Inr t"
    and "map_of (userConnMap w) t = Some c"
  shows "\<exists>w'. oneChat E conn js w = Some (Inr (), w') \<and>
    sent w' = sent w @
      (if (i, t) \<in> set (t_Friend (tv (db (ms (off w)))))
       then [(conn, ack E 0 ''msg'' ''MSG have sent''), (c, c_dump E js)]
       else [(conn, ack E 1 ''errormsg'' ''No this friend'')]) \<and>
    stored (tv (db (ms (off w')))) = stored (tv (db (ms (off w)))) \<and> failedQueue (off w') = failedQueue (off w) \<and>
    userConnMap w' = userConnMap w \<and> groupMembers w' = groupMembers w \<and> rc w' = rc w"
  by (rule oneChat_deliver [OF assms])

theorem oneChat_online_correct_witness:
  "\<exists>w'. oneChat ex_env 7 (json_obj [(''id'', JInt 1), (''to'', JInt 2), (''msg'', JStr ''hello'')])
      ((ex_state [Some 0, Some 1])\<lparr>userConnMap := [(1, 7), (2, 8)]\<rparr>) = Some (Inr (), w') \<and>
     sent w' = [(7, ''errno 0''), (8, ''hello'')]"
proof -
  let ?w = "(ex_state [Some 0, Some 1])\<lparr>userConnMap := [(1, 7), (2, 8)]\<rparr>"
  let ?js = "json_obj [(''id'', JInt 1), (''to'', JInt 2), (''msg'', JStr ''hello'')]"
  have "available (ms (off ?w))" "tables_wf ex_cfg (db (ms (off ?w)))"
    using ex_available ex_tables_wf [of "[Some 0, Some 1]"] by simp_all
  moreover have "json_get ''msg'' ?js = Some (JStr ''hello'')" "json_get ''id'' ?js = Some (JInt 1)"
    "json_get ''to'' ?js = Some (JInt 2)" "get_int (JInt 1) = Inr 1" "get_int (JInt 2) = Inr 2"
    by (simp_all add: json_get_json_obj to_int32_def)
  moreover have "map_of (userConnMap ?w) 2 = Some 8" by simp
  moreover have "(1, 2) \<in> set (t_Friend (db (ms (off ?w))))" "sent ?w = []" by (simp_all add: ex_defs)
  moreover have "ack ex_env 0 ''msg'' ''MSG have sent'' = ''errno 0''" "c_dump ex_env ?js = ''hello''"
    by (simp_all add: ex_env_def ack_def ex_dump_def json_get_json_obj ex_text)
  ultimately show ?thesis
    using oneChat_online_correct [OF ex_env_sql, of ?w ?js "''hello''" "JInt 1" 1 "JInt 2" 2 8 7] by auto
qed

text \<open>
  C3. A private message to a friend who is not connected: whatever fails in the database or the
  pool, if \<open>oneChat\<close> returns, then the message has been added behind everything stored and
  queued before, nothing of which is lost or reordered, and the sender has got the acknowledgement.
\<close>

theorem oneChat_offline_no_loss:
  assumes "mysql_server cfg (c_sql E) tv"
    and "json_get ''msg'' js = Some (JStr text)" and "text \<noteq> []"
    and "json_get ''id'' js = Some v" and "get_int v = Inr i" and "json_get ''to'' js = Some v'" and "get_int v' = Inr t"
    and "map_of (userConnMap w) t = None" and "t \<in> set (map user_id (fst (FriendModel_query (c_sql E) i (ms (off w)))))"
    and "oneChat E conn js w = Some (r, w')"
  shows "stored (tv (db (ms (off w')))) @ failedQueue (off w') =
      stored (tv (db (ms (off w)))) @ failedQueue (off w) @ [(t, c_dump E js)] \<and>
    r = Inr () \<and> sent w' = sent w @ [(conn, ack E 0 ''msg'' ''Send offline MSG'')]"
proof -
  let ?o = "(off w)\<lparr>ms := snd (FriendModel_query (c_sql E) i (ms (off w)))\<rparr>"
  obtain b o' where o': "OfflineMessage_insert (c_sql E) t (c_dump E js) ?o = Some (b, o')"
    and w': "r = Inr ()" "w' = send conn (ack E 0 ''msg'' ''Send offline MSG'') (w\<lparr>off := o'\<rparr>)"
    using assms(8-10)
    by (auto simp: oneChat_fields [OF assms(2-7)] oneChat_checked_eq Let_def deliver_or_store_def
        simp del: set_map split: option.splits)
  from mysql_server.OfflineMessage_insert_effect [OF assms(1) o'] w' show ?thesis
    by (simp add: mysql_server.FriendModel_query_stored(1) [OF assms(1)])
qed

lemma ex_hello:
  "json_get ''msg'' (json_obj [(''id'', JInt 1), (''to'', JInt 2), (''msg'', JStr ''hello'')]) = Some (JStr ''hello'')"
  "json_get ''id'' (json_obj [(''id'', JInt 1), (''to'', JInt 2), (''msg'', JStr ''hello'')]) = Some (JInt 1)"
  "json_get ''to'' (json_obj [(''id'', JInt 1), (''to'', JInt 2), (''msg'', JStr ''hello'')]) = Some (JInt 2)"
  "get_int (JInt 1) = Inr 1" "get_int (JInt 2) = Inr 2"
  by (simp_all add: json_get_json_obj to_int32_def)

lemma ex_friends: "2 \<in> set (map user_id (fst (FriendModel_query (c_sql ex_env) 1 (ms (off (ex_state (Some 0 # cs)))))))"
  by (simp add: FriendModel_query_def sql_call_conn query_with_def ex_defs ref_sql_def friend_rows_def read_friend_row)

lemma ex_friends_pool:
  "snd (FriendModel_query (c_sql ex_env) 1 (ms (off (ex_state (Some 0 # cs))))) = ms (off (ex_state cs))"
  by (simp add: FriendModel_query_def sql_call_conn query_with_def ex_defs ref_sql_def friend_rows_def read_friend_row)

lemma ex_hello_dump: "c_dump ex_env (json_obj [(''id'', JInt 1), (''to'', JInt 2), (''msg'', JStr ''hello'')]) = ''hello''"
  by (simp add: ex_env_def ex_dump_def json_get_json_obj)

lemma ex_hello_stored:
  obtains w' where "oneChat ex_env 7 (json_obj [(''id'', JInt 1), (''to'', JInt 2), (''msg'', JStr ''hello'')])
      (ex_state [Some 0, Some 1]) = Some (Inr (), w')"
    and "stored (db (ms (off w'))) = [(2, ''hello'')]" and "failedQueue (off w') = []"
proof -
  let ?w = "ex_state [Some 0, Some 1]"
  have w: "map_of (userConnMap ?w) 2 = None" "stored (db (ms (off (ex_state cs)))) = []" for cs
    by (simp_all add: ex_defs stored_def)
  have en: "sql_enabled ex_cfg (InsertOffline 2 ''hello'') (db (ms (off (ex_state cs))))" for cs
    by (simp add: ex_defs row_ok_defs table_defs keys_left_def utf8_length_def)
  have off: "(off ?w)\<lparr>ms := snd (FriendModel_query (c_sql ex_env) 1 (ms (off ?w)))\<rparr> = off (ex_state [Some 1])"
    by (simp only: ex_friends_pool) (simp add: ex_state_def)
  have "available (ms (off (ex_state [Some 1])))" "failedQueue (off (ex_state [Some 1])) = []"
    by (simp_all add: ex_defs available_def no_null_def)
  then obtain o' where o': "OfflineMessage_insert (c_sql ex_env) 2 ''hello'' (off (ex_state [Some 1])) = Some (True, o')"
    "failedQueue o' = []" "stored (db (ms o')) = [(2, ''hello'')]"
    using mysql_reliable.OfflineMessage_insert_ok [OF ex_env_sql _ _ en, of "[Some 1]"] w(2) by auto
  then show thesis
    using ex_friends [of "[Some 1]"] w off
    by (intro that [of "send 7 (ack ex_env 0 ''msg'' ''Send offline MSG'') (?w\<lparr>off := o'\<rparr>)"])
      (simp_all add: oneChat_fields [OF ex_hello(1) _ ex_hello(2,4,3,5)] oneChat_checked_eq Let_def
        deliver_or_store_def ex_hello_dump del: set_map)
qed

theorem oneChat_offline_no_loss_witness:
  "stored (db (ms (off (snd (the (oneChat ex_env 7 (json_obj [(''id'', JInt 1), (''to'', JInt 2), (''msg'', JStr ''hello'')])
      (ex_state [Some 0, Some 1]))))))) = [(2, ''hello'')]"
proof -
  let ?w = "ex_state [Some 0, Some 1]"
  have w: "map_of (userConnMap ?w) 2 = None" "failedQueue (off ?w) = []" "stored (db (ms (off ?w))) = []"
    by (simp_all add: ex_defs stored_def)
  obtain w' where r: "oneChat ex_env 7 (json_obj [(''id'', JInt 1), (''to'', JInt 2), (''msg'', JStr ''hello'')]) ?w =
      Some (Inr (), w')" "failedQueue (off w') = []" by (rule ex_hello_stored)
  with oneChat_offline_no_loss [OF ex_env_mysql ex_hello(1) _ ex_hello(2,4,3,5) w(1) ex_friends r(1)] w
  show ?thesis by (simp add: ex_hello_dump)
qed

text \<open>
  C35. A private message to a friend who is not connected, on a working database with a connection to
  spare after the friend query: \<open>oneChat\<close> returns, the message is in the table, nothing is
  queued, and the sender has got the acknowledgement.
\<close>

theorem oneChat_offline_stored:
  assumes "mysql_reliable cfg (c_sql E) tv" and "available (ms (off w))" and "tables_wf cfg (tv (db (ms (off w))))"
    and "1 < length (connections (pool (ms (off w))))"
    and "json_get ''msg'' js = Some (JStr text)" and "text \<noteq> []"
    and "json_get ''id'' js = Some v" and "get_int v = Inr i" and "json_get ''to'' js = Some v'" and "get_int v' = Inr t"
    and "map_of (userConnMap w) t = None" and "(i, t) \<in> set (t_Friend (tv (db (ms (off w)))))"
    and "failedQueue (off w) = []" and "sql_enabled cfg (InsertOffline t (c_dump E js)) (tv (db (ms (off w))))"
  shows "\<exists>w'. oneChat E conn js w = Some (Inr (), w') \<and>
    stored (tv (db (ms (off w')))) = stored (tv (db (ms (off w)))) @ [(t, c_dump E js)] \<and>
    failedQueue (off w') = [] \<and> sent w' = sent w @ [(conn, ack E 0 ''msg'' ''Send offline MSG'')]"
proof -
  let ?q = "FriendModel_query (c_sql E) i (ms (off w))"
  let ?o = "(off w)\<lparr>ms := snd ?q\<rparr>"
  have srv: "mysql_server cfg (c_sql E) tv" by (rule mysql_reliable.axioms(1) [OF assms(1)])
  obtain x xs where xs: "connections (pool (ms (off w))) = x # xs" "xs \<noteq> []"
    using assms(4) by (cases "connections (pool (ms (off w)))") auto
  have av: "available (ms ?o)"
    using assms(2) xs by (simp add: available_def no_null_def FriendModel_query_pool getConnection_def)
  obtain l where "tv (db (snd ?q)) = (tv (db (ms (off w))))\<lparr>last_id := l\<rparr>"
    using mysql_server.FriendModel_query_tables [OF srv] by blast
  then have en: "sql_enabled cfg (InsertOffline t (c_dump E js)) (tv (db (ms ?o)))"
    using assms(14) by (simp add: offline_row_ok_def user_ids_def offline_ids_def)
  have fr: "t \<in> set (map user_id (fst ?q))"
    using FriendModel_query_friends [OF assms(1-3)] assms(12) by blast
  obtain o' where o': "OfflineMessage_insert (c_sql E) t (c_dump E js) ?o = Some (True, o')"
    "stored (tv (db (ms o'))) = stored (tv (db (ms ?o))) @ [(t, c_dump E js)]" "failedQueue o' = []"
    using mysql_reliable.OfflineMessage_insert_ok [OF assms(1) av _ en] assms(13) by auto
  with fr assms(11) mysql_server.FriendModel_query_stored(1) [OF srv] show ?thesis
    by (simp add: oneChat_fields [OF assms(5-10)] oneChat_checked_eq Let_def deliver_or_store_def del: set_map)
qed

theorem oneChat_offline_stored_witness:
  "\<exists>w'. oneChat ex_env 7 (json_obj [(''id'', JInt 1), (''to'', JInt 2), (''msg'', JStr ''hello'')]) (ex_state [Some 0, Some 1]) =
     Some (Inr (), w') \<and> stored (db (ms (off w'))) = [(2, ''hello'')]"
proof -
  let ?w = "ex_state [Some 0, Some 1]"
  let ?js = "json_obj [(''id'', JInt 1), (''to'', JInt 2), (''msg'', JStr ''hello'')]"
  note d = ex_hello_dump
  have "1 < length (connections (pool (ms (off ?w))))" "map_of (userConnMap ?w) 2 = None"
    "(1, 2) \<in> set (t_Friend (db (ms (off ?w))))" "failedQueue (off ?w) = []" "stored (db (ms (off ?w))) = []"
    "sql_enabled ex_cfg (InsertOffline 2 (c_dump ex_env ?js)) (db (ms (off ?w)))"
    unfolding d by (simp_all add: ex_defs stored_def row_ok_defs table_defs keys_left_def utf8_length_def)
  then show ?thesis
    using oneChat_offline_stored [OF ex_env_sql ex_available ex_tables_wf _ ex_hello(1) _ ex_hello(2,4,3,5), of 7] d
    by auto
qed

text \<open>
  C34. \<open>OfflineMessage::insert\<close> does not count an attempt that raised: a private message to an
  absent friend that the table cannot take (more than 500 characters once printed, or a receiver
  without a row) makes \<open>oneChat\<close> run forever as long as the pool has a connection.
\<close>

theorem oneChat_runs_forever:
  assumes "mysql_server cfg (c_sql E) tv"
    and "json_get ''msg'' js = Some (JStr text)" and "text \<noteq> []"
    and "json_get ''id'' js = Some v" and "get_int v = Inr i" and "json_get ''to'' js = Some v'" and "get_int v' = Inr t"
    and "map_of (userConnMap w) t = None" and "t \<in> set (map user_id (fst (FriendModel_query (c_sql E) i (ms (off w)))))"
    and "available (snd (FriendModel_query (c_sql E) i (ms (off w))))"
    and "\<not> offline_row_ok (tv (db (ms (off w)))) t (c_dump E js)"
  shows "oneChat E conn js w = None"
proof -
  let ?o = "(off w)\<lparr>ms := snd (FriendModel_query (c_sql E) i (ms (off w)))\<rparr>"
  have "insert_loop (c_sql E) t (c_dump E js) 0 ?o = None"
    by (rule mysql_server.insert_loop_diverges [OF assms(1)])
      (use assms(10,11) in \<open>simp_all add: mysql_server.FriendModel_query_stored(2) [OF assms(1)] maxRetries_def\<close>)
  with assms(8,9) show ?thesis
    by (simp add: oneChat_fields [OF assms(2-7)] oneChat_checked_eq Let_def deliver_or_store_def
        OfflineMessage_insert_def del: set_map)
qed

theorem oneChat_runs_forever_witness:
  "oneChat (ex_env\<lparr>c_dump := (\<lambda>j. replicate 501 CHR ''a'')\<rparr>) 7
     (json_obj [(''id'', JInt 1), (''to'', JInt 2), (''msg'', JStr ''hello'')]) (ex_state [Some 0, Some 1]) = None"
proof -
  let ?E = "ex_env\<lparr>c_dump := (\<lambda>j. replicate 501 CHR ''a'')\<rparr>"
  let ?w = "ex_state [Some 0, Some 1]"
  have "mysql_server ex_cfg (c_sql ?E) (\<lambda>t. t)" using ex_env_mysql by simp
  moreover have "2 \<in> set (map user_id (fst (FriendModel_query (c_sql ?E) 1 (ms (off ?w)))))"
    using ex_friends [of "[Some 1]"] by simp
  moreover have "available (snd (FriendModel_query (c_sql ?E) 1 (ms (off ?w))))"
    using ex_friends_pool [of "[Some 1]"] by (simp add: ex_defs available_def no_null_def)
  moreover have "map_of (userConnMap ?w) 2 = None" by (simp add: ex_defs)
  moreover have "utf8_length (replicate n CHR ''a'') = n" for n by (simp add: utf8_length_def)
  then have "\<not> offline_row_ok (db (ms (off ?w))) 2 (c_dump ?E js)" for js by (simp add: offline_row_ok_def)
  ultimately show ?thesis
    using oneChat_runs_forever [of ex_cfg ?E "\<lambda>t. t", OF _ ex_hello(1) _ ex_hello(2,4,3,5)] by simp
qed

subsection \<open>Friends\<close>

lemma addFriend_state:
  assumes "json_get ''id'' js = Some v" and "get_int v = Inr u" and "json_get ''friendid'' js = Some v'" and "get_int v' = Inr f"
  shows "addFriend E conn js w =
    (Inr (), w\<lparr>off := (off w)\<lparr>ms := snd (FriendModel_insert (c_sql E) u f (ms (off w)))\<rparr>\<rparr>)"
  using assms by (simp add: addFriend_def field_int_present on_mysql_eq)

text \<open>
  \<open>addFriend\<close> on a working database stores one row, the smaller id first, and the friend
  query reads rows in that direction only: afterwards the user with the smaller id has the other as
  a friend, but the user with the larger id does not, and gets "No this friend" for every message to
  the other.
\<close>

theorem addFriend_one_way:
  assumes "mysql_reliable cfg (c_sql E) tv" and "available (ms (off w))" and "tables_wf cfg (tv (db (ms (off w))))"
    and "sql_enabled cfg (InsertFriend (min u f) (max u f)) (tv (db (ms (off w))))"
    and "u \<noteq> f" and "(max u f, min u f) \<notin> set (t_Friend (tv (db (ms (off w)))))"
    and "json_get ''id'' js = Some v" and "get_int v = Inr u" and "json_get ''friendid'' js = Some v'" and "get_int v' = Inr f"
  shows "\<exists>w'. addFriend E conn js w = (Inr (), w') \<and>
    max u f \<in> set (map user_id (fst (FriendModel_query (c_sql E) (min u f) (ms (off w'))))) \<and>
    min u f \<notin> set (map user_id (fst (FriendModel_query (c_sql E) (max u f) (ms (off w')))))"
proof -
  let ?t = "tv (db (ms (off w)))"
  let ?m = "snd (FriendModel_insert (c_sql E) u f (ms (off w)))"
  have m: "available ?m" "tv (db ?m) = ?t\<lparr>t_Friend := t_Friend ?t @ [(min u f, max u f)]\<rparr>"
    using mysql_reliable.FriendModel_insert_ok [OF assms(1,2,4)] by simp_all
  have "sql_effect cfg 0 (InsertFriend (min u f) (max u f)) ?t [] (tv (db ?m))" using assms(4) m(2) by simp
  then have wf: "tables_wf cfg (tv (db ?m))" by (rule sql_effect_wf_rows [OF assms(3)])
  have "(max u f, min u f) \<noteq> (min u f, max u f)" using assms(5) by (simp add: max_def min_def)
  with m(2) assms(6) show ?thesis
    using FriendModel_query_friends [OF assms(1) m(1) wf]
    by (simp add: addFriend_state [OF assms(7-10)] del: set_map)
qed

theorem addFriend_one_way_witness:
  "\<exists>w'. addFriend ex_env 7 (json_obj [(''id'', JInt 2), (''friendid'', JInt 1)])
      ((ex_state [Some 0, Some 1])\<lparr>off := \<lparr>ms = \<lparr>pool = ex_pool [Some 0, Some 1], db = ex_tables\<lparr>t_Friend := []\<rparr>\<rparr>, failedQueue = []\<rparr>\<rparr>) = (Inr (), w') \<and>
     1 \<notin> set (map user_id (fst (FriendModel_query (c_sql ex_env) 2 (ms (off w')))))"
proof -
  let ?w = "(ex_state [Some 0, Some 1])\<lparr>off := \<lparr>ms = \<lparr>pool = ex_pool [Some 0, Some 1], db = ex_tables\<lparr>t_Friend := []\<rparr>\<rparr>, failedQueue = []\<rparr>\<rparr>"
  let ?js = "json_obj [(''id'', JInt 2), (''friendid'', JInt 1)]"
  have h: "available (ms (off ?w))" "tables_wf ex_cfg (db (ms (off ?w)))"
    by (simp_all add: ex_defs available_def no_null_def tables_wf_def table_defs)
  have en: "sql_enabled ex_cfg (InsertFriend (min 2 1) (max 2 1)) (db (ms (off ?w)))"
    "(max 2 1, min 2 1) \<notin> set (t_Friend (db (ms (off ?w))))"
    by (simp_all add: ex_defs row_ok_defs table_defs)
  have j: "json_get ''id'' ?js = Some (JInt 2)" "get_int (JInt 2) = Inr 2"
    "json_get ''friendid'' ?js = Some (JInt 1)" "get_int (JInt 1) = Inr 1"
    by (simp_all add: json_get_json_obj to_int32_def)
  obtain w' where "addFriend ex_env 7 ?js ?w = (Inr (), w')"
      "min 2 1 \<notin> set (map user_id (fst (FriendModel_query (c_sql ex_env) (max 2 1) (ms (off w')))))"
    using addFriend_one_way [OF ex_env_sql h en(1) _ en(2) j, of 7] by auto
  then show ?thesis by (simp add: max_def min_def del: set_map)
qed

text \<open>
  \<open>FriendModel::query\<close> never returns its connection: whatever the database answers, after
  as many friend queries as the pool had connections the pool is empty, and the next request for a
  connection gets none.
\<close>

theorem friend_queries_drain_pool:
  assumes "no_null (pool m)" and "length (connections (pool m)) \<le> length us"
  shows "fst (getConnection (pool (fold (\<lambda>u m. snd (FriendModel_query S u m)) us m))) = None"
  using mysql.drained [OF assms(1), of "length us"] assms(2)
  by (simp add: fold_FriendModel_query_pool idle_conns_def)

theorem friend_queries_drain_pool_witness:
  "fst (getConnection (pool (fold (\<lambda>u m. snd (FriendModel_query (c_sql ex_env) u m)) [1, 2]
     (ms (off (ex_state [Some 0, Some 1])))))) = None"
  by (rule friend_queries_drain_pool) (simp_all add: ex_defs no_null_def)

subsection \<open>Messages for absent users at login\<close>

lemma oneChat_redis: "oneChat E conn js w = Some (r, w') \<Longrightarrow> rc w' = rc w"
proof -
  have d: "rc v = rc w1" if "deliver_or_store E conn t j w1 = Some v" for t j w1 v
    using that by (auto simp: deliver_or_store_def split: option.splits)
  have "rc v = rc w" if "oneChat_checked E conn i t j w = Some v" for i t j v
    using that d by (fastforce simp: oneChat_checked_eq Let_def simp del: set_map split: if_splits)
  then show "oneChat E conn js w = Some (r, w') \<Longrightarrow> rc w' = rc w"
    by (auto simp: oneChat_def split: sum.splits if_splits prod.splits)
qed

context redis_reliable
begin

lemma login_offline_list:
  assumes R: "r_exec (c_redis E) = exec" and "rready s" and "list_at (view (rd s)) (offline_key i) = Some l"
  shows "login_offline E conn i s = l"
proof -
  let ?s = "snd (setUserOnline (c_redis E) i (c_name E conn) (snd (getUserNode (c_redis E) i s)))"
  have "rready ?s" using assms(2) by (intro redis_op_rready)
  moreover have "keys (view (rd ?s)) (offline_key i) = keys (view (rd s)) (offline_key i)"
    using write_ops_keep(1) [OF R, of "offline_key i" i] by (simp add: key_disjoint read_ops_view [OF R])
  then have "list_at (view (rd ?s)) (offline_key i) = Some l" using assms(3) by (simp add: list_at_def)
  ultimately show ?thesis using popOfflineMessages_ok [OF R] by (simp add: login_offline_def)
qed

end

text \<open>
  C37. With Redis working, the messages a login hands over are exactly those of the Redis list of the
  user, and no private message of \<open>oneChat\<close> gets there: a message that \<open>oneChat\<close> stored
  for an absent user is not among the messages of that user's next login.
\<close>

theorem stored_messages_not_delivered:
  assumes "redis_reliable (r_exec (c_redis E)) rv" and "rready (rc w)"
    and "list_at (rv (rd (rc w))) (offline_key u) = Some l" and "oneChat E conn js w = Some (r, w')"
  shows "\<exists>fields. sent (login_success E c u usr w') = sent w' @ [(c, c_dump E (json_obj fields))] \<and>
    json_get ''offlinemessage'' (json_obj fields) = (if l = [] then None else Some (JArr (map JStr l)))"
proof -
  have "login_offline E c u (rc w') = l"
    using redis_reliable.login_offline_list [OF assms(1) refl assms(2,3)] oneChat_redis [OF assms(4)] by simp
  with login_success_reply [of E c u usr w'] show ?thesis by auto
qed

theorem stored_messages_not_delivered_witness:
  "\<exists>w' fields. oneChat ex_env 7 (json_obj [(''id'', JInt 1), (''to'', JInt 2), (''msg'', JStr ''hello'')]) (ex_state [Some 0, Some 1]) =
       Some (Inr (), w') \<and> stored (db (ms (off w'))) = [(2, ''hello'')] \<and>
     sent (login_success ex_env 8 2 (User 2 ''bob'' ''pb'' ''offline'') w') = sent w' @ [(8, c_dump ex_env (json_obj fields))] \<and>
     json_get ''offlinemessage'' (json_obj fields) = None"
proof -
  let ?w = "ex_state [Some 0, Some 1]"
  let ?js = "json_obj [(''id'', JInt 1), (''to'', JInt 2), (''msg'', JStr ''hello'')]"
  obtain w' where w': "oneChat ex_env 7 ?js ?w = Some (Inr (), w')" "stored (db (ms (off w'))) = [(2, ''hello'')]"
    by (rule ex_hello_stored)
  have "list_at (rd (rc ?w)) (offline_key 2) = Some []" by (simp add: ex_defs list_at_def)
  from stored_messages_not_delivered [OF ex_env_redis ex_rready this w'(1)] w' show ?thesis by auto
qed

subsection \<open>Private messages and nodes\<close>

definition local_frame :: "nat \<Rightarrow> int \<Rightarrow> ('db, 'rd) chat_state \<Rightarrow> ('db, 'rd) chat_state \<Rightarrow> bool" where
  "local_frame conn t w w' \<longleftrightarrow> rc w' = rc w \<and> userConnMap w' = userConnMap w \<and> groupMembers w' = groupMembers w \<and>
     (\<exists>out. sent w' = sent w @ out \<and> (\<forall>e \<in> set out. fst e = conn \<or> map_of (userConnMap w) t = Some (fst e)))"

lemma deliver_local: "deliver_or_store E conn t js w = Some w' \<Longrightarrow> local_frame conn t w w'"
  by (auto simp: deliver_or_store_def local_frame_def send_def split: option.splits)

lemma oneChat_checked_local: "oneChat_checked E conn i t js w = Some w' \<Longrightarrow> local_frame conn t w w'"
  using deliver_local [of E conn t js "w\<lparr>off := (off w)\<lparr>ms := snd (FriendModel_query (c_sql E) i (ms (off w)))\<rparr>\<rparr>" w']
  by (auto simp: oneChat_checked_eq local_frame_def Let_def send_def split: if_splits)

lemma empty_msg_kept: "empty_msg js = Inr (False, js1) \<Longrightarrow> js1 = js"
  using json_index_missing [of "''msg''" js]
  by (cases "json_get ''msg'' js") (auto simp: empty_msg_def json_index_present bindR_Inr_iff json_is_null_def split: if_splits)

text \<open>
  C36. A private message never leaves its node: whatever the message, the state of the node, and
  whatever Redis knows of the receiver, \<open>oneChat\<close> sends nothing to Redis and changes neither map,
  and it gives nothing to any connection but the sender's and, when the receiver has a connection to
  this node, the receiver's. A receiver who is logged in on another node is treated as absent; the
  code that would route the message there is commented out.
\<close>

theorem oneChat_stays_on_node:
  assumes "oneChat E conn js w = Some (r, w')"
  shows "rc w' = rc w \<and> userConnMap w' = userConnMap w \<and> groupMembers w' = groupMembers w \<and>
    (\<exists>out. sent w' = sent w @ out \<and> (\<forall>e \<in> set out. fst e = conn \<or>
      (\<exists>v t. json_get ''to'' js = Some v \<and> get_int v = Inr t \<and> map_of (userConnMap w) t = Some (fst e))))"
proof -
  consider "w' = w" | x where "w' = send conn x w"
    | i t js3 where "oneChat_checked E conn i t js3 w = Some w'" "\<exists>v. json_get ''to'' js = Some v \<and> get_int v = Inr t"
    using assms
    by (auto simp: oneChat_def dest!: empty_msg_kept field_int_InrD split: sum.splits if_splits prod.splits)
  then show ?thesis
  proof cases
    case (3 i t js3)
    with oneChat_checked_local [OF 3(1)] show ?thesis unfolding local_frame_def by metis
  qed (auto simp: send_def)
qed

theorem oneChat_stays_on_node_witness:
  "\<exists>w' out. oneChat ex_env 7 (json_obj [(''id'', JInt 1), (''msg'', JStr ''hi'')]) ((ex_state [Some 0])\<lparr>userConnMap := [(2, 8)]\<rparr>) = Some (Inr (), w') \<and>
     rc w' = rc (ex_state [Some 0]) \<and> sent w' = out \<and> (\<forall>e \<in> set out. fst e = 7)"
proof -
  let ?js = "json_obj [(''id'', JInt 1), (''msg'', JStr ''hi'')]" and ?w = "(ex_state [Some 0])\<lparr>userConnMap := [(2, 8)]\<rparr>"
  have "json_get ''msg'' ?js = Some (JStr ''hi'')" "json_get ''to'' ?js = None" by (simp_all add: json_get_json_obj)
  moreover from this have "\<exists>w'. oneChat ex_env 7 ?js ?w = Some (Inr (), w')"
    by (simp add: oneChat_def empty_msg_def json_index_present json_is_null_def json_contains_get)
  then obtain w' where "oneChat ex_env 7 ?js ?w = Some (Inr (), w')" by blast
  moreover have "sent ?w = []" "rc ?w = rc (ex_state [Some 0])" by (simp_all add: ex_state_def)
  ultimately show ?thesis using oneChat_stays_on_node [of ex_env 7 ?js ?w "Inr ()" w'] by auto
qed

end
