(* ===== verification/Login_Properties.thy ===== *)
theory Login_Properties
  imports Example_Node
begin

section \<open>Logging in and out\<close>

text \<open>
  Properties of \<open>login\<close>, \<open>reg\<close>, \<open>loginOut\<close> and \<open>clientQuitEcption\<close> of
  \<open>src/server/chatservice.cpp\<close>.
\<close>

definition login_refusal :: "('db, 'rd) chat_env \<Rightarrow> int \<Rightarrow> string \<Rightarrow> string" where
  "login_refusal E errno text =
     c_dump E (json_obj [(''msgid'', JInt LOGIN_MSG_ACK), (''errno'', JInt errno), (''errormsg'', JStr text)])"

lemma login_fields:
  assumes "json_get ''id'' js = Some v" and "get_int v = Inr i" and "json_get ''password'' js = Some (JStr pwd)"
  shows "login E conn js w = (Inr (), login_with E conn i pwd w)"
  using assms by (simp add: login_def field_int_present field_string_present)

lemma login_with_cases:
  fixes E :: "('db, 'rd) chat_env" and w :: "('db, 'rd) chat_state" and i :: int
  defines "q \<equiv> UserModel_query (c_sql E) i (ms (off w))"
  defines "w1 \<equiv> w\<lparr>off := (off w)\<lparr>ms := snd q\<rparr>\<rparr>"
  shows "login_with E conn i pwd w =
    (if user_id (fst q) = i \<and> user_password (fst q) = pwd then
       (if fst (isUserOnline (c_redis E) i (rc w))
        then send conn (login_refusal E 2 already_online_text) (w1\<lparr>rc := snd (isUserOnline (c_redis E) i (rc w))\<rparr>)
        else login_success E conn i (fst q) (w1\<lparr>rc := snd (isUserOnline (c_redis E) i (rc w))\<rparr>))
     else send conn (login_refusal E 1 wrong_password_text) w1)"
  by (simp add: login_with_def on_mysql_eq on_redis_eq login_refusal_def q_def w1_def)

lemma login_with_wrong:
  assumes "user_id (fst (UserModel_query (c_sql E) i (ms (off w)))) \<noteq> i \<or>
    user_password (fst (UserModel_query (c_sql E) i (ms (off w)))) \<noteq> pwd"
  shows "\<exists>m. login_with E conn i pwd w =
    w\<lparr>off := (off w)\<lparr>ms := m\<rparr>, sent := sent w @ [(conn, login_refusal E 1 wrong_password_text)]\<rparr>"
  using assms by (auto simp: login_with_cases send_def)

lemma login_with_online:
  assumes "user_id (fst (UserModel_query (c_sql E) i (ms (off w)))) = i"
    and "user_password (fst (UserModel_query (c_sql E) i (ms (off w)))) = pwd"
    and "fst (isUserOnline (c_redis E) i (rc w))"
  shows "\<exists>m s. login_with E conn i pwd w =
    w\<lparr>off := (off w)\<lparr>ms := m\<rparr>, rc := s, sent := sent w @ [(conn, login_refusal E 2 already_online_text)]\<rparr>"
  using assms by (auto simp: login_with_cases send_def)

text \<open>A login with the right password of a user who is not online.\<close>

context redis_reliable
begin

lemma login_with_accepted:
  assumes R: "r_exec (c_redis E) = exec" and rr: "rready (rc w)"
    and h: "user_hash (view (rd (rc w))) i = Some h" and not_on: "\<not> user_online (view (rd (rc w))) i"
    and q: "fst (UserModel_query (c_sql E) i (ms (off w))) = User i n pwd st"
  shows "\<exists>fields. sent (login_with E conn i pwd w) = sent w @ [(conn, c_dump E (json_obj fields))] \<and>
      json_get ''errno'' (json_obj fields) = Some (JInt 0) \<and> json_get ''id'' (json_obj fields) = Some (JInt i) \<and>
      json_get ''name'' (json_obj fields) = Some (JStr n)"
    and "userConnMap (login_with E conn i pwd w) = um_insert i conn (userConnMap w)"
    and "user_online (view (rd (rc (login_with E conn i pwd w)))) i"
    and "j \<noteq> i \<Longrightarrow> user_hash (view (rd (rc (login_with E conn i pwd w)))) j = user_hash (view (rd (rc w))) j"
proof -
  let ?s = "snd (isUserOnline (c_redis E) i (rc w))"
  let ?w = "w\<lparr>off := (off w)\<lparr>ms := snd (UserModel_query (c_sql E) i (ms (off w)))\<rparr>, rc := ?s\<rparr>"
  let ?u = "User i n pwd st"
  have "\<not> fst (isUserOnline (c_redis E) i (rc w))" using isUserOnline_ok [OF R rr h] not_on by simp
  with q have eq: "login_with E conn i pwd w = login_success E conn i ?u ?w"
    by (simp add: login_with_cases)
  show "\<exists>fields. sent (login_with E conn i pwd w) = sent w @ [(conn, c_dump E (json_obj fields))] \<and>
      json_get ''errno'' (json_obj fields) = Some (JInt 0) \<and> json_get ''id'' (json_obj fields) = Some (JInt i) \<and>
      json_get ''name'' (json_obj fields) = Some (JStr n)"
    using login_success_reply [of E conn i ?u ?w] by (auto simp: eq)
  show "userConnMap (login_with E conn i pwd w) = um_insert i conn (userConnMap w)"
    by (simp add: eq login_success_conns)
  have "rready (rc ?w)" using redis_op_rready(1) [OF rr] by simp
  moreover have "user_hash (view (rd (rc ?w))) i = Some h" using h by (simp add: read_ops_view [OF R])
  ultimately show "user_online (view (rd (rc (login_with E conn i pwd w)))) i"
    using login_success_presence [OF R, of ?w i h conn ?u] by (auto simp: eq user_online_def)
  assume "j \<noteq> i"
  from login_success_others [OF R this, of conn ?u ?w]
  show "user_hash (view (rd (rc (login_with E conn i pwd w)))) j = user_hash (view (rd (rc w))) j"
    by (simp add: eq read_ops_view [OF R])
qed

end

text \<open>
  C1. On a database and a Redis server that work, with the user's row in the table, \<open>login\<close>
  answers with exactly one reply on the connection: errno 1 when the password differs from the
  stored one, and then neither the connection map, the group map nor anything of the Redis client
  changes; errno 2 when the password is right and the user is marked online already, and then
  neither map changes; and otherwise errno 0 with the user's id and name, after which the user is
  in the connection map and marked online, and the presence record of every other user is what it
  was.
\<close>

theorem login_correct:
  assumes "mysql_reliable cfg (c_sql E) tv" and "redis_reliable (r_exec (c_redis E)) rv"
    and "available (ms (off w))" and "tables_wf cfg (tv (db (ms (off w))))"
    and "(i, n, p, st) \<in> set (t_User (tv (db (ms (off w)))))"
    and "rready (rc w)" and "user_hash (rv (rd (rc w))) i = Some h"
    and "json_get ''id'' js = Some v" and "get_int v = Inr i" and "json_get ''password'' js = Some (JStr pwd)"
  shows "\<exists>w'. login E conn js w = (Inr (), w') \<and>
    (if pwd \<noteq> p then
       sent w' = sent w @ [(conn, login_refusal E 1 wrong_password_text)] \<and> rc w' = rc w \<and>
       userConnMap w' = userConnMap w \<and> groupMembers w' = groupMembers w
     else if user_online (rv (rd (rc w))) i then
       sent w' = sent w @ [(conn, login_refusal E 2 already_online_text)] \<and>
       userConnMap w' = userConnMap w \<and> groupMembers w' = groupMembers w
     else
       (\<exists>fields. sent w' = sent w @ [(conn, c_dump E (json_obj fields))] \<and>
          json_get ''errno'' (json_obj fields) = Some (JInt 0) \<and>
          json_get ''id'' (json_obj fields) = Some (JInt i) \<and> json_get ''name'' (json_obj fields) = Some (JStr n)) \<and>
       userConnMap w' = um_insert i conn (userConnMap w) \<and> user_online (rv (rd (rc w'))) i \<and>
       (\<forall>j. j \<noteq> i \<longrightarrow> user_hash (rv (rd (rc w'))) j = user_hash (rv (rd (rc w))) j))"
proof -
  have q: "fst (UserModel_query (c_sql E) i (ms (off w))) = User i n p st"
    using mysql_reliable.UserModel_query_ok [OF assms(1,3,4,5)] .
  have l: "login E conn js w = (Inr (), login_with E conn i pwd w)" using assms(8-10) by (rule login_fields)
  have on: "fst (isUserOnline (c_redis E) i (rc w)) \<longleftrightarrow> user_online (rv (rd (rc w))) i"
    using redis_reliable.isUserOnline_ok [OF assms(2) refl assms(6,7)] .
  consider "pwd \<noteq> p" | "pwd = p" "user_online (rv (rd (rc w))) i" | "pwd = p" "\<not> user_online (rv (rd (rc w))) i"
    by blast
  then show ?thesis
  proof cases
    case 1
    with q login_with_wrong [of E i w pwd conn] l show ?thesis by auto
  next
    case 2
    with q on login_with_online [of E i w pwd conn] l show ?thesis by auto
  next
    case 3
    with l redis_reliable.login_with_accepted [OF assms(2) refl assms(6,7) 3(2), where n = n and pwd = pwd and st = st and conn = conn] q show ?thesis
      by simp
  qed
qed

theorem login_correct_witness:
  "\<exists>w' fields. login ex_env 7 (json_obj [(''id'', JInt 1), (''password'', JStr ''pa'')]) (ex_state [Some 0, Some 1]) = (Inr (), w') \<and>
     sent w' = [(7, c_dump ex_env (json_obj fields))] \<and> json_get ''errno'' (json_obj fields) = Some (JInt 0)"
proof -
  let ?w = "ex_state [Some 0, Some 1]"
  let ?js = "json_obj [(''id'', JInt 1), (''password'', JStr ''pa'')]"
  have "(1, ''ann'', ''pa'', ''offline'') \<in> set (t_User (db (ms (off ?w))))" by (simp add: ex_defs)
  moreover have "json_get ''id'' ?js = Some (JInt 1)" "json_get ''password'' ?js = Some (JStr ''pa'')"
    by (simp_all add: json_get_json_obj)
  moreover have "get_int (JInt 1) = Inr 1" by (simp add: to_int32_def)
  moreover have "sent ?w = []" "\<not> user_online (rd (rc ?w)) 1" by (simp_all add: ex_defs user_online_def user_hash_def hash_at_def)
  ultimately show ?thesis
    using login_correct [OF ex_env_sql ex_env_redis ex_available ex_tables_wf _ ex_rready ex_user_hash,
        of 1 "''ann''" "''pa''" "''offline''" ?js "JInt 1" "''pa''" 7] by auto
qed

text \<open>
  The record \<open>UserModel::query\<close> gives for an id without a row is \<open>User()\<close>, with id
  -1 and an empty password: on a database and a Redis server that work, a login with id -1 and an
  empty password is accepted although the table has no such user.
\<close>

theorem login_default_user_accepted:
  assumes "mysql_reliable cfg (c_sql E) tv" and "redis_reliable (r_exec (c_redis E)) rv"
    and "available (ms (off w))" and "- 1 \<notin> set (user_ids (tv (db (ms (off w)))))"
    and "rready (rc w)" and "user_hash (rv (rd (rc w))) (- 1) = Some h" and "\<not> user_online (rv (rd (rc w))) (- 1)"
    and "json_get ''id'' js = Some v" and "get_int v = Inr (- 1)" and "json_get ''password'' js = Some (JStr [])"
  shows "\<exists>w'. login E conn js w = (Inr (), w') \<and> userConnMap w' = um_insert (- 1) conn (userConnMap w) \<and>
    user_online (rv (rd (rc w'))) (- 1) \<and>
    (\<exists>fields. sent w' = sent w @ [(conn, c_dump E (json_obj fields))] \<and>
       json_get ''errno'' (json_obj fields) = Some (JInt 0))"
proof -
  have q: "fst (UserModel_query (c_sql E) (- 1) (ms (off w))) = User (- 1) [] [] ''offline''"
    using mysql_reliable.UserModel_query_absent [OF assms(1,3,4)] by (simp add: User_default_def)
  have "login E conn js w = (Inr (), login_with E conn (- 1) [] w)"
    by (rule login_fields [OF assms(8-10)])
  with redis_reliable.login_with_accepted [OF assms(2) refl assms(5-7) q, where conn = conn] show ?thesis by auto
qed

theorem login_default_user_accepted_witness:
  "\<exists>w'. login ex_env 7 (json_obj [(''id'', JInt (- 1)), (''password'', JStr [])]) (ex_state [Some 0, Some 1]) = (Inr (), w') \<and>
     userConnMap w' = [(- 1, 7)]"
proof -
  let ?w = "ex_state [Some 0, Some 1]"
  let ?js = "json_obj [(''id'', JInt (- 1)), (''password'', JStr [])]"
  have "- 1 \<notin> set (user_ids (db (ms (off ?w))))" by (simp add: ex_defs user_ids_def)
  moreover have "json_get ''id'' ?js = Some (JInt (- 1))" "json_get ''password'' ?js = Some (JStr [])"
    by (simp_all add: json_get_json_obj)
  moreover have "\<not> user_online (rd (rc ?w)) (- 1)" by (simp add: ex_defs user_online_def user_hash_def hash_at_def)
  moreover have "um_insert (- 1) 7 (userConnMap ?w) = [(- 1, 7)]" by (simp add: ex_defs um_insert_def)
  ultimately show ?thesis
    using login_default_user_accepted [OF ex_env_sql ex_env_redis ex_available _ ex_rready ex_user_hash, of ?js "JInt (- 1)" 7] by (auto simp: to_int32_def)
qed

text \<open>
  With no connection left in the MySQL pool \<open>UserModel::query\<close> returns \<open>false\<close>, which
  is converted to a user with id 0 and an empty password: whatever the database holds, a login with
  id 0 and an empty password is accepted then, and every other id is refused with errno 1.
\<close>

theorem login_without_connections:
  assumes "redis_reliable (r_exec (c_redis E)) rv" and "connections (pool (ms (off w))) = []"
    and "rready (rc w)" and "user_hash (rv (rd (rc w))) 0 = Some h" and "\<not> user_online (rv (rd (rc w))) 0"
    and "json_get ''id'' js = Some v" and "get_int v = Inr i"
    and "json_get ''password'' js = Some (JStr pwd)"
  shows "userConnMap (snd (login E conn js w)) =
    (if i = 0 \<and> pwd = [] then um_insert 0 conn (userConnMap w) else userConnMap w)"
proof -
  have q: "fst (UserModel_query (c_sql E) j (ms (off w))) = User 0 [] [] ''offline''" for j
    by (simp add: UserModel_query_def sql_call_no_conn [OF assms(2)] User_of_bool_def)
  have l: "login E conn js w = (Inr (), login_with E conn i pwd w)"
    using login_fields assms(6-8) by blast
  show ?thesis
  proof (cases "i = 0 \<and> pwd = []")
    case True
    with l redis_reliable.login_with_accepted(2) [OF assms(1) refl assms(3-5) q [of 0], of conn] show ?thesis by simp
  next
    case False
    with q have "user_id (fst (UserModel_query (c_sql E) i (ms (off w)))) \<noteq> i \<or>
        user_password (fst (UserModel_query (c_sql E) i (ms (off w)))) \<noteq> pwd" by auto
    from login_with_wrong [OF this, of conn] l False show ?thesis by auto
  qed
qed

theorem login_without_connections_witness:
  "userConnMap (snd (login ex_env 7 (json_obj [(''id'', JInt 0), (''password'', JStr [])]) (ex_state []))) = [(0, 7)]"
proof -
  let ?js = "json_obj [(''id'', JInt 0), (''password'', JStr [])]"
  have "json_get ''id'' ?js = Some (JInt 0)" "json_get ''password'' ?js = Some (JStr [])"
    by (simp_all add: json_get_json_obj)
  moreover have "connections (pool (ms (off (ex_state [])))) = []" by (simp add: ex_defs)
  moreover have "\<not> user_online (rd (rc (ex_state []))) 0" by (simp add: ex_defs user_online_def user_hash_def hash_at_def)
  moreover have "um_insert 0 7 (userConnMap (ex_state [])) = [(0, 7)]" by (simp add: ex_defs um_insert_def)
  ultimately show ?thesis
    using login_without_connections [OF ex_env_redis _ ex_rready ex_user_hash, of "[]" ?js "JInt 0" 0 "[]" 7] by (simp add: to_int32_def)
qed

text \<open>
  Whatever the database and Redis answer, a login never replaces the connection the map holds
  for a user: \<open>userConnMap_.insert\<close> keeps an existing entry, so after a reconnect messages
  still go to the old connection.
\<close>

theorem login_keeps_stale_connection:
  assumes "map_of (userConnMap w) i = Some c"
  shows "map_of (userConnMap (snd (login E conn js w))) i = Some c"
proof -
  have "map_of (userConnMap (login_with E conn k pwd w)) i = Some c" for k pwd
    using assms by (auto simp: login_with_cases login_success_conns umap_simps)
  with assms show ?thesis by (auto simp: login_def split: sum.splits)
qed

theorem login_keeps_stale_connection_witness:
  "map_of (userConnMap (snd (login ex_env 9 (json_obj [(''id'', JInt 1), (''password'', JStr ''pa'')])
     ((ex_state [Some 0])\<lparr>userConnMap := [(1, 3)]\<rparr>)))) 1 = Some 3"
  by (rule login_keeps_stale_connection) simp

subsection \<open>Leaving\<close>

lemma loginOut_state:
  assumes "json_get ''id'' js = Some v" and "get_int v = Inr i"
  shows "loginOut E conn js w = (Inr (), leave_all i (w\<lparr>userConnMap := um_erase i (userConnMap w),
    rc := snd (setUserOffline (c_redis E) i (rc w))\<rparr>))"
  using assms by (simp add: loginOut_def field_int_present on_redis_eq Let_def)

context redis_reliable
begin

lemma setUserOffline_online:
  assumes "r_exec R = exec" and "rready s" and "user_hash (view (rd s)) i = Some h"
  shows "user_online (view (rd (snd (setUserOffline R i s)))) j \<longleftrightarrow> j \<noteq> i \<and> user_online (view (rd s)) j"
proof (cases "j = i")
  case True
  with setUserOffline_ok [OF assms] show ?thesis by (auto simp: user_online_def)
next
  case False
  then have "user_key j \<noteq> user_key i" by (simp add: key_inject)
  then have "keys (view (rd (snd (setUserOffline R i s)))) (user_key j) = keys (view (rd s)) (user_key j)"
    by (rule write_ops_keep(2) [OF assms(1)])
  with False show ?thesis by (simp add: user_online_def user_hash_def hash_at_def)
qed

end

text \<open>
  C10. \<open>loginOut\<close> with Redis working: the user named in the message is no longer in the
  connection map, no longer marked online and in no group's local set, a task to unsubscribe is
  queued for every subscribed group that has no local member left, nothing is sent, and every other
  user's connection, presence and memberships are what they were.
\<close>

theorem loginOut_correct:
  assumes "redis_reliable (r_exec (c_redis E)) rv" and "rready (rc w)" and "user_hash (rv (rd (rc w))) i = Some h"
    and "json_get ''id'' js = Some v" and "get_int v = Inr i"
  shows "\<exists>w'. loginOut E conn js w = (Inr (), w') \<and> sent w' = sent w \<and> off w' = off w \<and>
    (\<forall>j. map_of (userConnMap w') j = (if j = i then None else map_of (userConnMap w) j)) \<and>
    (\<forall>j. user_online (rv (rd (rc w'))) j \<longleftrightarrow> j \<noteq> i \<and> user_online (rv (rd (rc w))) j) \<and>
    (\<forall>g. map_of (groupMembers w') g = map_option (ss_erase i) (map_of (groupMembers w) g)) \<and>
    sub_tasks (rc w') = sub_tasks (rc w) @ map Unsubscribe (filter (\<lambda>g. g \<in> set (sub_group_set (rc w)))
      (map fst (filter (\<lambda>(g, m). ss_erase i m = []) (groupMembers w))))"
proof -
  have "sub_tasks (snd (setUserOffline (c_redis E) i (rc w))) = sub_tasks (rc w)"
    "sub_group_set (snd (setUserOffline (c_redis E) i (rc w))) = sub_group_set (rc w)"
    by (simp_all add: setUserOffline_def)
  then show ?thesis
    using redis_reliable.setUserOffline_online [OF assms(1) refl assms(2,3)]
    by (simp add: loginOut_state [OF assms(4,5)] leave_all_eq umap_simps map_of_erase_members fold_unsubscribe_tasks)
qed

theorem loginOut_correct_witness:
  "map_of (userConnMap (snd (loginOut ex_env 7 (json_obj [(''id'', JInt 1)])
     ((ex_state [])\<lparr>userConnMap := [(1, 7), (2, 8)]\<rparr>)))) 2 = Some 8"
proof -
  let ?w = "(ex_state [])\<lparr>userConnMap := [(1, 7), (2, 8)]\<rparr>"
  let ?js = "json_obj [(''id'', JInt 1)]"
  have "rready (rc ?w)" "user_hash (rd (rc ?w)) 1 = Some []"
    using ex_rready [of "[]"] ex_user_hash [of "[]" 1] by simp_all
  moreover have "json_get ''id'' ?js = Some (JInt 1)" "get_int (JInt 1) = Inr 1"
    by (simp_all add: json_get_json_obj to_int32_def)
  ultimately obtain w' where "loginOut ex_env 7 ?js ?w = (Inr (), w')"
    "\<forall>j. map_of (userConnMap w') j = (if j = 1 then None else map_of (userConnMap ?w) j)"
    using loginOut_correct [OF ex_env_redis, of ?w 1 "[]" ?js "JInt 1" 7] by blast
  then show ?thesis by simp
qed

lemma um_erase_remove1:
  "um_wf m \<Longrightarrow> map_of m i = Some c \<Longrightarrow> um_erase i m = remove1 (i, c) m"
proof (induction m)
  case Nil
  then show ?case by simp
next
  case (Cons e m)
  obtain k v where e: "e = (k, v)" by (cases e)
  show ?case
  proof (cases "k = i")
    case True
    with Cons.prems e have "i \<notin> fst ` set m" by (simp add: um_wf_def)
    then have "filter (\<lambda>e. fst e \<noteq> i) m = m" by (auto simp: filter_id_conv)
    with True Cons.prems e show ?thesis by (simp add: um_erase_def)
  next
    case False
    with Cons e show ?thesis by (simp add: um_erase_def um_wf_def)
  qed
qed

text \<open>
  C13. A lost connection has the effect of a log-out of its user: when exactly one user (other than
  the id -1 the code reserves) is mapped to the connection, \<open>clientQuitEcption\<close> leaves the
  state \<open>loginOut\<close> leaves for that user's id.
\<close>

theorem clientQuit_is_loginOut:
  assumes "um_wf (userConnMap w)" and "map_of (userConnMap w) i = Some conn" and "i \<noteq> - 1"
    and "\<And>j. map_of (userConnMap w) j = Some conn \<Longrightarrow> j = i"
    and "json_get ''id'' js = Some v" and "get_int v = Inr i"
  shows "loginOut E conn js w = (Inr (), clientQuitEcption E conn w)"
proof -
  have in_map: "(i, conn) \<in> set (userConnMap w)" using assms(2) by (rule map_of_SomeD)
  have only: "e = (i, conn)" if em: "e \<in> set (userConnMap w)" and ec: "snd e = conn" for e
  proof -
    obtain k where e: "e = (k, conn)" using ec by (cases e) simp
    then have "map_of (userConnMap w) k = Some conn" using assms(1) em by (simp add: um_wf_def)
    from assms(4) [OF this] e show ?thesis by simp
  qed
  have f: "find (\<lambda>e. snd e = conn) (userConnMap w) = Some (i, conn)"
  proof (cases "find (\<lambda>e. snd e = conn) (userConnMap w)")
    case None
    with in_map show ?thesis by (auto simp: find_None_iff)
  next
    case (Some e)
    then have "e \<in> set (userConnMap w)" "snd e = conn"
      by (auto simp: find_Some_iff)
    then have "e = (i, conn)" by (rule only)
    with Some show ?thesis by simp
  qed
  show ?thesis using f assms(3)
    by (simp add: clientQuitEcption_def loginOut_state [OF assms(5,6)] on_redis_eq
        um_erase_remove1 [OF assms(1,2)])
qed

theorem clientQuit_is_loginOut_witness:
  "loginOut ex_env 7 (json_obj [(''id'', JInt 1)]) ((ex_state [])\<lparr>userConnMap := [(1, 7), (2, 8)]\<rparr>) =
     (Inr (), clientQuitEcption ex_env 7 ((ex_state [])\<lparr>userConnMap := [(1, 7), (2, 8)]\<rparr>))"
  by (rule clientQuit_is_loginOut [of _ 1 7 _ "JInt 1"])
    (auto simp: um_wf_def json_get_json_obj to_int32_def split: if_splits)

text \<open>
  The loop of \<open>clientQuitEcption\<close> stops at the first entry: when two users are mapped to
  the connection (one client logged in twice on it), one of them stays mapped to the dead
  connection.
\<close>

theorem clientQuit_leaves_second_user:
  assumes "um_wf (userConnMap w)" and "map_of (userConnMap w) i = Some conn"
    and "map_of (userConnMap w) j = Some conn" and "i \<noteq> j"
  shows "\<exists>k. map_of (userConnMap (clientQuitEcption E conn w)) k = Some conn"
proof -
  from assms(2,3) have m: "(i, conn) \<in> set (userConnMap w)" "(j, conn) \<in> set (userConnMap w)"
    by (auto dest: map_of_SomeD)
  obtain e where e: "find (\<lambda>e. snd e = conn) (userConnMap w) = Some e"
    using m by (cases "find (\<lambda>e. snd e = conn) (userConnMap w)") (auto simp: find_None_iff)
  then have u: "userConnMap (clientQuitEcption E conn w) = remove1 e (userConnMap w)"
    by (simp add: clientQuitEcption_def on_redis_eq leave_all_eq Let_def)
  from assms(4) have "(i, conn) \<noteq> e \<or> (j, conn) \<noteq> e" by auto
  with m obtain k where "(k, conn) \<in> set (remove1 e (userConnMap w))" by (metis in_set_remove1)
  with um_wf_remove1 [OF assms(1), of e] show ?thesis
    unfolding u um_wf_def by (metis map_of_is_SomeI)
qed

theorem clientQuit_leaves_second_user_witness:
  "\<exists>k. map_of (userConnMap (clientQuitEcption ex_env 7 ((ex_state [])\<lparr>userConnMap := [(1, 7), (2, 7)]\<rparr>))) k = Some 7"
  by (rule clientQuit_leaves_second_user [of _ 1 7 2]) (simp_all add: um_wf_def)

subsection \<open>Registration\<close>

definition reg_reply :: "('db, 'rd) chat_env \<Rightarrow> (string \<times> json) list \<Rightarrow> string" where
  "reg_reply E kvs = c_dump E (json_obj ((''msgid'', JInt REG_MSG_ACK) # kvs))"

lemma reg_state:
  assumes "json_get ''name'' js = Some (JStr name)" and "json_get ''password'' js = Some (JStr pwd)"
  shows "\<exists>s. reg E conn js w =
    (let r = UserModel_insert (c_sql E) (User (- 1) name pwd ''offline'') (ms (off w)) in
     (Inr (), w\<lparr>off := (off w)\<lparr>ms := snd r\<rparr>, rc := s,
       sent := sent w @ [(conn, if fst r then reg_reply E [(''errno'', JInt 0), (''id'', JInt (- 1))]
                               else reg_reply E [(''errno'', JInt 1)])]\<rparr>)) \<and>
    (\<not> fst (UserModel_insert (c_sql E) (User (- 1) name pwd ''offline'') (ms (off w))) \<longrightarrow> s = rc w)"
proof -
  have u: "User_default\<lparr>user_name := name, user_password := pwd\<rparr> = User (- 1) name pwd ''offline''"
    by (simp add: User_default_def User_def)
  show ?thesis
  proof (cases "fst (UserModel_insert (c_sql E) (User (- 1) name pwd ''offline'') (ms (off w)))")
    case True
    then show ?thesis
      by (intro exI [of _ "snd (redis_expire (c_redis E) (user_info_key (- 1)) 86400
            (snd (redis_hset (c_redis E) (user_info_key (- 1)) ''name'' name (rc w))))"])
        (simp add: reg_def assms field_string_present u on_mysql_eq on_redis_eq Let_def send_def reg_reply_def)
  next
    case False
    then show ?thesis
      by (intro exI [of _ "rc w"])
        (simp add: reg_def assms field_string_present u on_mysql_eq Let_def send_def reg_reply_def)
  qed
qed

lemma reg_effect:
  assumes "mysql_reliable cfg (c_sql E) tv" and "available (ms (off w))" and "tables_wf cfg (tv (db (ms (off w))))"
    and "sql_enabled cfg (InsertUser name pwd ''offline'') (tv (db (ms (off w))))"
    and "json_get ''name'' js = Some (JStr name)" and "json_get ''password'' js = Some (JStr pwd)"
  shows "\<exists>w' c i. reg E conn js w = (Inr (), w') \<and> 0 < i \<and> i \<notin> set (user_ids (tv (db (ms (off w))))) \<and>
    tv (db (ms (off w'))) = add_user c i name pwd ''offline'' (tv (db (ms (off w)))) \<and>
    fst (UserModel_query (c_sql E) i (ms (off w'))) = User i name pwd ''offline'' \<and>
    sent w' = sent w @ [(conn, reg_reply E [(''errno'', JInt 0), (''id'', JInt (- 1))])]"
proof -
  let ?r = "UserModel_insert (c_sql E) (User (- 1) name pwd ''offline'') (ms (off w))"
  have en: "sql_enabled cfg (InsertUser (user_name (User (- 1) name pwd ''offline''))
      (user_password (User (- 1) name pwd ''offline'')) (user_state (User (- 1) name pwd ''offline'')))
      (tv (db (ms (off w))))" using assms(4) by simp
  obtain c i where ok: "fst ?r" "available (snd ?r)" "fresh_key i (user_ids (tv (db (ms (off w)))))"
    "tv (db (snd ?r)) = add_user c i name pwd ''offline'' (tv (db (ms (off w))))"
    using mysql_reliable.UserModel_insert_ok [OF assms(1,2) en] by auto
  have "sql_effect cfg c (InsertUser name pwd ''offline'') (tv (db (ms (off w)))) [] (tv (db (snd ?r)))"
    using assms(4) ok(3,4) by auto
  then have wf: "tables_wf cfg (tv (db (snd ?r)))" by (rule sql_effect_wf_rows [OF assms(3)])
  have "(i, name, pwd, ''offline'') \<in> set (t_User (tv (db (snd ?r))))" using ok(4) by (simp add: add_user_def)
  then have "fst (UserModel_query (c_sql E) i (snd ?r)) = User i name pwd ''offline''"
    by (rule mysql_reliable.UserModel_query_ok [OF assms(1) ok(2) wf])
  with ok reg_state [OF assms(5,6), of E conn w] show ?thesis
    by (auto simp: fresh_key_def Let_def intro!: exI [of _ c] exI [of _ i])
qed

text \<open>
  C12. Registration on a working database: the table gains exactly one row with the name, the
  password and the state \<open>offline\<close> under an id that was free, a later look-up of that id gives
  those credentials, and no other table changes; but the id the reply tells the client is -1, never
  the id of the new row.
\<close>

theorem reg_correct:
  assumes "mysql_reliable cfg (c_sql E) tv" and "available (ms (off w))" and "tables_wf cfg (tv (db (ms (off w))))"
    and "sql_enabled cfg (InsertUser name pwd ''offline'') (tv (db (ms (off w))))"
    and "json_get ''name'' js = Some (JStr name)" and "json_get ''password'' js = Some (JStr pwd)"
  shows "\<exists>w' c i. reg E conn js w = (Inr (), w') \<and> 0 < i \<and> i \<notin> set (user_ids (tv (db (ms (off w))))) \<and>
    tv (db (ms (off w'))) = add_user c i name pwd ''offline'' (tv (db (ms (off w)))) \<and>
    fst (UserModel_query (c_sql E) i (ms (off w'))) = User i name pwd ''offline'' \<and>
    sent w' = sent w @ [(conn, reg_reply E [(''errno'', JInt 0), (''id'', JInt (- 1))])]"
  using assms by (rule reg_effect)

theorem reg_correct_witness:
  "\<exists>w' i. reg ex_env 7 (json_obj [(''name'', JStr ''cat''), (''password'', JStr ''pc'')]) (ex_state [Some 0, Some 1]) = (Inr (), w') \<and>
     fst (UserModel_query (c_sql ex_env) i (ms (off w'))) = User i ''cat'' ''pc'' ''offline'' \<and>
     sent w' = [(7, reg_reply ex_env [(''errno'', JInt 0), (''id'', JInt (- 1))])]"
proof -
  let ?js = "json_obj [(''name'', JStr ''cat''), (''password'', JStr ''pc'')]"
  have "sql_enabled ex_cfg (InsertUser ''cat'' ''pc'' ''offline'') (db (ms (off (ex_state [Some 0, Some 1]))))"
    by (simp add: ex_defs row_ok_defs table_defs keys_left_def utf8_length_def)
  moreover have "json_get ''name'' ?js = Some (JStr ''cat'')" "json_get ''password'' ?js = Some (JStr ''pc'')"
    by (simp_all add: json_get_json_obj)
  moreover have "sent (ex_state [Some 0, Some 1]) = []" by (simp add: ex_defs)
  ultimately show ?thesis
    using reg_correct [OF ex_env_sql ex_available ex_tables_wf, of "''cat''" "''pc''" ?js 7] by auto
qed

end
