(* ===== verification/Group_Properties.thy ===== *)
theory Group_Properties
  imports Example_Node
begin

section \<open>Groups\<close>

text \<open>
  Properties of \<open>createGroup\<close>, \<open>joinGroup\<close>, \<open>groupChat\<close> and the inbox callback of
  \<open>src/server/chatservice.cpp\<close>, and of the subscription tasks of
  \<open>src/server/redisclient.cpp\<close>.
\<close>

definition group_copies :: "('db, 'rd) chat_env \<Rightarrow> json \<Rightarrow> int list \<Rightarrow> ('db, 'rd) chat_state \<Rightarrow> (nat \<times> string) list" where
  "group_copies E j uids w =
     map (\<lambda>c. (c, c_dump E j @ [CHR 0x0A])) (List.map_filter (map_of (userConnMap w)) uids)"

lemma inbox_group:
  assumes "json_get ''to'' j = None" and "json_get ''groupid'' j = Some v" and "get_int v = Inr g"
  shows "inbox_callback E j w =
    Some (Inr (), w\<lparr>sent := sent w @ group_copies E j (case map_of (groupMembers w) g of None \<Rightarrow> [] | Some uids \<Rightarrow> uids) w\<rparr>)"
  using assms
  by (auto simp: inbox_callback_def send_members_eq group_copies_def List.map_filter_def split: option.splits)

text \<open>
  C9. A group message that arrives over Redis: every local member of the group with a connection is
  sent exactly one copy, in ascending order of the user ids, and nothing else changes. (The member
  sets are those a node can have, \<open>groups_wf\<close>.)
\<close>

theorem group_message_delivery:
  assumes "groups_wf (groupMembers w)" and "map_of (groupMembers w) g = Some uids"
    and "json_get ''to'' j = None" and "json_get ''groupid'' j = Some v" and "get_int v = Inr g"
  shows "inbox_callback E j w = Some (Inr (), w\<lparr>sent := sent w @ group_copies E j uids w\<rparr>) \<and>
    sorted uids \<and> distinct uids \<and> length (group_copies E j uids w) = card {u \<in> set uids. map_of (userConnMap w) u \<noteq> None}"
proof -
  have wf: "ss_wf uids" using assms(1) map_of_SomeD [OF assms(2)] by (force simp: groups_wf_def)
  then have d: "distinct uids" by (rule ss_wf_distinct)
  have "sorted uids" using wf by (simp add: ss_wf_def strict_sorted_iff)
  moreover have "length (group_copies E j uids w) = length (filter (\<lambda>u. map_of (userConnMap w) u \<noteq> None) uids)"
    by (simp add: group_copies_def List.map_filter_def)
  moreover have "\<dots> = card {u \<in> set uids. map_of (userConnMap w) u \<noteq> None}"
    using d distinct_card [of "filter (\<lambda>u. map_of (userConnMap w) u \<noteq> None) uids"] by simp
  ultimately show ?thesis using d inbox_group [OF assms(3-5), of E w] assms(2) by simp
qed

lemma ex_group_msg:
  "json_get ''to'' (json_obj [(''groupid'', JInt 5), (''msg'', JStr ''hi'')]) = None"
  "json_get ''groupid'' (json_obj [(''groupid'', JInt 5), (''msg'', JStr ''hi'')]) = Some (JInt 5)"
  "get_int (JInt 5) = Inr 5"
  by (simp_all add: json_get_json_obj to_int32_def)

theorem group_message_delivery_witness:
  "length (group_copies ex_env (json_obj [(''groupid'', JInt 5), (''msg'', JStr ''hi'')]) [1, 2]
     ((ex_state [])\<lparr>userConnMap := [(2, 8)], groupMembers := [(5, [1, 2])]\<rparr>)) = 1"
proof -
  let ?w = "(ex_state [])\<lparr>userConnMap := [(2, 8)], groupMembers := [(5, [1, 2])]\<rparr>"
  have "groups_wf (groupMembers ?w)" "map_of (groupMembers ?w) 5 = Some [1, 2]"
    by (simp_all add: groups_wf_def um_wf_def ss_wf_def)
  from group_message_delivery [OF this ex_group_msg, of ex_env]
  have "length (group_copies ex_env (json_obj [(''groupid'', JInt 5), (''msg'', JStr ''hi'')]) [1, 2] ?w) =
      card {u \<in> set [1, 2]. map_of (userConnMap ?w) u \<noteq> None}" by simp
  moreover have "{u \<in> set [1, 2 :: int]. map_of (userConnMap ?w) u \<noteq> None} = {2}" by auto
  ultimately show ?thesis by simp
qed

subsection \<open>Who becomes a local member\<close>

lemma login_groups_lookup:
  "map_of (groupMembers (snd (login E conn js w))) g = map_of (groupMembers w) g \<or>
   map_of (groupMembers w) g = None \<and> map_of (groupMembers (snd (login E conn js w))) g = Some []"
proof -
  have "map_of (groupMembers (login_with E conn i pwd w)) g = map_of (groupMembers w) g \<or>
      map_of (groupMembers w) g = None \<and> map_of (groupMembers (login_with E conn i pwd w)) g = Some []" for i pwd
    using login_success_groups [of E conn i "fst (UserModel_query (c_sql E) i (ms (off w)))"
        "w\<lparr>off := (off w)\<lparr>ms := snd (UserModel_query (c_sql E) i (ms (off w)))\<rparr>,
           rc := snd (isUserOnline (c_redis E) i (rc w))\<rparr>" g]
    by (auto simp: login_with_def on_mysql_eq on_redis_eq)
  then show ?thesis by (auto simp: login_def split: sum.splits)
qed

text \<open>
  \<open>GroupModel::queryGroups\<close> gives groups without their members, so a login never adds
  anybody to a local member set: whatever the database holds, after a login every set is what it was
  or a new empty one, and a message to a group this node did not know reaches nobody here.
\<close>

theorem login_joins_no_group:
  assumes "json_get ''to'' j = None" and "json_get ''groupid'' j = Some v" and "get_int v = Inr g"
    and "map_of (groupMembers w) g = None"
  shows "inbox_callback E j (snd (login E conn js w)) = Some (Inr (), snd (login E conn js w))"
proof -
  have "map_of (groupMembers (snd (login E conn js w))) g \<in> {None, Some []}"
    using login_groups_lookup [of E conn js w g] assms(4) by auto
  then show ?thesis
    using inbox_group [OF assms(1-3), of E "snd (login E conn js w)"]
    by (auto simp: group_copies_def List.map_filter_def)
qed

theorem login_joins_no_group_witness:
  "inbox_callback ex_env (json_obj [(''groupid'', JInt 5), (''msg'', JStr ''hi'')])
     (snd (login ex_env 7 (json_obj [(''id'', JInt 1), (''password'', JStr ''pa'')]) (ex_state [Some 0, Some 1]))) =
   Some (Inr (), snd (login ex_env 7 (json_obj [(''id'', JInt 1), (''password'', JStr ''pa'')]) (ex_state [Some 0, Some 1])))"
  by (rule login_joins_no_group [OF ex_group_msg]) (simp add: ex_defs)

lemma enter_group_state:
  obtains s where "enter_group E u g w =
      w\<lparr>groupMembers := um_modify g [] (ss_insert u) (groupMembers w), rc := subscribeGroupChannel g s\<rparr>"
    and "sub_tasks s = sub_tasks (rc w)" and "sub_group_set s = sub_group_set (rc w)"
proof -
  let ?s = "snd (redis_expire (c_redis E) (group_members_key g) 3600
      (snd (redis_sadd (c_redis E) (group_members_key g) (to_string u) (rc w))))"
  have "enter_group E u g w =
      w\<lparr>groupMembers := um_modify g [] (ss_insert u) (groupMembers w), rc := subscribeGroupChannel g ?s\<rparr>"
    by (simp add: enter_group_def on_redis_eq Let_def)
  moreover have "sub_tasks ?s = sub_tasks (rc w)" "sub_group_set ?s = sub_group_set (rc w)"
    by (simp_all add: redis_expire_def redis_sadd_def)
  ultimately show thesis by (rule that)
qed

lemma joinGroup_state:
  assumes "json_get ''id'' js = Some v" and "get_int v = Inr u" and "json_get ''groupid'' js = Some v'" and "get_int v' = Inr g"
  shows "joinGroup E conn js w = (Inr (), enter_group E u g
    (w\<lparr>off := (off w)\<lparr>ms := snd (GroupModel_joinGroup (c_sql E) u g ''normal'' (ms (off w)))\<rparr>\<rparr>))"
  using assms by (simp add: joinGroup_def field_int_present on_mysql_eq)

text \<open>
  After \<open>joinGroup\<close>, whatever the database and Redis answered, the channel of the group is
  subscribed or a task to subscribe is queued, and a message of the group that arrives over Redis is
  sent to the connection of the user who joined.
\<close>

theorem join_then_receive:
  assumes "json_get ''id'' js = Some v" and "get_int v = Inr u" and "json_get ''groupid'' js = Some v'" and "get_int v' = Inr g"
    and "map_of (userConnMap w) u = Some c"
    and "json_get ''to'' j = None" and "json_get ''groupid'' j = Some v''" and "get_int v'' = Inr g"
  shows "\<exists>w' w''. joinGroup E conn js w = (Inr (), w') \<and>
    (g \<in> set (sub_group_set (rc w')) \<or> Subscribe g \<in> set (sub_tasks (rc w'))) \<and>
    inbox_callback E j w' = Some (Inr (), w'') \<and> (c, c_dump E j @ [CHR 0x0A]) \<in> set (drop (length (sent w')) (sent w''))"
proof -
  let ?w = "w\<lparr>off := (off w)\<lparr>ms := snd (GroupModel_joinGroup (c_sql E) u g ''normal'' (ms (off w)))\<rparr>\<rparr>"
  obtain s where e: "enter_group E u g ?w =
      ?w\<lparr>groupMembers := um_modify g [] (ss_insert u) (groupMembers ?w), rc := subscribeGroupChannel g s\<rparr>"
    by (rule enter_group_state)
  let ?w' = "enter_group E u g ?w"
  obtain uids where uids: "map_of (groupMembers ?w') g = Some uids" "u \<in> set uids"
    by (simp add: e umap_simps)
  have "g \<in> set (sub_group_set (rc ?w')) \<or> Subscribe g \<in> set (sub_tasks (rc ?w'))"
    by (simp add: e subscribeGroupChannel_def)
  moreover have "userConnMap ?w' = userConnMap w" by (simp add: e)
  then have "(c, c_dump E j @ [CHR 0x0A]) \<in> set (group_copies E j uids ?w')"
    using uids(2) assms(5) by (force simp: group_copies_def List.map_filter_def)
  ultimately show ?thesis
    using inbox_group [OF assms(6-8), of E ?w'] uids(1) joinGroup_state [OF assms(1-4), of E conn w] by simp
qed

theorem join_then_receive_witness:
  "\<exists>w' w''. joinGroup ex_env 7 (json_obj [(''id'', JInt 1), (''groupid'', JInt 5)]) ((ex_state [Some 0])\<lparr>userConnMap := [(1, 7)]\<rparr>) =
      (Inr (), w') \<and> inbox_callback ex_env (json_obj [(''groupid'', JInt 5), (''msg'', JStr ''hi'')]) w' = Some (Inr (), w'') \<and>
      (7, ''hi'' @ [CHR 0x0A]) \<in> set (drop (length (sent w')) (sent w''))"
proof -
  let ?js = "json_obj [(''id'', JInt 1), (''groupid'', JInt 5)]"
  have j: "json_get ''id'' ?js = Some (JInt 1)" "get_int (JInt 1) = Inr 1" "json_get ''groupid'' ?js = Some (JInt 5)"
    by (simp_all add: json_get_json_obj to_int32_def)
  have "c_dump ex_env (json_obj [(''groupid'', JInt 5), (''msg'', JStr ''hi'')]) = ''hi''"
    by (simp add: ex_env_def ex_dump_def json_get_json_obj)
  moreover have "map_of (userConnMap ((ex_state [Some 0])\<lparr>userConnMap := [(1, 7)]\<rparr>)) 1 = Some 7" by simp
  ultimately show ?thesis
    using join_then_receive [OF j ex_group_msg(3) _ ex_group_msg, of _ 7 ex_env 7] by metis
qed

subsection \<open>Creating a group\<close>

lemma createGroup_state:
  assumes "json_get ''id'' js = Some v" and "get_int v = Inr u"
    and "json_get ''groupname'' js = Some (JStr name)" and "json_get ''groupdesc'' js = Some (JStr desc)"
  shows "createGroup E conn js w =
    (let r = GroupModel_createGroup (c_sql E) (Group (- 1) name desc) (ms (off w)); g = group_id (fst r)
     in (Inr (), enter_group E u g
           (w\<lparr>off := (off w)\<lparr>ms := snd (GroupModel_joinGroup (c_sql E) u g ''creator'' (snd r))\<rparr>\<rparr>)))"
  using assms by (simp add: createGroup_def field_int_present field_string_present on_mysql_eq Let_def)

context mysql_reliable
begin

lemma GroupModel_joinGroup_ok:
  assumes "available m" and "member_row_ok (view (db m)) g u r"
  shows "view (db (snd (GroupModel_joinGroup exec u g r m))) =
    (view (db m))\<lparr>t_GroupUser := t_GroupUser (view (db m)) @ [(g, u, r)]\<rparr>"
proof -
  obtain c cs rows d' where c: "connections (pool m) = Some c # cs"
    "exec c (InsertGroupUser g u r) (db m) = (Inr rows, d')"
    "sql_effect cfg c (InsertGroupUser g u r) (view (db m)) rows (view d')"
    by (rule call_ok [OF assms(1), of "InsertGroupUser g u r"]) (use assms(2) in auto)
  then show ?thesis by (simp add: GroupModel_joinGroup_def sql_call_exec)
qed

end


lemma ex_create:
  "json_get ''id'' (json_obj [(''id'', JInt 1), (''groupname'', JStr ''new''), (''groupdesc'', JStr ''d'')]) = Some (JInt 1)"
  "get_int (JInt 1) = Inr 1"
  "json_get ''groupname'' (json_obj [(''id'', JInt 1), (''groupname'', JStr ''new''), (''groupdesc'', JStr ''d'')]) = Some (JStr ''new'')"
  "json_get ''groupdesc'' (json_obj [(''id'', JInt 1), (''groupname'', JStr ''new''), (''groupdesc'', JStr ''d'')]) = Some (JStr ''d'')"
  by (simp_all add: json_get_json_obj to_int32_def)


text \<open>
  \<open>createGroup\<close> does not look at whether the group was created: with no connection in the
  MySQL pool the handler still makes the user a local member of a group with id -1 and, unless this
  node is subscribed to it, queues a subscription to the channel of group -1.
\<close>

theorem createGroup_failure:
  assumes "connections (pool (ms (off w))) = []" and "json_get ''id'' js = Some v" and "get_int v = Inr u"
    and "json_get ''groupname'' js = Some (JStr name)" and "json_get ''groupdesc'' js = Some (JStr desc)"
  shows "\<exists>w'. createGroup E conn js w = (Inr (), w') \<and> off w' = off w \<and> sent w' = sent w \<and>
    (\<exists>uids. map_of (groupMembers w') (- 1) = Some uids \<and> u \<in> set uids) \<and>
    sub_tasks (rc w') = sub_tasks (rc w) @ (if - 1 \<in> set (sub_group_set (rc w)) then [] else [Subscribe (- 1)])"
proof -
  obtain s where e: "enter_group E u (- 1) w =
      w\<lparr>groupMembers := um_modify (- 1) [] (ss_insert u) (groupMembers w), rc := subscribeGroupChannel (- 1) s\<rparr>"
    "sub_tasks s = sub_tasks (rc w)" "sub_group_set s = sub_group_set (rc w)"
    by (rule enter_group_state)
  have "createGroup E conn js w = (Inr (), enter_group E u (- 1) w)"
    by (simp add: createGroup_state [OF assms(2-5)] GroupModel_createGroup_def GroupModel_joinGroup_def
        sql_call_no_conn [OF assms(1)])
  with e show ?thesis by (simp add: umap_simps subscribeGroupChannel_def)
qed

theorem createGroup_failure_witness:
  "\<exists>w'. createGroup ex_env 7 (json_obj [(''id'', JInt 1), (''groupname'', JStr ''new''), (''groupdesc'', JStr ''d'')])
      (ex_state []) = (Inr (), w') \<and> sub_tasks (rc w') = [Subscribe (- 1)]"
proof -
  have "connections (pool (ms (off (ex_state [])))) = []" "sub_tasks (rc (ex_state [])) = []" "sub_group_set (rc (ex_state [])) = []"
    by (simp_all add: ex_defs)
  then show ?thesis using createGroup_failure [OF _ ex_create, of "ex_state []" ex_env 7] by auto
qed

subsection \<open>Sending to a group\<close>

lemma groupChat_fields:
  assumes "json_get ''msg'' js = Some (JStr text)" and "text \<noteq> []"
    and "json_get ''id'' js = Some v" and "get_int v = Inr u" and "json_get ''groupid'' js = Some v'" and "get_int v' = Inr g"
  shows "groupChat E conn js w = (Inr (), (load_members E u g w)\<lparr>rc :=
    snd (publishGroupMessage (c_redis E) g (c_dump E js) (rc (load_members E u g w)))\<rparr>)"
  using assms
  by (simp add: groupChat_def empty_msg_def json_index_present json_is_null_def field_int_present on_redis_eq)

lemma load_members_rest:
  "sent (load_members E u g w) = sent w" "userConnMap (load_members E u g w) = userConnMap w"
  "rd (rc (load_members E u g w)) = rd (rc w)" "rpool (rc (load_members E u g w)) = rpool (rc w)"
  by (simp_all add: load_members_def on_mysql_eq Let_def)

context redis_reliable
begin

lemma publishGroupMessage_ok:
  assumes "r_exec R = exec" and "rready s"
  shows "published (view (rd (snd (publishGroupMessage R g msg s)))) = published (view (rd s)) @ [(group_channel g, msg)]"
proof -
  have "redis_run [PUBLISH (group_channel g) msg] (view (rd s)) =
      Some ((view (rd s))\<lparr>published := published (view (rd s)) @ [(group_channel g, msg)]\<rparr>)" by simp
  then obtain d' where "run_cmds R [PUBLISH (group_channel g) msg] (rd s) = (Inr (), d')"
    "view d' = (view (rd s))\<lparr>published := published (view (rd s)) @ [(group_channel g, msg)]\<rparr>"
    using run_cmds_ok [OF assms(1)] by blast
  then show ?thesis using assms(2) by (simp add: publishGroupMessage_def redis_call_ready)
qed

end

text \<open>
  \<open>groupChat\<close> with Redis working publishes the message exactly once, on the channel of the
  group it names, and sends nothing itself. Nothing is asked of the sender: it need not be a member
  of the group, nor the user who is logged in on the connection.
\<close>

theorem groupChat_publishes_once:
  assumes "redis_reliable (r_exec (c_redis E)) rv" and "rready (rc w)"
    and "json_get ''msg'' js = Some (JStr text)" and "text \<noteq> []"
    and "json_get ''id'' js = Some v" and "get_int v = Inr u" and "json_get ''groupid'' js = Some v'" and "get_int v' = Inr g"
  shows "\<exists>w'. groupChat E conn js w = (Inr (), w') \<and> sent w' = sent w \<and> userConnMap w' = userConnMap w \<and>
    published (rv (rd (rc w'))) = published (rv (rd (rc w))) @ [(group_channel g, c_dump E js)]"
proof -
  have "rready (rc (load_members E u g w))" using assms(2) by (simp add: rready_def load_members_rest)
  from redis_reliable.publishGroupMessage_ok [OF assms(1) refl this] show ?thesis
    by (simp add: groupChat_fields [OF assms(3-8)] load_members_rest)
qed

lemma ex_group_chat:
  "json_get ''msg'' (json_obj [(''id'', JInt 1), (''groupid'', JInt 5), (''msg'', JStr ''hi'')]) = Some (JStr ''hi'')"
  "json_get ''id'' (json_obj [(''id'', JInt 1), (''groupid'', JInt 5), (''msg'', JStr ''hi'')]) = Some (JInt 1)"
  "json_get ''groupid'' (json_obj [(''id'', JInt 1), (''groupid'', JInt 5), (''msg'', JStr ''hi'')]) = Some (JInt 5)"
  by (simp_all add: json_get_json_obj)

theorem groupChat_publishes_once_witness:
  "\<exists>w'. groupChat ex_env 7 (json_obj [(''id'', JInt 1), (''groupid'', JInt 5), (''msg'', JStr ''hi'')]) (ex_state [Some 0]) =
     (Inr (), w') \<and> published (rd (rc w')) = [(group_channel 5, ''hi'')]"
proof -
  have "published (rd (rc (ex_state [Some 0]))) = []" by (simp add: ex_defs)
  moreover have "c_dump ex_env (json_obj [(''id'', JInt 1), (''groupid'', JInt 5), (''msg'', JStr ''hi'')]) = ''hi''"
    by (simp add: ex_env_def ex_dump_def json_get_json_obj)
  ultimately show ?thesis
    using groupChat_publishes_once [OF ex_env_redis ex_rready ex_group_chat(1) _ ex_group_chat(2) ex_create(2)
        ex_group_chat(3) ex_group_msg(3), of 7 "[Some 0]"] by auto
qed

lemma fold_join_lookup:
  "set (case map_of (fold (\<lambda>i gm. um_modify g [] (ss_insert i) gm) us gm) g of None \<Rightarrow> [] | Some m \<Rightarrow> m) =
     set us \<union> set (case map_of gm g of None \<Rightarrow> [] | Some m \<Rightarrow> m)"
  by (induction us arbitrary: gm) (auto simp: umap_simps split: option.splits)

text \<open>
  \<open>groupChat\<close> to a group this node does not know, on a working database: the local member
  set of the group becomes the members the database has, without the sender, and a task to
  subscribe to the channel is queued unless it is subscribed.
\<close>

theorem groupChat_loads_members:
  assumes "mysql_reliable cfg (c_sql E) tv" and "available (ms (off w))" and "map_of (groupMembers w) g = None"
    and "json_get ''msg'' js = Some (JStr text)" and "text \<noteq> []"
    and "json_get ''id'' js = Some v" and "get_int v = Inr u" and "json_get ''groupid'' js = Some v'" and "get_int v' = Inr g"
  shows "\<exists>w'. groupChat E conn js w = (Inr (), w') \<and>
    set (case map_of (groupMembers w') g of None \<Rightarrow> [] | Some m \<Rightarrow> m) =
      {x. x \<noteq> u \<and> (\<exists>r. (g, x, r) \<in> set (t_GroupUser (tv (db (ms (off w))))))} \<and>
    (g \<in> set (sub_group_set (rc w')) \<or> Subscribe g \<in> set (sub_tasks (rc w')))"
proof -
  let ?q = "GroupModel_queryGroupUsers (c_sql E) u g (ms (off w))"
  have q: "set (fst ?q) = {x. x \<noteq> u \<and> (\<exists>r. (g, x, r) \<in> set (t_GroupUser (tv (db (ms (off w))))))}"
    by (rule mysql_reliable.GroupModel_queryGroupUsers_ok [OF assms(1,2)])
  have l: "load_members E u g w = w\<lparr>off := (off w)\<lparr>ms := snd ?q\<rparr>,
      groupMembers := fold (\<lambda>i gm. um_modify g [] (ss_insert i) gm) (fst ?q) (groupMembers w),
      rc := subscribeGroupChannel g (rc w)\<rparr>"
    using assms(3) by (simp add: load_members_def on_mysql_eq Let_def)
  have "g \<in> set (sub_group_set (subscribeGroupChannel g (rc w))) \<or> Subscribe g \<in> set (sub_tasks (subscribeGroupChannel g (rc w)))"
    by (simp add: subscribeGroupChannel_def)
  then show ?thesis
    using q fold_join_lookup [of g "fst ?q" "groupMembers w"] assms(3)
    by (simp add: groupChat_fields [OF assms(4-9)] l publishGroupMessage_def)
qed

theorem groupChat_loads_members_witness:
  "\<exists>w'. groupChat ex_env 7 (json_obj [(''id'', JInt 1), (''groupid'', JInt 5), (''msg'', JStr ''hi'')]) (ex_state [Some 0, Some 1]) =
     (Inr (), w') \<and> set (case map_of (groupMembers w') 5 of None \<Rightarrow> [] | Some m \<Rightarrow> m) = {2}"
proof -
  have "map_of (groupMembers (ex_state [Some 0, Some 1])) 5 = None" by (simp add: ex_defs)
  moreover have "{x. x \<noteq> 1 \<and> (\<exists>r. (5, x, r) \<in> set (t_GroupUser (db (ms (off (ex_state [Some 0, Some 1]))))))} = {2}"
    by (auto simp: ex_defs)
  ultimately show ?thesis
    using groupChat_loads_members [OF ex_env_sql ex_available _ ex_group_chat(1) _ ex_group_chat(2) ex_create(2)
        ex_group_chat(3) ex_group_msg(3), of 7] by auto
qed

subsection \<open>Orders of subscription tasks\<close>

lemma process_sub_tasks_channel:
  assumes "redis_reliable (r_exec R) rv" and "subscriptions_agree (rv (rd s)) (sub_group_set s)"
  shows "group_channel g \<in> set (channels (rv (rd (process_sub_tasks R s)))) \<longleftrightarrow>
    (case last_task g (sub_tasks s) of None \<Rightarrow> g \<in> set (sub_group_set s) | Some b \<Rightarrow> b)"
proof -
  let ?s = "s\<lparr>sub_tasks := []\<rparr>"
  have "subscriptions_agree (rv (rd ?s)) (sub_group_set ?s)" using assms(2) by simp
  from redis_reliable.run_sub_tasks_agree [OF assms(1) refl this, of "sub_tasks s"]
  have "g \<in> set (sub_group_set (process_sub_tasks R s)) \<longleftrightarrow>
      group_channel g \<in> set (channels (rv (rd (process_sub_tasks R s))))"
    by (simp add: process_sub_tasks_def subscriptions_agree_def)
  moreover have "g \<in> set (sub_group_set (process_sub_tasks R s)) \<longleftrightarrow>
      (case last_task g (sub_tasks s) of None \<Rightarrow> g \<in> set (sub_group_set s) | Some b \<Rightarrow> b)"
    using redis_reliable.run_sub_tasks_set [OF assms(1) refl, of g "sub_tasks s" ?s]
    by (simp add: process_sub_tasks_def cong: option.case_cong)
  ultimately show ?thesis by simp
qed

text \<open>
  A subscription can be lost: when the last local member of a subscribed group leaves and, before
  the subscriber's next turn, another user joins it, the request to subscribe is dropped because the
  group still counts as subscribed, and the turn then unsubscribes the channel although the node has
  a member.
\<close>

theorem rejoin_loses_subscription:
  assumes "redis_reliable (r_exec R) rv" and "subscriptions_agree (rv (rd s)) (sub_group_set s)"
    and "g \<in> set (sub_group_set s)" and "sub_tasks s = []"
  shows "group_channel g \<notin> set (channels (rv (rd (process_sub_tasks R
    (subscribeGroupChannel g (unsubscribeGroupChannel g s))))))"
proof -
  let ?s = "subscribeGroupChannel g (unsubscribeGroupChannel g s)"
  have s: "?s = s\<lparr>sub_tasks := [Unsubscribe g]\<rparr>"
    using assms(3,4) by (simp add: subscribeGroupChannel_def unsubscribeGroupChannel_def)
  show ?thesis
    using process_sub_tasks_channel [OF assms(1), of ?s g] assms(2) by (simp add: s)
qed

theorem rejoin_loses_subscription_witness:
  "group_channel 5 \<notin> set (channels (rd (process_sub_tasks (c_redis ex_env)
     (subscribeGroupChannel 5 (unsubscribeGroupChannel 5
       ((rc (ex_state []))\<lparr>rd := ex_ks\<lparr>channels := [group_channel 5]\<rparr>, sub_group_set := [5]\<rparr>))))))"
  by (rule rejoin_loses_subscription [OF ex_env_redis])
    (auto simp: subscriptions_agree_def key_simps ex_state_def)

text \<open>
  And one can outlive its members: while a task to subscribe is queued, the request to
  unsubscribe of the last member who leaves is dropped, and the subscriber's turn subscribes a
  channel the node has no member for.
\<close>

theorem leave_before_subscription:
  assumes "redis_reliable (r_exec R) rv" and "subscriptions_agree (rv (rd s)) (sub_group_set s)"
    and "g \<notin> set (sub_group_set s)" and "sub_tasks s = []"
  shows "group_channel g \<in> set (channels (rv (rd (process_sub_tasks R
    (unsubscribeGroupChannel g (subscribeGroupChannel g s))))))"
proof -
  let ?s = "unsubscribeGroupChannel g (subscribeGroupChannel g s)"
  have s: "?s = s\<lparr>sub_tasks := [Subscribe g]\<rparr>"
    using assms(3,4) by (simp add: subscribeGroupChannel_def unsubscribeGroupChannel_def)
  show ?thesis
    using process_sub_tasks_channel [OF assms(1), of ?s g] assms(2) by (simp add: s)
qed

theorem leave_before_subscription_witness:
  "group_channel 5 \<in> set (channels (rd (process_sub_tasks (c_redis ex_env)
     (unsubscribeGroupChannel 5 (subscribeGroupChannel 5 ((rc (ex_state []))\<lparr>rd := ex_ks\<lparr>channels := []\<rparr>\<rparr>))))))"
  by (rule leave_before_subscription [OF ex_env_redis]) (auto simp: subscriptions_agree_def ex_state_def)

end
