(* ===== verification/Conversation.thy ===== *)
theory Conversation
  imports Client_Properties Chat_Properties Login_Properties Group_Properties
begin

section \<open>Client and server together\<close>

text \<open>
  What one client's commands lead to at the server and at the other clients. The server's printer
  and parser are those of \<open>Json_Text\<close>, which the client uses too; \<open>same_json\<close> says so.
\<close>

definition same_json :: "fp_env \<Rightarrow> ('db, 'rd) chat_env \<Rightarrow> bool" where
  "same_json F E \<longleftrightarrow> c_dump E = json_text F \<and> c_parse E = json_parse F"

text \<open>What the server does with the text of a message it can read.\<close>

lemma onMessage_text:
  assumes "same_json F E" and "json_sendable js" and "json_get ''msgid'' js = Some v" and "get_int v = Inr m"
    and "getHandler m = Some h"
  shows "onMessage E conn (json_text F js) w = map_option snd (run_handler E h conn (json_norm js) w)"
  using assms json_lib.parse_print [OF assms(2), of F] json_lib.received_int [OF assms(3,4)]
  by (simp add: onMessage_def same_json_def)

lemma getHandler_simps [simp]:
  "getHandler LOGIN_MSG = Some H_login" "getHandler LOGIN_OUT_MSG = Some H_loginOut" "getHandler REG_MSG = Some H_reg"
  "getHandler ONE_CHAT_MSG = Some H_oneChat" "getHandler ADD_FRIEND_MSG = Some H_addFriend"
  "getHandler CREATE_GROUP_MSG = Some H_createGroup" "getHandler JOIN_GROUP_MSG = Some H_joinGroup"
  "getHandler GROUP_CHAT_MSG = Some H_groupChat"
  by (simp_all add: getHandler_def msgHandlerMap_def msg_defs)

subsection \<open>A private message\<close>

definition chat_json :: "int \<Rightarrow> string \<Rightarrow> int \<Rightarrow> string \<Rightarrow> string \<Rightarrow> json" where
  "chat_json i n t m tm =
     json_obj [(''msgid'', JInt ONE_CHAT_MSG), (''id'', JInt i), (''name'', JStr n), (''to'', JInt t),
       (''msg'', JStr m), (''time'', JStr tm)]"

lemma chat_json_get:
  "json_get ''msgid'' (chat_json i n t m tm) = Some (JInt ONE_CHAT_MSG)" "json_get ''id'' (chat_json i n t m tm) = Some (JInt i)"
  "json_get ''name'' (chat_json i n t m tm) = Some (JStr n)" "json_get ''to'' (chat_json i n t m tm) = Some (JInt t)"
  "json_get ''msg'' (chat_json i n t m tm) = Some (JStr m)" "json_get ''time'' (chat_json i n t m tm) = Some (JStr tm)"
  by (simp_all add: chat_json_def json_get_json_obj)

definition int32 :: "int \<Rightarrow> bool" where
  "int32 i \<longleftrightarrow> - (2 ^ 31) \<le> i \<and> i < 2 ^ 31"

lemma int32_get: "int32 i \<Longrightarrow> get_int (JInt i) = Inr i"
  by (simp add: int32_def to_int32_id)

lemma int32_json: "int32 i \<Longrightarrow> json_typed (JInt i)"
  by (simp add: int32_def)

lemma atoi_int32: "int32 (atoi s)"
  using to_int32_range by (simp add: atoi_def int32_def split_beta)

lemma getCurrentTime_utf8: "utf8_ok (getCurrentTime t)"
proof -
  have "byte c < 0x80" if "c \<in> set (two_digits i)" for c i
    using that by (auto simp: two_digits_def dest: to_string_chars)
  then show ?thesis
    by (intro utf8_ok_all_ascii) (auto simp: getCurrentTime_def dest: to_string_chars)
qed

lemma chat_json_sendable:
  assumes "int32 i" and "int32 t" and "utf8_ok n" and "utf8_ok m" and "utf8_ok tm"
  shows "json_sendable (chat_json i n t m tm)"
  unfolding json_sendable_def chat_json_def
  using assms by (intro conjI json_obj_props; simp add: int32_json del: json_typed.simps(1))

text \<open>The line the receiving client prints.\<close>

lemma chat_line_received:
  "chat_line F (json_norm (chat_json i n t m tm)) = Inr (tm @ '' ['' @ to_string i @ '']'' @ n @ '' said: '' @ m)"
proof -
  have "shown F ''id'' (json_norm (chat_json i n t m tm)) = Inr (to_string i, json_norm (chat_json i n t m tm))"
    by (rule shown_present [of _ _ "json_norm (JInt i)"]) (simp_all add: chat_json_get json_dump_norm del: json_norm.simps)
  then show ?thesis
    by (simp add: chat_line_def json_lib.received_string chat_json_get)
qed


lemma read_turn_message:
  assumes "json_sendable js" and "length (json_text F js) \<le> 1024" and "json_get ''msgid'' js = Some (JInt m)" and "int32 m"
  shows "parseR F (recv_buffer (json_text F js)) = Inr (json_norm js)" "field_int ''msgid'' (json_norm js) = Inr (m, json_norm js)"
  using assms recv_parse [OF json_dump_text, of js F] json_lib.received_int [OF assms(3) int32_get [OF assms(4)]]
  by (simp_all add: parseR_def json_sendable_def)

lemma read_turn_chat:
  assumes "json_sendable (chat_json i n t m tm)" and "length (json_text F (chat_json i n t m tm)) \<le> 1024"
  shows "read_turn F (Some (json_text F (chat_json i n t m tm))) c =
    Inr (print_line (tm @ '' ['' @ to_string i @ '']'' @ n @ '' said: '' @ m) c)"
  using read_turn_message [OF assms chat_json_get(1)] chat_line_received [of F i n t m tm]
  by (simp add: read_turn_def int32_def msg_defs)

lemma send_command_text:
  assumes "json_typed js" and "\<And>buf d. ce_send E buf d = int (length buf)"
  shows "send_command E js complaint c = Inr (c\<lparr>outbox := outbox c @ [json_text (ce_fp E) js]\<rparr>)"
  using assms by (simp add: send_command_def send_request_def json_dump_text client_send_def error_if_def)

lemma typed_chat:
  assumes "good (cin a)" and "unread (cin a) = ''chat'' @ CHR 0x3A # (to_text @ CHR 0x3A # m) @ CHR 0x0A # r"
    and "CHR 0x3A \<notin> set to_text" and "set (to_text @ m) \<inter> {CHR 0x0A, CHR 0x00} = {}" and "length (to_text @ m) < 1018"
    and "m \<noteq> []" and "\<And>buf d. ce_send A buf d = int (length buf)"
    and "json_sendable (chat_json (user_id (currentUser a)) (user_name (currentUser a)) (atoi to_text) m
            (getCurrentTime (ce_now A (a\<lparr>cin := (cin a)\<lparr>unread := r\<rparr>\<rparr>))))"
  shows "\<exists>a'. mainmenu_turn A a = Inr a' \<and>
    outbox a' = outbox a @ [json_text (ce_fp A) (chat_json (user_id (currentUser a)) (user_name (currentUser a)) (atoi to_text) m
            (getCurrentTime (ce_now A (a\<lparr>cin := (cin a)\<lparr>unread := r\<rparr>\<rparr>))))]"
proof -
  let ?a = "a\<lparr>cin := (cin a)\<lparr>unread := r\<rparr>\<rparr>"
  have "mainmenu_turn A a = client_chat A (to_text @ CHR 0x3A # m) ?a"
    using assms(4,5) by (intro mainmenu_command [OF assms(1,2)]) (auto simp: commandHandlerMap_def)
  also have "\<dots> = send_command A (chat_json (user_id (currentUser a)) (user_name (currentUser a)) (atoi to_text) m
      (getCurrentTime (ce_now A ?a))) ''send chat msg error'' ?a"
    using assms(6) by (simp add: client_chat_def split_colon_append [OF assms(3)] chat_json_def)
  finally show ?thesis
    using send_command_text [OF _ assms(7), of _ "''send chat msg error''" ?a] assms(8) by (simp add: json_sendable_def)
qed

text \<open>
  C6. A private message from keyboard to screen: a logged-in user types
  \<open>chat:<id>:<text>\<close> and the sending client gives the server one text; on a working database
  the server answers the sender, and passes the same text on when the receiver is a friend who is
  connected to this node; and the receiver's client, when the text fits its buffer of 1024 bytes and
  arrives in one piece, prints the time, the sender's id and name and exactly the text that was typed.
\<close>

theorem chat_end_to_end:
  assumes "same_json (ce_fp A) E" and "mysql_reliable cfg (c_sql E) tv" and "available (ms (off w))"
    and "tables_wf cfg (tv (db (ms (off w))))" and "map_of (userConnMap w) (atoi to_text) = Some receiver"
    and "good (cin a)" and "unread (cin a) = ''chat'' @ CHR 0x3A # (to_text @ CHR 0x3A # m) @ CHR 0x0A # r"
    and "CHR 0x3A \<notin> set to_text" and "set (to_text @ m) \<inter> {CHR 0x0A, CHR 0x00} = {}" and "length (to_text @ m) < 1018"
    and "m \<noteq> []" and "utf8_ok m" and "utf8_ok (user_name (currentUser a))" and "int32 (user_id (currentUser a))"
    and "\<And>buf d. ce_send A buf d = int (length buf)"
  shows "\<exists>a' buf now w'. mainmenu_turn A a = Inr a' \<and> outbox a' = outbox a @ [buf] \<and>
    onMessage E conn buf w = Some w' \<and>
    sent w' = sent w @
      (if (user_id (currentUser a), atoi to_text) \<in> set (t_Friend (tv (db (ms (off w)))))
       then [(conn, ack E 0 ''msg'' ''MSG have sent''), (receiver, buf)]
       else [(conn, ack E 1 ''errormsg'' ''No this friend'')]) \<and>
    (length buf \<le> 1024 \<longrightarrow> read_turn (ce_fp A) (Some buf) b =
      Inr (print_line (getCurrentTime now @ '' ['' @ to_string (user_id (currentUser a)) @ '']'' @ user_name (currentUser a) @
        '' said: '' @ m) b))"
proof -
  define now where "now = ce_now A (a\<lparr>cin := (cin a)\<lparr>unread := r\<rparr>\<rparr>)"
  define js where "js = chat_json (user_id (currentUser a)) (user_name (currentUser a)) (atoi to_text) m (getCurrentTime now)"
  have js: "json_sendable js"
    unfolding js_def using assms(12-14) by (simp add: chat_json_sendable atoi_int32 getCurrentTime_utf8)
  obtain a' where a': "mainmenu_turn A a = Inr a'" "outbox a' = outbox a @ [json_text (ce_fp A) js]"
    using typed_chat [OF assms(6-11,15)] js unfolding js_def now_def by blast
  have "onMessage E conn (json_text (ce_fp A) js) w = map_option snd (oneChat E conn (json_norm js) w)"
    using onMessage_text [OF assms(1) js, of "JInt ONE_CHAT_MSG" ONE_CHAT_MSG H_oneChat]
    by (simp add: js_def chat_json_get msg_defs to_int32_def getHandler_def msgHandlerMap_def)
  moreover obtain w' where "oneChat E conn (json_norm js) w = Some (Inr (), w')"
    "sent w' = sent w @
      (if (user_id (currentUser a), atoi to_text) \<in> set (t_Friend (tv (db (ms (off w)))))
       then [(conn, ack E 0 ''msg'' ''MSG have sent''), (receiver, json_text (ce_fp A) js)]
       else [(conn, ack E 1 ''errormsg'' ''No this friend'')])"
  proof -
    have g: "json_get ''msg'' (json_norm js) = Some (JStr m)" "json_get ''id'' (json_norm js) = Some (json_norm (JInt (user_id (currentUser a))))"
      "json_get ''to'' (json_norm js) = Some (json_norm (JInt (atoi to_text)))"
      "get_int (json_norm (JInt (user_id (currentUser a)))) = Inr (user_id (currentUser a))"
      "get_int (json_norm (JInt (atoi to_text))) = Inr (atoi to_text)" "c_dump E (json_norm js) = json_text (ce_fp A) js"
      using assms(1) by (simp_all add: js_def chat_json_get int32_get [OF assms(14)] int32_get [OF atoi_int32] same_json_def json_text_norm
          del: get_int.simps json_norm.simps(1))
    from oneChat_deliver [OF assms(2-4) g(1) assms(11) g(2,4,3,5) assms(5), of conn] g(6) that show thesis by auto
  qed
  moreover have "length (json_text (ce_fp A) js) \<le> 1024 \<longrightarrow> read_turn (ce_fp A) (Some (json_text (ce_fp A) js)) b =
      Inr (print_line (getCurrentTime now @ '' ['' @ to_string (user_id (currentUser a)) @ '']'' @ user_name (currentUser a) @ '' said: '' @ m) b)"
    using read_turn_chat [OF js [unfolded js_def]] unfolding js_def by blast
  ultimately show ?thesis using a' by (intro exI [of _ a'] exI [of _ "json_text (ce_fp A) js"] exI [of _ now] exI [of _ w']) simp
qed


definition ex_wire :: "(tables, keyspace) chat_env" where
  "ex_wire = ex_env\<lparr>c_dump := json_text ex_fp, c_parse := json_parse ex_fp\<rparr>"

lemma ex_wire_sql: "mysql_reliable ex_cfg (c_sql ex_wire) (\<lambda>t. t)"
  using ex_env_sql by (simp add: ex_wire_def)

definition ex_ann :: "string \<Rightarrow> client" where
  "ex_ann keyboard = (client_start keyboard)\<lparr>currentUser := User_default\<lparr>user_id := 1\<rparr>, phase := InMenu, isMainMenuRunning := True\<rparr>"

lemma ex_ann_simps [simp]:
  "currentUser (ex_ann k) = User_default\<lparr>user_id := 1\<rparr>" "outbox (ex_ann k) = []" "unread (cin (ex_ann k)) = k" "good (cin (ex_ann k))"
  by (simp_all add: ex_ann_def client_start_def good_def)

theorem chat_end_to_end_witness:
  "\<exists>a' buf w'. mainmenu_turn ex_client_env (ex_ann (''chat:2:hello'' @ [CHR 0x0A])) = Inr a' \<and> outbox a' = [buf] \<and>
     onMessage ex_wire 7 buf ((ex_state [Some 0, Some 1])\<lparr>userConnMap := [(1, 7), (2, 8)]\<rparr>) = Some w' \<and>
     sent w' = [(7, ack ex_wire 0 ''msg'' ''MSG have sent''), (8, buf)]"
proof -
  let ?w = "(ex_state [Some 0, Some 1])\<lparr>userConnMap := [(1, 7), (2, 8)]\<rparr>"
  have j: "same_json (ce_fp ex_client_env) ex_wire" by (simp add: same_json_def ex_client_env_def ex_wire_def)
  have w: "available (ms (off ?w))" "tables_wf ex_cfg (db (ms (off ?w)))" using ex_available ex_tables_wf [of "[Some 0, Some 1]"] by simp_all
  have "atoi ''2'' = 2" by code_simp
  moreover have "(1, 2) \<in> set (t_Friend (db (ms (off ?w))))" "sent ?w = []" by (simp_all add: ex_defs)
  ultimately show ?thesis
    using chat_end_to_end [OF j ex_wire_sql w, of "''2''" 8 "ex_ann (''chat:2:hello'' @ [CHR 0x0A])" "''hello''" "[]", OF _ _ _ _ _ _ _ _ _ _ ex_send, of 7]
    by (simp add: User_default_def utf8_ok_all_ascii int32_def User_def) blast
qed

subsection \<open>The reply to a login\<close>

lemma online_text_utf8 [simp]: "utf8_ok (online_text b)"
  by (simp add: online_text_def utf8_ok_all_ascii)

lemma friend_of_text_text:
  assumes "int32 i" and "utf8_ok n" and "utf8_ok st"
  shows "json_sendable (json_obj [(''id'', JInt i), (''name'', JStr n), (''state'', JStr st)])"
    "friend_of_text F (json_text F (json_obj [(''id'', JInt i), (''name'', JStr n), (''state'', JStr st)])) =
       Inr (User_default\<lparr>user_id := i, user_name := n, user_state := st\<rparr>)"
proof -
  let ?js = "json_obj [(''id'', JInt i), (''name'', JStr n), (''state'', JStr st)]"
  show s: "json_sendable ?js" unfolding json_sendable_def
    using assms by (intro conjI json_obj_props; simp add: int32_json del: json_typed.simps(1))
  have "field_int ''id'' (json_norm ?js) = Inr (i, json_norm ?js)" "field_string ''name'' (json_norm ?js) = Inr (n, json_norm ?js)"
    "field_string ''state'' (json_norm ?js) = Inr (st, json_norm ?js)"
    by (auto intro!: json_lib.received_int json_lib.received_string int32_get assms(1) simp: json_get_json_obj)
  with json_lib.parse_print [OF s, of F]
  show "friend_of_text F (json_text F ?js) = Inr (User_default\<lparr>user_id := i, user_name := n, user_state := st\<rparr>)"
    by (simp add: friend_of_text_def parseR_def)
qed

lemma groupuser_of_text_text:
  assumes "int32 i" and "utf8_ok n" and "utf8_ok st" and "utf8_ok rl"
  shows "json_sendable (json_obj [(''id'', JInt i), (''name'', JStr n), (''state'', JStr st), (''role'', JStr rl)])"
    "groupuser_of_text F (json_text F (json_obj [(''id'', JInt i), (''name'', JStr n), (''state'', JStr st), (''role'', JStr rl)])) =
       Inr \<lparr>user_id = i, user_name = n, user_password = [], user_state = st, gu_role = rl\<rparr>"
proof -
  let ?js = "json_obj [(''id'', JInt i), (''name'', JStr n), (''state'', JStr st), (''role'', JStr rl)]"
  show s: "json_sendable ?js" unfolding json_sendable_def
    using assms by (intro conjI json_obj_props; simp add: int32_json del: json_typed.simps(1))
  have "field_int ''id'' (json_norm ?js) = Inr (i, json_norm ?js)" "field_string ''name'' (json_norm ?js) = Inr (n, json_norm ?js)"
    "field_string ''state'' (json_norm ?js) = Inr (st, json_norm ?js)" "field_string ''role'' (json_norm ?js) = Inr (rl, json_norm ?js)"
    by (auto intro!: json_lib.received_int json_lib.received_string int32_get assms(1) simp: json_get_json_obj)
  with json_lib.parse_print [OF s, of F]
  show "groupuser_of_text F (json_text F ?js) = Inr \<lparr>user_id = i, user_name = n, user_password = [], user_state = st, gu_role = rl\<rparr>"
    by (simp add: groupuser_of_text_def parseR_def)
qed

text \<open>Users the protocol can carry.\<close>

definition user_ok :: "'a user_scheme \<Rightarrow> bool" where
  "user_ok u \<longleftrightarrow> int32 (user_id u) \<and> utf8_ok (user_name u)"

lemma friend_texts_read:
  assumes "same_json F E" and "\<forall>u \<in> set us. user_ok u"
  shows "(\<forall>t \<in> set (fst (friend_texts E us w)). utf8_ok t) \<and> (\<exists>us'. mapR (friend_of_text F) (fst (friend_texts E us w)) = Inr us' \<and>
    map (\<lambda>u. (user_id u, user_name u)) us' = map (\<lambda>u. (user_id u, user_name u)) us)"
  using assms(2)
proof (induction us arbitrary: w)
  case (Cons u us)
  let ?o = "fst (on_redis (isUserOnline (c_redis E) (user_id u)) w)" and ?w1 = "snd (on_redis (isUserOnline (c_redis E) (user_id u)) w)"
  have u: "int32 (user_id u)" "utf8_ok (user_name u)" using Cons.prems by (simp_all add: user_ok_def)
  from Cons obtain us' where us': "mapR (friend_of_text F) (fst (friend_texts E us ?w1)) = Inr us'"
    "map (\<lambda>u. (user_id u, user_name u)) us' = map (\<lambda>u. (user_id u, user_name u)) us" "\<forall>t \<in> set (fst (friend_texts E us ?w1)). utf8_ok t"
    by fastforce
  note f = friend_of_text_text [OF u online_text_utf8 [of ?o]]
  show ?case
    using us' f(2) [of F] json_text_utf8 [OF f(1), of F] assms(1)
    by (simp add: split_beta same_json_def)
qed simp

lemma member_texts_read:
  assumes "same_json F E" and "\<forall>u \<in> set us. user_ok u \<and> utf8_ok (gu_role u)"
  shows "(\<forall>t \<in> set (fst (member_texts E us w)). utf8_ok t) \<and> (\<exists>us'. mapR (groupuser_of_text F) (fst (member_texts E us w)) = Inr us' \<and>
    map (\<lambda>u. (user_id u, user_name u, gu_role u)) us' = map (\<lambda>u. (user_id u, user_name u, gu_role u)) us)"
  using assms(2)
proof (induction us arbitrary: w)
  case (Cons u us)
  let ?o = "fst (on_redis (isUserOnline (c_redis E) (user_id u)) w)" and ?w1 = "snd (on_redis (isUserOnline (c_redis E) (user_id u)) w)"
  have u: "int32 (user_id u)" "utf8_ok (user_name u)" "utf8_ok (gu_role u)" using Cons.prems by (simp_all add: user_ok_def)
  from Cons obtain us' where us': "mapR (groupuser_of_text F) (fst (member_texts E us ?w1)) = Inr us'"
    "map (\<lambda>u. (user_id u, user_name u, gu_role u)) us' = map (\<lambda>u. (user_id u, user_name u, gu_role u)) us"
    "\<forall>t \<in> set (fst (member_texts E us ?w1)). utf8_ok t"
    by fastforce
  note f = groupuser_of_text_text [OF u(1,2) online_text_utf8 [of ?o] u(3)]
  show ?case
    using us' f(2) [of F] json_text_utf8 [OF f(1), of F] assms(1)
    by (simp add: split_beta same_json_def)
qed simp


lemma string_vector: "get_string_vector (JArr (map JStr ts)) = Inr ts"
  by (induction ts) (auto simp: bindR_Inr_iff)

lemma strings_json:
  assumes "\<forall>t \<in> set ts. utf8_ok t"
  shows "json_typed (JArr (map JStr ts)) \<and> json_no_float (JArr (map JStr ts))"
  using assms by auto

lemma group_of_text_text:
  assumes "int32 i" and "utf8_ok n" and "utf8_ok ds" and "\<forall>t \<in> set ts. utf8_ok t" and "mapR (groupuser_of_text F) ts = Inr us"
  shows "json_sendable (json_obj [(''id'', JInt i), (''groupname'', JStr n), (''groupdesc'', JStr ds), (''users'', JArr (map JStr ts))])"
    "group_of_text F (json_text F (json_obj [(''id'', JInt i), (''groupname'', JStr n), (''groupdesc'', JStr ds),
        (''users'', JArr (map JStr ts))])) = Inr ((Group i n ds)\<lparr>group_users := us\<rparr>)"
proof -
  let ?js = "json_obj [(''id'', JInt i), (''groupname'', JStr n), (''groupdesc'', JStr ds), (''users'', JArr (map JStr ts))]"
  show s: "json_sendable ?js" unfolding json_sendable_def
    using assms(1-3) strings_json [OF assms(4)]
    by (intro conjI json_obj_props; simp add: int32_json del: json_typed.simps(1,4) json_no_float.simps(2))
  have "field_int ''id'' (json_norm ?js) = Inr (i, json_norm ?js)" "field_string ''groupname'' (json_norm ?js) = Inr (n, json_norm ?js)"
    "field_string ''groupdesc'' (json_norm ?js) = Inr (ds, json_norm ?js)"
    by (auto intro!: json_lib.received_int json_lib.received_string int32_get assms(1) simp: json_get_json_obj)
  moreover have "json_index ''users'' (json_norm ?js) = Inr (json_norm (JArr (map JStr ts)), json_norm ?js)"
    by (rule json_index_present) (simp add: json_get_json_obj)
  ultimately show "group_of_text F (json_text F ?js) = Inr ((Group i n ds)\<lparr>group_users := us\<rparr>)"
    using json_lib.parse_print [OF s, of F] string_vector [of ts] assms(5)
    by (simp add: group_of_text_def parseR_def del: json_norm.simps get_string_vector.simps)
qed

definition group_ok :: "group \<Rightarrow> bool" where
  "group_ok g \<longleftrightarrow> int32 (group_id g) \<and> utf8_ok (group_name g) \<and> utf8_ok (group_desc g) \<and>
     (\<forall>u \<in> set (group_users g). user_ok u \<and> utf8_ok (gu_role u))"

text \<open>What the client shows of a group and of a friend, apart from who is online.\<close>

definition group_view :: "group \<Rightarrow> int \<times> string \<times> string \<times> (int \<times> string \<times> string) list" where
  "group_view g = (group_id g, group_name g, group_desc g, map (\<lambda>u. (user_id u, user_name u, gu_role u)) (group_users g))"

definition friend_view :: "user \<Rightarrow> int \<times> string" where
  "friend_view u = (user_id u, user_name u)"

lemma group_texts_read:
  assumes "same_json F E" and "\<forall>g \<in> set gs. group_ok g"
  shows "(\<forall>t \<in> set (fst (group_texts E i gs w)). utf8_ok t) \<and>
    (\<exists>gs'. mapR (group_of_text F) (fst (group_texts E i gs w)) = Inr gs' \<and> map group_view gs' = map group_view gs)"
  using assms(2)
proof (induction gs arbitrary: w)
  case (Cons g gs)
  have g: "int32 (group_id g)" "utf8_ok (group_name g)" "utf8_ok (group_desc g)"
    "\<forall>u \<in> set (group_users g). user_ok u \<and> utf8_ok (gu_role u)" using Cons.prems by (simp_all add: group_ok_def)
  obtain us where us: "mapR (groupuser_of_text F) (fst (member_texts E (group_users g) w)) = Inr us"
    "map (\<lambda>u. (user_id u, user_name u, gu_role u)) us = map (\<lambda>u. (user_id u, user_name u, gu_role u)) (group_users g)"
    and m: "\<forall>t \<in> set (fst (member_texts E (group_users g) w)). utf8_ok t"
    using member_texts_read [OF assms(1) g(4), of w] by blast
  note f = group_of_text_text [OF g(1-3) m us(1)]
  have IH: "(\<forall>t \<in> set (fst (group_texts E i gs w')). utf8_ok t) \<and>
    (\<exists>gs'. mapR (group_of_text F) (fst (group_texts E i gs w')) = Inr gs' \<and> map group_view gs' = map group_view gs)" for w'
    using Cons by simp
  obtain w' where w': "fst (group_texts E i (g # gs) w) = json_text F (json_obj [(''id'', JInt (group_id g)), (''groupname'', JStr (group_name g)),
      (''groupdesc'', JStr (group_desc g)), (''users'', JArr (map JStr (fst (member_texts E (group_users g) w))))]) # fst (group_texts E i gs w')"
    using assms(1) by (simp add: split_beta Let_def same_json_def)
  obtain gs' where "mapR (group_of_text F) (fst (group_texts E i gs w')) = Inr gs'" "map group_view gs' = map group_view gs"
    using IH by blast
  moreover have "group_view ((Group (group_id g) (group_name g) (group_desc g))\<lparr>group_users := us\<rparr>) = group_view g"
    by (simp add: group_view_def us(2) Group_def)
  ultimately show ?case
    unfolding w' using f(2) json_text_utf8 [OF f(1), of F] IH by simp
qed simp


text \<open>The entry a list contributes to a reply: none when it is empty.\<close>

definition entry :: "string \<Rightarrow> string list \<Rightarrow> (string \<times> json) list" where
  "entry k ts = (if ts = [] then [] else [(k, JArr (map JStr ts))])"

definition login_json :: "int \<Rightarrow> string \<Rightarrow> string list \<Rightarrow> string list \<Rightarrow> string list \<Rightarrow> json" where
  "login_json i n msgs friends groups =
     json_obj ([(''msgid'', JInt LOGIN_MSG_ACK), (''errno'', JInt 0), (''id'', JInt i), (''name'', JStr n)] @
       entry ''offlinemessage'' msgs @ entry ''friends'' friends @ entry ''groups'' groups)"

lemma login_json_get:
  "json_get ''msgid'' (login_json i n msgs friends groups) = Some (JInt LOGIN_MSG_ACK)"
  "json_get ''errno'' (login_json i n msgs friends groups) = Some (JInt 0)"
  "json_get ''id'' (login_json i n msgs friends groups) = Some (JInt i)"
  "json_get ''offlinemessage'' (login_json i n msgs friends groups) = (if msgs = [] then None else Some (JArr (map JStr msgs)))"
  "json_get ''friends'' (login_json i n msgs friends groups) = (if friends = [] then None else Some (JArr (map JStr friends)))"
  "json_get ''groups'' (login_json i n msgs friends groups) = (if groups = [] then None else Some (JArr (map JStr groups)))"
  by (simp_all add: login_json_def json_get_json_obj entry_def)

lemma login_json_sendable:
  assumes "int32 i" and "utf8_ok n" and "\<forall>t \<in> set (msgs @ friends @ groups). utf8_ok t"
  shows "json_sendable (login_json i n msgs friends groups)"
proof -
  have "json_typed (JInt 0)" by simp
  moreover have "json_typed (JArr (map JStr msgs)) \<and> json_no_float (JArr (map JStr msgs))"
    "json_typed (JArr (map JStr friends)) \<and> json_no_float (JArr (map JStr friends))"
    "json_typed (JArr (map JStr groups)) \<and> json_no_float (JArr (map JStr groups))"
    using assms(3) by (intro strings_json; simp)+
  ultimately have "\<forall>(k, v) \<in> set ([(''msgid'', JInt LOGIN_MSG_ACK), (''errno'', JInt 0), (''id'', JInt i), (''name'', JStr n)] @
       entry ''offlinemessage'' msgs @ entry ''friends'' friends @ entry ''groups'' groups). utf8_ok k \<and> json_typed v \<and> json_no_float v"
    using assms(1,2) by (simp add: entry_def int32_json del: json_typed.simps(1,4) json_no_float.simps(2))
  from json_obj_props [OF this] show ?thesis by (simp add: json_sendable_def login_json_def)
qed

lemma listed_received:
  assumes "json_get k js = (if ts = [] then None else Some (JArr (map JStr ts)))" and "mapR f ts = Inr xs"
  shows "listed k (json_norm js) f = Inr (if ts = [] then None else Some xs)"
proof (cases "ts = []")
  case True
  with assms(1) show ?thesis by (simp add: listed_def json_lib.received_contains json_contains_get)
next
  case False
  then have "json_index k (json_norm js) = Inr (json_norm (JArr (map JStr ts)), json_norm js)"
    using assms(1) by (intro json_index_present) simp
  with False assms show ?thesis
    using string_vector [of ts]
    by (simp add: listed_def json_lib.received_contains json_contains_get del: json_norm.simps get_string_vector.simps)
qed

lemma doLoginResponse_login:
  assumes "int32 i" and "mapR (offline_line F) msgs = Inr ls" and "mapR (friend_of_text F) friends = Inr us"
    and "mapR (group_of_text F) groups = Inr gs"
  shows "\<exists>c'. doLoginResponse F (json_norm (login_json i n msgs friends groups)) c = Inr c' \<and> isLoginSuccess c' \<and> rwSem c' = rwSem c \<and>
    currentUser c' = (currentUser c)\<lparr>user_id := i\<rparr> \<and>
    currentUserFriendList c' = (if friends = [] then currentUserFriendList c else us) \<and>
    currentUserGroupList c' = (if groups = [] then currentUserGroupList c else gs) \<and>
    (\<exists>before. screen c' = screen c @ before @ ls)"
proof -
  let ?js = "json_norm (login_json i n msgs friends groups)"
  have "json_index ''errno'' ?js = Inr (json_norm (JInt 0), ?js)" by (rule json_index_present) (simp add: login_json_get)
  moreover have "field_int ''id'' ?js = Inr (i, ?js)" by (rule json_lib.received_int [OF login_json_get(3) int32_get [OF assms(1)]])
  moreover have "listed ''friends'' ?js (friend_of_text F) = Inr (if friends = [] then None else Some us)"
    "listed ''groups'' ?js (group_of_text F) = Inr (if groups = [] then None else Some gs)"
    "listed ''offlinemessage'' ?js (offline_line F) = Inr (if msgs = [] then None else Some ls)"
    using assms(2-4) by (intro listed_received; simp add: login_json_get)+
  moreover have "msgs = [] \<Longrightarrow> ls = []" using assms(2) by auto
  ultimately show ?thesis
    by (cases "msgs = []"; cases "friends = []"; cases "groups = []") (simp_all add: doLoginResponse_def Let_def showCurrentUserData_def)
qed


lemma on_redis_off [simp]: "off (snd (on_redis f w)) = off w"
  by (simp add: on_redis_eq)

lemma friend_texts_off: "off (snd (friend_texts E us w)) = off w"
  by (simp add: friend_texts_state)

text \<open>
  What Redis has as the cached friend list when a login looks for it, and the friends and groups the
  login names: those of the database, but no friends when Redis has a cached list.
\<close>

definition friend_cache :: "('db, 'rd) chat_env \<Rightarrow> nat \<Rightarrow> int \<Rightarrow> 'rd redis_state \<Rightarrow> string option" where
  "friend_cache E conn i s =
     fst (redis_get (c_redis E) (friends_key i)
       (snd (popOfflineMessages (c_redis E) i
         (snd (setUserOnline (c_redis E) i (c_name E conn) (snd (getUserNode (c_redis E) i s)))))))"

definition told_friends :: "('db, 'rd) chat_env \<Rightarrow> nat \<Rightarrow> int \<Rightarrow> ('db, 'rd) chat_state \<Rightarrow> user list" where
  "told_friends E conn i w =
     (if friend_cache E conn i (rc w) = None then fst (FriendModel_query (c_sql E) i (ms (off w))) else [])"

definition told_groups :: "('db, 'rd) chat_env \<Rightarrow> nat \<Rightarrow> int \<Rightarrow> ('db, 'rd) chat_state \<Rightarrow> group list" where
  "told_groups E conn i w =
     fst (GroupModel_queryGroups (c_sql E) i
       (if friend_cache E conn i (rc w) = None then snd (FriendModel_query (c_sql E) i (ms (off w))) else ms (off w)))"

text \<open>The lists the server puts into the reply are printed friends and groups of the queries.\<close>

lemma login_friends_entry:
  defines "cached \<equiv> \<lambda>E i w. fst (on_redis (redis_get (c_redis E) (friends_key i)) w) \<noteq> None"
  obtains w' where "fst (login_friends E i w) = entry ''friends''
      (fst (friend_texts E (if cached E i w then [] else fst (FriendModel_query (c_sql E) i (ms (off w)))) w'))"
    and "ms (off (snd (login_friends E i w))) = (if cached E i w then ms (off w) else snd (FriendModel_query (c_sql E) i (ms (off w))))"
proof -
  let ?w1 = "snd (on_redis (redis_get (c_redis E) (friends_key i)) w)"
  let ?q = "FriendModel_query (c_sql E) i (ms (off w))"
  let ?w2 = "?w1\<lparr>off := (off w)\<lparr>ms := snd ?q\<rparr>\<rparr>"
  have "fst ?q \<noteq> [] \<Longrightarrow> fst (friend_texts E (fst ?q) ?w2) \<noteq> []"
    using length_friend_texts [of E "fst ?q" ?w2] by auto
  then show thesis
    by (intro that [of ?w2])
      (auto simp: cached_def login_friends_def split_beta on_mysql_eq entry_def friend_texts_off Let_def split: option.splits)
qed

lemma login_groups_entry:
  obtains w' where "fst (login_groups E i w) = entry ''groups''
      (fst (group_texts E i (fst (GroupModel_queryGroups (c_sql E) i (ms (off w)))) w'))"
proof -
  let ?q = "GroupModel_queryGroups (c_sql E) i (ms (off w))"
  let ?w1 = "w\<lparr>off := (off w)\<lparr>ms := snd ?q\<rparr>\<rparr>"
  have "fst ?q \<noteq> [] \<Longrightarrow> fst (group_texts E i (fst ?q) ?w1) \<noteq> []"
    by (cases "fst ?q") (simp_all add: split_beta Let_def)
  then show thesis
    by (intro that [of ?w1]) (auto simp: login_groups_def split_beta on_mysql_eq entry_def)
qed

lemma login_success_text:
  obtains w1 w2 where "sent (login_success E conn i u w) =
      sent w @ [(conn, c_dump E (login_json (user_id u) (user_name u) (login_offline E conn i (rc w))
        (fst (friend_texts E (told_friends E conn i w) w1)) (fst (group_texts E i (told_groups E conn i w) w2))))]"
proof -
  let ?R = "c_redis E"
  let ?s3 = "snd (setUserOnline ?R i (c_name E conn) (snd (getUserNode ?R i (rc w))))"
  let ?w4 = "w\<lparr>userConnMap := um_insert i conn (userConnMap w), rc := snd (popOfflineMessages ?R i ?s3)\<rparr>"
  let ?off = "login_offline E conn i (rc w)"
  let ?fr = "login_friends E i ?w4"
  let ?gr = "login_groups E i (snd ?fr)"
  have off: "fst (popOfflineMessages ?R i ?s3) = ?off" by (simp add: login_offline_def)
  have eq: "login_success E conn i u w =
      send conn (c_dump E (json_obj ([(''msgid'', JInt LOGIN_MSG_ACK), (''errno'', JInt 0), (''id'', JInt (user_id u)),
        (''name'', JStr (user_name u))] @ entry ''offlinemessage'' ?off @ fst ?fr @ fst ?gr))) (snd ?gr)"
    by (simp add: login_success_def on_redis_eq Let_def split_beta off entry_def)
  have cached: "fst (on_redis (redis_get ?R (friends_key i)) ?w4) = friend_cache E conn i (rc w)"
    by (simp add: friend_cache_def on_redis_eq)
  obtain w1 where ft: "fst ?fr = entry ''friends'' (fst (friend_texts E (told_friends E conn i w) w1))"
    and q: "fst (GroupModel_queryGroups (c_sql E) i (ms (off (snd ?fr)))) = told_groups E conn i w"
    by (rule login_friends_entry [of E i ?w4]) (auto simp: cached told_friends_def told_groups_def split: if_splits)
  obtain w2 where gt: "fst ?gr = entry ''groups'' (fst (group_texts E i (told_groups E conn i w) w2))"
    by (rule login_groups_entry [of E i "snd ?fr"]) (simp add: q)
  obtain m s where m: "snd ?fr = ?w4\<lparr>off := (off w)\<lparr>ms := m\<rparr>, rc := s\<rparr>"
    by (rule login_friends_state [of E i ?w4]) simp
  have "sent (snd ?gr) = sent w" unfolding login_groups_state m Let_def by simp
  then show thesis by (intro that [of w1 w2]) (simp add: eq ft gt login_json_def)
qed

text \<open>The client takes a reply it can read and enters the menu.\<close>

lemma login_reply_read:
  assumes "json_sendable (login_json i n msgs ft gt)" and "length (json_text F (login_json i n msgs ft gt)) \<le> 1024"
    and "int32 i" and "mapR (offline_line F) msgs = Inr ls" and "mapR (friend_of_text F) ft = Inr us" and "mapR (group_of_text F) gt = Inr gs"
    and "phase c = WaitLogin"
  shows "\<exists>c' c''. read_turn F (Some (json_text F (login_json i n msgs ft gt))) c = Inr c' \<and> user_id (currentUser c') = i \<and>
    currentUserFriendList c' = (if ft = [] then currentUserFriendList c else us) \<and>
    currentUserGroupList c' = (if gt = [] then currentUserGroupList c else gs) \<and> (\<exists>before. screen c' = screen c @ before @ ls) \<and>
    client_step C c' c'' \<and> phase c'' = InMenu \<and> isMainMenuRunning c'' \<and> rwSem c'' = rwSem c"
proof -
  let ?js = "login_json i n msgs ft gt"
  obtain c1 where c1: "doLoginResponse F (json_norm ?js) c = Inr c1" "isLoginSuccess c1" "rwSem c1 = rwSem c" "currentUser c1 = (currentUser c)\<lparr>user_id := i\<rparr>"
    "currentUserFriendList c1 = (if ft = [] then currentUserFriendList c else us)"
    "currentUserGroupList c1 = (if gt = [] then currentUserGroupList c else gs)" "\<exists>before. screen c1 = screen c @ before @ ls"
    using doLoginResponse_login [OF assms(3-6)] by blast
  have "phase c1 = WaitLogin" using doLoginResponse_frame [OF c1(1)] assms(7) by simp
  then have "client_step C (c1\<lparr>rwSem := rwSem c1 + 1\<rparr>) (after_login (c1\<lparr>rwSem := rwSem c1\<rparr>))"
    using client_step.login_wait [of "c1\<lparr>rwSem := rwSem c1 + 1\<rparr>" C] by simp
  moreover have "read_turn F (Some (json_text F ?js)) c = Inr (c1\<lparr>rwSem := rwSem c1 + 1\<rparr>)"
    using read_turn_message [OF assms(1,2) login_json_get(1)] c1(1) by (simp add: read_turn_def int32_def msg_defs)
  ultimately show ?thesis
    using c1(2-7) by (intro exI [of _ "c1\<lparr>rwSem := rwSem c1 + 1\<rparr>"] exI [of _ "after_login (c1\<lparr>rwSem := rwSem c1\<rparr>)"]) (simp add: after_login_def)
qed

text \<open>
  C11. A login the server accepts is one for the client: the reply goes to the connection of the
  client, and when it fits the client's buffer and arrives in one piece the receiving thread takes
  over the user's id. Its friend list becomes that of the database, unless Redis has a cached one or
  the database has no friend: then it stays as it was. Its group list becomes that of the database
  unless there is no group, but every group is without members, since \<open>GroupModel::queryGroups\<close> drops
  those it reads. The offline messages are printed last and the main thread is released and enters the
  command menu. What the database and Redis hold is assumed to be UTF-8 and the offline messages to be
  messages the client can show.
\<close>

theorem login_end_to_end:
  assumes "same_json F E" and "int32 (user_id u)" and "utf8_ok (user_name u)"
    and "\<forall>f \<in> set (told_friends E conn i w). user_ok f" and "\<forall>g \<in> set (told_groups E conn i w). group_ok g"
    and "\<forall>t \<in> set (login_offline E conn i (rc w)). utf8_ok t" and "mapR (offline_line F) (login_offline E conn i (rc w)) = Inr ls"
    and "phase c = WaitLogin"
  shows "\<exists>reply. sent (login_success E conn i u w) = sent w @ [(conn, reply)] \<and>
    (length reply \<le> 1024 \<longrightarrow>
      (\<exists>c' c''. read_turn F (Some reply) c = Inr c' \<and> user_id (currentUser c') = user_id u \<and>
         map friend_view (currentUserFriendList c') =
           map friend_view (if told_friends E conn i w = [] then currentUserFriendList c else told_friends E conn i w) \<and>
         map group_view (currentUserGroupList c') =
           (if told_groups E conn i w = [] then map group_view (currentUserGroupList c)
            else map (\<lambda>g. (group_id g, group_name g, group_desc g, [])) (told_groups E conn i w)) \<and>
         (\<exists>before. screen c' = screen c @ before @ ls) \<and>
         client_step C c' c'' \<and> phase c'' = InMenu \<and> isMainMenuRunning c'' \<and> rwSem c'' = rwSem c))"
proof -
  obtain w1 w2 where reply: "sent (login_success E conn i u w) =
      sent w @ [(conn, c_dump E (login_json (user_id u) (user_name u) (login_offline E conn i (rc w))
        (fst (friend_texts E (told_friends E conn i w) w1)) (fst (group_texts E i (told_groups E conn i w) w2))))]"
    by (rule login_success_text)
  define ft gt where "ft = fst (friend_texts E (told_friends E conn i w) w1)" and "gt = fst (group_texts E i (told_groups E conn i w) w2)"
  let ?js = "login_json (user_id u) (user_name u) (login_offline E conn i (rc w)) ft gt"
  obtain us where us: "\<forall>t \<in> set ft. utf8_ok t" "mapR (friend_of_text F) ft = Inr us" "map friend_view us = map friend_view (told_friends E conn i w)"
    using friend_texts_read [OF assms(1,4), of w1] unfolding ft_def friend_view_def [abs_def] by blast
  obtain gs where gs: "\<forall>t \<in> set gt. utf8_ok t" "mapR (group_of_text F) gt = Inr gs" "map group_view gs = map group_view (told_groups E conn i w)"
    using group_texts_read [OF assms(1,5), of i w2] unfolding gt_def by blast
  have gv: "map group_view (told_groups E conn i w) = map (\<lambda>g. (group_id g, group_name g, group_desc g, [])) (told_groups E conn i w)"
    by (auto simp: group_view_def told_groups_def dest: queryGroups_memberless)
  have ne: "ft = [] \<longleftrightarrow> told_friends E conn i w = []" "gt = [] \<longleftrightarrow> told_groups E conn i w = []"
    using us(2,3) gs(2,3) mapR_length [of "friend_of_text F" ft us] mapR_length [of "group_of_text F" gt gs]
    using map_eq_imp_length_eq [OF us(3)] map_eq_imp_length_eq [OF gs(3)] by auto
  have s: "json_sendable ?js" using us(1) gs(1) assms(2,3,6) by (intro login_json_sendable) auto
  have d: "c_dump E ?js = json_text F ?js" using assms(1) by (simp add: same_json_def)
  have "\<exists>c' c''. read_turn F (Some (json_text F ?js)) c = Inr c' \<and> user_id (currentUser c') = user_id u \<and>
         map friend_view (currentUserFriendList c') =
           map friend_view (if told_friends E conn i w = [] then currentUserFriendList c else told_friends E conn i w) \<and>
         map group_view (currentUserGroupList c') =
           (if told_groups E conn i w = [] then map group_view (currentUserGroupList c)
            else map (\<lambda>g. (group_id g, group_name g, group_desc g, [])) (told_groups E conn i w)) \<and>
         (\<exists>before. screen c' = screen c @ before @ ls) \<and>
         client_step C c' c'' \<and> phase c'' = InMenu \<and> isMainMenuRunning c'' \<and> rwSem c'' = rwSem c" if l: "length (json_text F ?js) \<le> 1024"
  proof -
    obtain c' c'' where c: "read_turn F (Some (json_text F ?js)) c = Inr c'" "user_id (currentUser c') = user_id u"
      "currentUserFriendList c' = (if ft = [] then currentUserFriendList c else us)"
      "currentUserGroupList c' = (if gt = [] then currentUserGroupList c else gs)" "\<exists>before. screen c' = screen c @ before @ ls"
      "client_step C c' c''" "phase c'' = InMenu" "isMainMenuRunning c''" "rwSem c'' = rwSem c"
      using login_reply_read [OF s l assms(2,7) us(2) gs(2) assms(8), of C] by blast
    then show ?thesis using us(3) gs(3) gv ne by (intro exI [of _ c'] exI [of _ c'']) simp
  qed
  then show ?thesis using reply d unfolding ft_def [symmetric] gt_def [symmetric] by (intro exI [of _ "json_text F ?js"]) simp
qed

text \<open>Ann of the example installation has a friend and is in a group.\<close>

lemma ex_login_queries:
  "told_friends ex_wire 7 1 (ex_state [Some 0, Some 1]) = [User 2 ''bob'' [] ''offline'']"
  "told_groups ex_wire 7 1 (ex_state [Some 0, Some 1]) = [Group 5 ''club'' ''all of us'']"
  "\<forall>f \<in> set (told_friends ex_wire 7 1 (ex_state [Some 0, Some 1])). user_ok f"
  "\<forall>g \<in> set (told_groups ex_wire 7 1 (ex_state [Some 0, Some 1])). group_ok g"
  "login_offline ex_wire 7 1 (rc (ex_state [Some 0, Some 1])) = []"
  "\<forall>m \<in> set (sent (login_success ex_wire 7 1 (User 1 ''ann'' ''pa'' ''offline'') (ex_state [Some 0, Some 1]))). length (snd m) \<le> 1024"
  by code_simp+

theorem login_end_to_end_witness:
  "\<exists>reply c'. sent (login_success ex_wire 7 1 (User 1 ''ann'' ''pa'' ''offline'') (ex_state [Some 0, Some 1])) = [(7, reply)] \<and>
     read_turn ex_fp (Some reply) ((client_start [])\<lparr>phase := WaitLogin\<rparr>) = Inr c' \<and> user_id (currentUser c') = 1 \<and>
     map friend_view (currentUserFriendList c') = [(2, ''bob'')] \<and>
     map group_view (currentUserGroupList c') = [(5, ''club'', ''all of us'', [])]"
proof -
  let ?w = "ex_state [Some 0, Some 1]" and ?u = "User 1 ''ann'' ''pa'' ''offline''"
  let ?tf = "told_friends ex_wire 7 1 ?w" and ?tg = "told_groups ex_wire 7 1 ?w" and ?c = "(client_start [])\<lparr>phase := WaitLogin\<rparr>"
  have "same_json ex_fp ex_wire" "int32 (user_id ?u)" "utf8_ok (user_name ?u)"
    by (simp_all add: same_json_def ex_wire_def int32_def utf8_ok_all_ascii User_def)
  note end_to_end = login_end_to_end [OF this ex_login_queries(3,4), of "[]" ?c ex_client_env]
  have "\<forall>t \<in> set (login_offline ex_wire 7 1 (rc ?w)). utf8_ok t" "mapR (offline_line ex_fp) (login_offline ex_wire 7 1 (rc ?w)) = Inr []"
    "phase ?c = WaitLogin" by (simp_all add: ex_login_queries(5) del: One_nat_def)
  from end_to_end [OF this] obtain reply where r: "sent (login_success ex_wire 7 1 ?u ?w) = sent ?w @ [(7, reply)]"
    and read: "length reply \<le> 1024 \<Longrightarrow> \<exists>c'. read_turn ex_fp (Some reply) ?c = Inr c' \<and> user_id (currentUser c') = user_id ?u \<and>
      map friend_view (currentUserFriendList c') = map friend_view (if ?tf = [] then currentUserFriendList ?c else ?tf) \<and>
      map group_view (currentUserGroupList c') = (if ?tg = [] then map group_view (currentUserGroupList ?c)
        else map (\<lambda>g. (group_id g, group_name g, group_desc g, [])) ?tg)" by blast
  have "length reply \<le> 1024" using ex_login_queries(6) unfolding r by simp
  moreover have "sent ?w = []" "user_id ?u = 1" by (simp_all add: ex_state_def User_def)
  moreover have "map friend_view (if ?tf = [] then currentUserFriendList ?c else ?tf) = [(2, ''bob'')]"
    by (simp add: ex_login_queries(1) friend_view_def User_def del: One_nat_def)
  moreover have "(if ?tg = [] then map group_view (currentUserGroupList ?c)
      else map (\<lambda>g. (group_id g, group_name g, group_desc g, [])) ?tg) = [(5, ''club'', ''all of us'', [])]"
    by (simp add: ex_login_queries(2) Group_def del: One_nat_def)
  ultimately show ?thesis using read r by (intro exI [of _ reply]) (auto simp del: One_nat_def)
qed

subsection \<open>A group message across nodes\<close>

definition group_json :: "int \<Rightarrow> string \<Rightarrow> int \<Rightarrow> string \<Rightarrow> string \<Rightarrow> json" where
  "group_json i n g m tm =
     json_obj [(''msgid'', JInt GROUP_CHAT_MSG), (''id'', JInt i), (''name'', JStr n), (''groupid'', JInt g),
       (''msg'', JStr m), (''time'', JStr tm)]"

lemma group_json_get:
  "json_get ''msgid'' (group_json i n g m tm) = Some (JInt GROUP_CHAT_MSG)" "json_get ''id'' (group_json i n g m tm) = Some (JInt i)"
  "json_get ''name'' (group_json i n g m tm) = Some (JStr n)" "json_get ''groupid'' (group_json i n g m tm) = Some (JInt g)"
  "json_get ''msg'' (group_json i n g m tm) = Some (JStr m)" "json_get ''time'' (group_json i n g m tm) = Some (JStr tm)"
  "json_get ''to'' (group_json i n g m tm) = None"
  by (simp_all add: group_json_def json_get_json_obj)

lemma group_json_sendable:
  assumes "int32 i" and "int32 g" and "utf8_ok n" and "utf8_ok m" and "utf8_ok tm"
  shows "json_sendable (group_json i n g m tm)"
  unfolding json_sendable_def group_json_def
  using assms by (intro conjI json_obj_props; simp add: int32_json del: json_typed.simps(1))

lemma group_line_received:
  "group_line F (json_norm (group_json i n g m tm)) =
     Inr (utf8 [231, 190, 164, 230, 182, 136, 230, 129, 175] @ ''['' @ to_string g @ '']:'' @ tm @ '' ['' @ to_string i @ '']'' @ n @ '' said: '' @ m)"
proof -
  let ?js = "json_norm (group_json i n g m tm)"
  have "shown F ''id'' ?js = Inr (to_string i, ?js)" "shown F ''groupid'' ?js = Inr (to_string g, ?js)"
    by (rule shown_present [of _ _ "json_norm (JInt i)"] shown_present [of _ _ "json_norm (JInt g)"];
        simp add: group_json_get json_dump_norm del: json_norm.simps)+
  then show ?thesis
    by (simp add: group_line_def chat_line_def json_lib.received_string group_json_get)
qed

text \<open>The server ends the copies it passes on with a newline, which the parser skips.\<close>

lemma recv_parse_newline:
  assumes "json_sendable js" and "length (json_text F js) < 1024"
  shows "json_parse F (recv_buffer (json_text F js @ [CHR 0x0A])) = Some (json_norm js)"
proof -
  let ?t = "json_text F js"
  define z where "z = replicate (1023 - length ?t) (CHR 0x00)"
  have n: "1024 - length ?t = Suc (1023 - length ?t)" using assms(2) by simp
  have "recv_buffer (?t @ [CHR 0x0A]) = ?t @ take (1024 - length ?t) (CHR 0x0A # replicate 1024 (CHR 0x00))"
    using assms(2) by (simp add: recv_buffer_def)
  also have "\<dots> = ?t @ CHR 0x0A # z" unfolding n by (simp add: z_def min_def)
  finally have z: "recv_buffer (?t @ [CHR 0x0A]) = ?t @ CHR 0x0A # z" .
  have "z = [] \<or> z = CHR 0x00 # tl z" unfolding z_def by (cases "1023 - length ?t") simp_all
  then have "scan F (CHR 0x0A # z) = (TEnd, tl z)"
  proof
    assume "z = CHR 0x00 # tl z"
    then obtain y where "z = CHR 0x00 # y" by blast
    then show ?thesis by (simp add: scan_def is_space_def is_digit_def)
  qed (simp add: scan_def is_space_def)
  then have "tokens F (CHR 0x0A # z) = [TEnd]" by (subst tokens.simps) simp
  moreover have "number_ends (CHR 0x0A # z)" by (simp add: number_ends_def is_digit_def)
  ultimately show ?thesis
    using json_parse_dumped [OF json_dump_text [of js F], of "CHR 0x0A # z"] assms(1) z by (simp add: json_sendable_def)
qed

lemma read_turn_group:
  assumes "json_sendable (group_json i n g m tm)" and "length (json_text F (group_json i n g m tm)) < 1024"
  shows "read_turn F (Some (json_text F (group_json i n g m tm) @ [CHR 0x0A])) c =
    Inr (print_line (utf8 [231, 190, 164, 230, 182, 136, 230, 129, 175] @ ''['' @ to_string g @ '']:'' @ tm @ '' ['' @ to_string i @ '']'' @ n @ '' said: '' @ m) c)"
  using recv_parse_newline [OF assms] group_line_received [of F i n g m tm]
    json_lib.received_int [OF group_json_get(1) int32_get, of i n g m tm]
  by (simp add: read_turn_def parseR_def int32_def msg_defs)

lemma typed_groupChat:
  assumes "good (cin a)" and "unread (cin a) = ''groupChat'' @ CHR 0x3A # (group_text @ CHR 0x3A # m) @ CHR 0x0A # r"
    and "CHR 0x3A \<notin> set group_text" and "set (group_text @ m) \<inter> {CHR 0x0A, CHR 0x00} = {}" and "length (group_text @ m) < 1013"
    and "m \<noteq> []" and "\<And>buf d. ce_send A buf d = int (length buf)"
    and "json_sendable (group_json (user_id (currentUser a)) (user_name (currentUser a)) (atoi group_text) m
            (getCurrentTime (ce_now A (a\<lparr>cin := (cin a)\<lparr>unread := r\<rparr>\<rparr>))))"
  shows "\<exists>a'. mainmenu_turn A a = Inr a' \<and>
    outbox a' = outbox a @ [json_text (ce_fp A) (group_json (user_id (currentUser a)) (user_name (currentUser a)) (atoi group_text) m
            (getCurrentTime (ce_now A (a\<lparr>cin := (cin a)\<lparr>unread := r\<rparr>\<rparr>))))]"
proof -
  let ?a = "a\<lparr>cin := (cin a)\<lparr>unread := r\<rparr>\<rparr>"
  have "mainmenu_turn A a = client_groupChat A (group_text @ CHR 0x3A # m) ?a"
    using assms(4,5) by (intro mainmenu_command [OF assms(1,2)]) (auto simp: commandHandlerMap_def)
  also have "\<dots> = send_command A (group_json (user_id (currentUser a)) (user_name (currentUser a)) (atoi group_text) m
      (getCurrentTime (ce_now A ?a))) ''groupChat msg error!!'' ?a"
    using assms(6) by (simp add: client_groupChat_def split_colon_append [OF assms(3)] group_json_def)
  finally show ?thesis
    using send_command_text [OF _ assms(7), of _ "''groupChat msg error!!''" ?a] assms(8) by (simp add: json_sendable_def)
qed

text \<open>
  C17. A group message from keyboard to screen over two server nodes: the user types
  \<open>groupChat:<id>:<text>\<close>, the node of the sender publishes the text once on the channel of the
  group and sends nothing itself; a node that receives it gives every connected local member one
  copy ended by a newline; and a client that gets the copy in one piece and with room in its buffer
  prints the group, the time, the sender and exactly the text that was typed.
\<close>

theorem group_chat_end_to_end:
  assumes "same_json (ce_fp A) E" and "same_json (ce_fp A) E2" and "redis_reliable (r_exec (c_redis E)) rv" and "rready (rc w)"
    and "map_of (groupMembers w2) (atoi group_text) = Some uids"
    and "good (cin a)" and "unread (cin a) = ''groupChat'' @ CHR 0x3A # (group_text @ CHR 0x3A # m) @ CHR 0x0A # r"
    and "CHR 0x3A \<notin> set group_text" and "set (group_text @ m) \<inter> {CHR 0x0A, CHR 0x00} = {}" and "length (group_text @ m) < 1013"
    and "m \<noteq> []" and "utf8_ok m" and "utf8_ok (user_name (currentUser a))" and "int32 (user_id (currentUser a))"
    and "\<And>buf d. ce_send A buf d = int (length buf)"
  shows "\<exists>a' buf now w' w2'. mainmenu_turn A a = Inr a' \<and> outbox a' = outbox a @ [buf] \<and>
    onMessage E conn buf w = Some w' \<and> sent w' = sent w \<and>
    published (rv (rd (rc w'))) = published (rv (rd (rc w))) @ [(group_channel (atoi group_text), buf)] \<and>
    on_message E2 buf w2 = Some w2' \<and>
    sent w2' = sent w2 @ map (\<lambda>c. (c, buf @ [CHR 0x0A])) (List.map_filter (map_of (userConnMap w2)) uids) \<and>
    (length buf < 1024 \<longrightarrow> read_turn (ce_fp A) (Some (buf @ [CHR 0x0A])) b =
      Inr (print_line (utf8 [231, 190, 164, 230, 182, 136, 230, 129, 175] @ ''['' @ to_string (atoi group_text) @ '']:'' @
        getCurrentTime now @ '' ['' @ to_string (user_id (currentUser a)) @ '']'' @ user_name (currentUser a) @ '' said: '' @ m) b))"
proof -
  let ?i = "user_id (currentUser a)" and ?g = "atoi group_text" and ?F = "ce_fp A"
  define now where "now = ce_now A (a\<lparr>cin := (cin a)\<lparr>unread := r\<rparr>\<rparr>)"
  define js where "js = group_json ?i (user_name (currentUser a)) ?g m (getCurrentTime now)"
  have js: "json_sendable js"
    unfolding js_def using assms(12-14) by (simp add: group_json_sendable atoi_int32 getCurrentTime_utf8)
  obtain a' where a': "mainmenu_turn A a = Inr a'" "outbox a' = outbox a @ [json_text ?F js]"
    using typed_groupChat [OF assms(6-11,15)] js unfolding js_def now_def by blast
  have g: "json_get ''msg'' (json_norm js) = Some (JStr m)" "json_get ''id'' (json_norm js) = Some (json_norm (JInt ?i))"
    "json_get ''groupid'' (json_norm js) = Some (json_norm (JInt ?g))" "json_get ''to'' (json_norm js) = None"
    "get_int (json_norm (JInt ?i)) = Inr ?i" "get_int (json_norm (JInt ?g)) = Inr ?g"
    and d: "c_dump E (json_norm js) = json_text ?F js" "c_dump E2 (json_norm js) = json_text ?F js"
    using assms(1,2) by (simp_all add: js_def group_json_get int32_get [OF assms(14)] int32_get [OF atoi_int32] same_json_def json_text_norm
        del: get_int.simps json_norm.simps(1))
  have "rready (rc (load_members E ?i ?g w))" using assms(4) by (simp add: rready_def load_members_rest)
  from redis_reliable.publishGroupMessage_ok [OF assms(3) refl this, of "?g" "json_text ?F js"]
  obtain w' where w': "groupChat E conn (json_norm js) w = (Inr (), w')" "sent w' = sent w"
    "published (rv (rd (rc w'))) = published (rv (rd (rc w))) @ [(group_channel ?g, json_text ?F js)]"
    by (simp add: groupChat_fields [OF g(1) assms(11) g(2,5,3,6)] load_members_rest d)
  have "onMessage E conn (json_text ?F js) w = Some w'"
    using onMessage_text [OF assms(1) js, of "JInt GROUP_CHAT_MSG" GROUP_CHAT_MSG H_groupChat] w'(1)
    by (simp add: js_def group_json_get msg_defs to_int32_def getHandler_def msgHandlerMap_def)
  moreover have "on_message E2 (json_text ?F js) w2 =
      Some (w2\<lparr>sent := sent w2 @ map (\<lambda>c. (c, json_text ?F js @ [CHR 0x0A])) (List.map_filter (map_of (userConnMap w2)) uids)\<rparr>)"
    using json_lib.parse_print [OF js, of ?F] inbox_group [OF g(4,3,6), of E2 w2] assms(2,5)
    by (simp add: on_message_def same_json_def group_copies_def json_text_norm)
  moreover note read_turn_group [OF js [unfolded js_def], of ?F b, folded js_def]
  ultimately show ?thesis
    using a' w' by (intro exI [of _ a'] exI [of _ "json_text ?F js"] exI [of _ now] exI [of _ w'] exI) auto
qed


theorem group_chat_end_to_end_witness:
  "\<exists>a' buf w' w2'. mainmenu_turn ex_client_env (ex_ann (''groupChat:5:hi'' @ [CHR 0x0A])) = Inr a' \<and> outbox a' = [buf] \<and>
     onMessage ex_wire 7 buf (ex_state [Some 0, Some 1]) = Some w' \<and>
     published (rd (rc w')) = [(group_channel 5, buf)] \<and>
     on_message ex_wire buf ((ex_state [])\<lparr>userConnMap := [(2, 8)], groupMembers := [(5, [1, 2])]\<rparr>) = Some w2' \<and>
     sent w2' = [(8, buf @ [CHR 0x0A])]"
proof -
  let ?w2 = "(ex_state [])\<lparr>userConnMap := [(2, 8)], groupMembers := [(5, [1, 2])]\<rparr>"
  have j: "same_json (ce_fp ex_client_env) ex_wire" by (simp add: same_json_def ex_client_env_def ex_wire_def)
  have r: "redis_reliable (r_exec (c_redis ex_wire)) (\<lambda>ks. ks)" using ex_env_redis by (simp add: ex_wire_def)
  have a: "atoi ''5'' = 5" by code_simp
  have "published (rd (rc (ex_state [Some 0, Some 1]))) = []" "sent ?w2 = []"
    "List.map_filter (map_of (userConnMap ?w2)) [1, 2] = [8]" by (simp_all add: ex_defs List.map_filter_def)
  then show ?thesis
    using group_chat_end_to_end [OF j j r ex_rready [of "[Some 0, Some 1]"], of ?w2 "''5''" "[1, 2]" "ex_ann (''groupChat:5:hi'' @ [CHR 0x0A])" "''hi''" "[]", OF _ _ _ _ _ _ _ _ _ _ ex_send, of 7]
    by (simp add: a User_default_def utf8_ok_all_ascii int32_def User_def) blast
qed

end
