(* ===== verification/Message_Fields.thy ===== *)
theory Message_Fields
  imports Conversation
begin

section \<open>The fields of a message\<close>

text \<open>
  What the server does with a received buffer whose fields are not what the handler needs, and with
  numbers outside the range of \<open>int\<close>. The handlers read all their fields before they act.
\<close>

subsection \<open>Fields that can be read\<close>

definition int_field :: "string \<Rightarrow> json \<Rightarrow> bool" where
  "int_field k js \<longleftrightarrow> (\<exists>v i. json_get k js = Some v \<and> get_int v = Inr i)"

definition string_field :: "string \<Rightarrow> json \<Rightarrow> bool" where
  "string_field k js \<longleftrightarrow> (\<exists>s. json_get k js = Some (JStr s))"

definition text_field :: "string \<Rightarrow> json \<Rightarrow> bool" where
  "text_field k js \<longleftrightarrow> (\<exists>s. json_get k js = Some (JStr s) \<and> s \<noteq> [])"

text \<open>
  The fields a handler needs. \<open>oneChat\<close> looks for \<open>id\<close> and \<open>to\<close> and answers when one is missing;
  a value that is not a number in them raises, as in the other handlers.
\<close>

fun readable :: "handler \<Rightarrow> json \<Rightarrow> bool" where
  "readable H_login js \<longleftrightarrow> int_field ''id'' js \<and> string_field ''password'' js"
| "readable H_loginOut js \<longleftrightarrow> int_field ''id'' js"
| "readable H_reg js \<longleftrightarrow> string_field ''name'' js \<and> string_field ''password'' js"
| "readable H_oneChat js \<longleftrightarrow> text_field ''msg'' js \<and>
     (json_contains ''id'' js \<and> json_contains ''to'' js \<longrightarrow> int_field ''id'' js \<and> int_field ''to'' js)"
| "readable H_addFriend js \<longleftrightarrow> int_field ''id'' js \<and> int_field ''friendid'' js"
| "readable H_createGroup js \<longleftrightarrow> int_field ''id'' js \<and> string_field ''groupname'' js \<and> string_field ''groupdesc'' js"
| "readable H_joinGroup js \<longleftrightarrow> int_field ''id'' js \<and> int_field ''groupid'' js"
| "readable H_groupChat js \<longleftrightarrow> text_field ''msg'' js \<and> int_field ''id'' js \<and> int_field ''groupid'' js"

text \<open>A buffer that reaches a handler with the fields it needs.\<close>

definition accepted :: "('db, 'rd) chat_env \<Rightarrow> string \<Rightarrow> bool" where
  "accepted E buf \<longleftrightarrow>
     (\<exists>js v i h. c_parse E buf = Some js \<and> json_get ''msgid'' js = Some v \<and> get_int v = Inr i \<and>
        getHandler i = Some h \<and> readable h js)"

lemma int_field_cases:
  obtains (present) v i where "int_field k js" "json_get k js = Some v" "get_int v = Inr i" "field_int k js = Inr (i, js)"
  | (unreadable) e where "\<not> int_field k js" "field_int k js = Inl e"
proof (cases "field_int k js")
  case (Inl e)
  then have "\<not> int_field k js" using field_int_present [of k js] by (fastforce simp: int_field_def)
  with Inl show thesis by (rule unreadable [rotated])
next
  case (Inr p)
  then obtain i j where f: "field_int k js = Inr (i, j)" by (cases p) simp
  from field_int_InrD [OF f] f present show thesis by (auto simp: int_field_def)
qed

lemma string_field_cases:
  obtains (present) s where "string_field k js" "json_get k js = Some (JStr s)" "field_string k js = Inr (s, js)"
  | (unreadable) e where "\<not> string_field k js" "field_string k js = Inl e"
proof (cases "json_get k js")
  case None
  with field_string_missing [OF None] unreadable show thesis by (auto simp: string_field_def)
next
  case (Some v)
  show thesis
  proof (cases "get_string v")
    case (Inl e)
    then have "\<forall>s. v \<noteq> JStr s" by auto
    with Inl Some unreadable show thesis by (auto simp: string_field_def field_string_def json_index_present)
  next
    case (Inr s)
    then have "v = JStr s" by (auto elim: get_string_InrE)
    with Some present show thesis by (auto simp: string_field_def field_string_present)
  qed
qed

lemma empty_msg_cases:
  obtains (filled) s where "text_field ''msg'' js" "json_get ''msg'' js = Some (JStr s)" "empty_msg js = Inr (False, js)"
  | (dropped) j where "\<not> text_field ''msg'' js" "empty_msg js = Inr (True, j)"
  | (unreadable) e where "\<not> text_field ''msg'' js" "empty_msg js = Inl e"
proof (cases "json_get ''msg'' js")
  case None
  with json_index_missing [OF None] dropped unreadable show thesis
    by (auto simp: empty_msg_def text_field_def json_is_null_def)
next
  case (Some v)
  then have i: "json_index ''msg'' js = Inr (v, js)" by (rule json_index_present)
  show thesis
  proof (cases "get_string v")
    case (Inl e)
    then have "\<forall>s. v \<noteq> JStr s" by auto
    with Inl Some i dropped unreadable show thesis by (cases "v = JNull") (auto simp: empty_msg_def text_field_def json_is_null_def)
  next
    case (Inr s)
    then have "v = JStr s" by (auto elim: get_string_InrE)
    with Some i filled dropped show thesis by (cases "s = []") (auto simp: empty_msg_def text_field_def json_is_null_def)
  qed
qed

lemma unreadable_message:
  assumes "\<not> readable h js"
  shows "\<exists>r. run_handler E h conn js w = Some (r, w)"
proof (cases h)
  case H_login
  with assms show ?thesis
    by (cases rule: int_field_cases [of "''id''" js]; cases rule: string_field_cases [of "''password''" js]) (simp_all add: login_def)
next
  case H_loginOut
  with assms show ?thesis by (cases rule: int_field_cases [of "''id''" js]) (simp_all add: loginOut_def)
next
  case H_reg
  with assms show ?thesis
    by (cases rule: string_field_cases [of "''name''" js]; cases rule: string_field_cases [of "''password''" js]) (simp_all add: reg_def)
next
  case H_oneChat
  show ?thesis
  proof (cases rule: empty_msg_cases [of js])
    case filled
    with assms H_oneChat show ?thesis
      by (cases rule: int_field_cases [of "''id''" js]; cases rule: int_field_cases [of "''to''" js]) (simp_all add: oneChat_def)
  qed (simp_all add: H_oneChat oneChat_def)
next
  case H_addFriend
  with assms show ?thesis
    by (cases rule: int_field_cases [of "''id''" js]; cases rule: int_field_cases [of "''friendid''" js]) (simp_all add: addFriend_def)
next
  case H_createGroup
  with assms show ?thesis
    by (cases rule: int_field_cases [of "''id''" js]; cases rule: string_field_cases [of "''groupname''" js];
        cases rule: string_field_cases [of "''groupdesc''" js]) (simp_all add: createGroup_def)
next
  case H_joinGroup
  with assms show ?thesis
    by (cases rule: int_field_cases [of "''id''" js]; cases rule: int_field_cases [of "''groupid''" js]) (simp_all add: joinGroup_def)
next
  case H_groupChat
  show ?thesis
  proof (cases rule: empty_msg_cases [of js])
    case filled
    with assms H_groupChat show ?thesis
      by (cases rule: int_field_cases [of "''id''" js]; cases rule: int_field_cases [of "''groupid''" js]) (simp_all add: groupChat_def)
  qed (simp_all add: H_groupChat groupChat_def)
qed

text \<open>
  C39. A received buffer is ignored completely, nothing is sent, stored, published or remembered, when it
  is not JSON, when its \<open>msgid\<close> is missing, cannot be converted to a number (a boolean can) or names no
  handler, or when one of the fields the handler needs is missing or of another type, whichever it is:
  the handlers act only after they have read everything. The one exception is a private message with a
  text but without \<open>id\<close> or without \<open>to\<close>: its sender gets an error acknowledgement, and nothing else
  changes.
\<close>

theorem malformed_message_ignored:
  "(\<not> accepted E buf \<longrightarrow> onMessage E conn buf w = Some w) \<and>
   (c_parse E buf = Some js \<and> json_get ''msgid'' js = Some v \<and> get_int v = Inr ONE_CHAT_MSG \<and> text_field ''msg'' js \<and>
      \<not> (json_contains ''id'' js \<and> json_contains ''to'' js) \<longrightarrow>
    onMessage E conn buf w = Some (send conn (ack E 1 ''errormsg'' ''Missing required fields'') w))"
proof (intro conjI impI)
  assume a: "\<not> accepted E buf"
  show "onMessage E conn buf w = Some w"
  proof (cases "c_parse E buf")
    case (Some js)
    show ?thesis
    proof (cases rule: int_field_cases [of "''msgid''" js])
      case (present v i)
      show ?thesis
      proof (cases "getHandler i")
        case (Some h)
        with a \<open>c_parse E buf = Some js\<close> present have "\<not> readable h js" unfolding accepted_def by blast
        from unreadable_message [OF this, of E conn w] obtain r where "run_handler E h conn js w = Some (r, w)" by blast
        with present Some \<open>c_parse E buf = Some js\<close> show ?thesis by (simp add: onMessage_def)
      qed (simp add: onMessage_def present \<open>c_parse E buf = Some js\<close>)
    qed (simp add: onMessage_def Some)
  qed (simp add: onMessage_def)
next
  assume a: "c_parse E buf = Some js \<and> json_get ''msgid'' js = Some v \<and> get_int v = Inr ONE_CHAT_MSG \<and> text_field ''msg'' js \<and>
      \<not> (json_contains ''id'' js \<and> json_contains ''to'' js)"
  then have "field_int ''msgid'' js = Inr (ONE_CHAT_MSG, js)" by (blast intro: field_int_present)
  moreover have "empty_msg js = Inr (False, js)" using a by (cases rule: empty_msg_cases [of js]) simp_all
  ultimately show "onMessage E conn buf w = Some (send conn (ack E 1 ''errormsg'' ''Missing required fields'') w)"
    using a by (auto simp: onMessage_def oneChat_def)
qed

text \<open>A login without a password and a private message without a receiver.\<close>

theorem malformed_message_ignored_witness:
  "onMessage ex_wire 7 (json_text ex_fp (json_obj [(''msgid'', JInt 1), (''id'', JInt 1)])) (ex_state []) = Some (ex_state []) \<and>
   onMessage ex_wire 7 (json_text ex_fp (json_obj [(''msgid'', JInt 6), (''id'', JInt 1), (''msg'', JStr ''hi'')])) (ex_state []) =
     Some (send 7 (ack ex_wire 1 ''errormsg'' ''Missing required fields'') (ex_state []))"
proof -
  let ?b1 = "json_text ex_fp (json_obj [(''msgid'', JInt 1), (''id'', JInt 1)])"
  let ?b2 = "json_text ex_fp (json_obj [(''msgid'', JInt 6), (''id'', JInt 1), (''msg'', JStr ''hi'')])"
  have p: "c_parse ex_wire ?b1 = Some (JObj [(''id'', JUint 1), (''msgid'', JUint 1)])"
    "c_parse ex_wire ?b2 = Some (JObj [(''id'', JUint 1), (''msg'', JStr ''hi''), (''msgid'', JUint 6)])" by code_simp+
  have "\<not> accepted ex_wire ?b1"
    by (auto simp: accepted_def p(1) json_get_def to_int32_def getHandler_def msgHandlerMap_def msg_defs string_field_def)
  then show ?thesis
    using malformed_message_ignored [of ex_wire ?b1 7 "ex_state []"]
      malformed_message_ignored [of ex_wire ?b2 7 "ex_state []" "JObj [(''id'', JUint 1), (''msg'', JStr ''hi''), (''msgid'', JUint 6)]" "JUint 6"]
    by (simp add: p(2) json_get_def json_contains_def to_int32_def msg_defs text_field_def)
qed

subsection \<open>Numbers outside the range of int\<close>

text \<open>Two messages whose fields read the same, and what the handlers that forward nothing make of them.\<close>

definition same_fields :: "json \<Rightarrow> json \<Rightarrow> bool" where
  "same_fields js js' \<longleftrightarrow>
     (\<forall>k. (\<forall>i. field_int k js = Inr (i, js) \<longleftrightarrow> field_int k js' = Inr (i, js')) \<and>
          (\<forall>s. field_string k js = Inr (s, js) \<longleftrightarrow> field_string k js' = Inr (s, js')))"

lemma same_fields_int:
  assumes "same_fields js js'"
  obtains (present) i where "field_int k js = Inr (i, js)" "field_int k js' = Inr (i, js')"
  | (unreadable) e e' where "field_int k js = Inl e" "field_int k js' = Inl e'"
proof (cases rule: int_field_cases [of k js])
  case (present v i)
  with assms that(1) show thesis by (auto simp: same_fields_def)
next
  case (unreadable e)
  show thesis
  proof (cases rule: int_field_cases [of k js'])
    case (present v i)
    with assms unreadable show thesis unfolding same_fields_def by (metis sum.distinct(1))
  qed (use unreadable that(2) in blast)
qed

lemma same_fields_string:
  assumes "same_fields js js'"
  obtains (present) s where "field_string k js = Inr (s, js)" "field_string k js' = Inr (s, js')"
  | (unreadable) e e' where "field_string k js = Inl e" "field_string k js' = Inl e'"
proof (cases rule: string_field_cases [of k js])
  case (present s)
  with assms that(1) show thesis by (auto simp: same_fields_def)
next
  case (unreadable e)
  show thesis
  proof (cases rule: string_field_cases [of k js'])
    case (present s)
    with assms unreadable show thesis unfolding same_fields_def by (metis sum.distinct(1))
  qed (use unreadable that(2) in blast)
qed

lemma same_fields_handled:
  assumes "same_fields js js'" and "h \<noteq> H_oneChat" and "h \<noteq> H_groupChat"
  shows "map_option snd (run_handler E h conn js w) = map_option snd (run_handler E h conn js' w)"
proof (cases h)
  case H_login
  then show ?thesis
    by (cases rule: same_fields_int [OF assms(1), of "''id''"]; cases rule: same_fields_string [OF assms(1), of "''password''"])
      (simp_all add: login_def)
next
  case H_loginOut
  then show ?thesis by (cases rule: same_fields_int [OF assms(1), of "''id''"]) (simp_all add: loginOut_def)
next
  case H_reg
  then show ?thesis
    by (cases rule: same_fields_string [OF assms(1), of "''name''"]; cases rule: same_fields_string [OF assms(1), of "''password''"])
      (simp_all add: reg_def)
next
  case H_addFriend
  then show ?thesis
    by (cases rule: same_fields_int [OF assms(1), of "''id''"]; cases rule: same_fields_int [OF assms(1), of "''friendid''"])
      (simp_all add: addFriend_def)
next
  case H_createGroup
  then show ?thesis
    by (cases rule: same_fields_int [OF assms(1), of "''id''"]; cases rule: same_fields_string [OF assms(1), of "''groupname''"];
        cases rule: same_fields_string [OF assms(1), of "''groupdesc''"]) (simp_all add: createGroup_def)
next
  case H_joinGroup
  then show ?thesis
    by (cases rule: same_fields_int [OF assms(1), of "''id''"]; cases rule: same_fields_int [OF assms(1), of "''groupid''"])
      (simp_all add: joinGroup_def)
qed (use assms(2,3) in simp_all)

text \<open>One number exchanged for another that is converted to the same \<open>int\<close>.\<close>

lemma same_fields_number:
  assumes "json_get k js = Some v" and "json_get k js' = Some v'" and "get_int v = get_int v'" and "\<And>s. v \<noteq> JStr s" and "\<And>s. v' \<noteq> JStr s"
    and "\<And>k'. k' \<noteq> k \<Longrightarrow> json_get k' js = json_get k' js'"
  shows "same_fields js js'"
proof -
  have i: "field_int l a = Inr (x, a) \<longleftrightarrow> (\<exists>u. json_get l a = Some u \<and> get_int u = Inr x)" for l a x
    using field_int_InrD [of l a x a] field_int_present [of l a _ x] by blast
  have t: "field_string l a = Inr (x, a) \<longleftrightarrow> json_get l a = Some (JStr x)" for l a x
    by (cases rule: string_field_cases [of l a]) (auto simp: string_field_def)
  have "(\<exists>u. json_get l js = Some u \<and> get_int u = Inr x) \<longleftrightarrow> (\<exists>u. json_get l js' = Some u \<and> get_int u = Inr x)" for l x
    using assms by (cases "l = k") auto
  moreover have "json_get l js = Some (JStr x) \<longleftrightarrow> json_get l js' = Some (JStr x)" for l x
    using assms by (cases "l = k") auto
  ultimately show ?thesis unfolding same_fields_def i t by blast
qed

text \<open>
  C40. A number in a message is read as an \<open>int\<close>. Whatever integer of 64 bits a sender writes into a
  field, the identifier of a user, of a friend or of a group or even the \<open>msgid\<close>, the server does exactly
  what it does for the number reduced into the range of 32 bits, in every handler but the two that pass
  the text on; so a number outside that range silently stands for another user or group, the one whose
  identifier differs from it by a multiple of \<open>2 ^ 32\<close>.
\<close>

theorem int_field_wraps:
  assumes "same_json F E" and "json_sendable (JObj kvs)" and "map_of kvs k = Some (JInt n)"
    and "map_of kvs ''msgid'' = Some v" and "get_int v = Inr m" and "m \<noteq> ONE_CHAT_MSG" and "m \<noteq> GROUP_CHAT_MSG"
  shows "\<exists>i. onMessage E conn (json_text F (JObj kvs)) w = onMessage E conn (json_text F (JObj (obj_set k (JInt i) kvs))) w \<and>
    - (2 ^ 31) \<le> i \<and> i < 2 ^ 31 \<and> (i - n) mod 2 ^ 32 = 0 \<and> (i = n \<longleftrightarrow> - (2 ^ 31) \<le> n \<and> n < 2 ^ 31)"
proof -
  let ?js = "JObj kvs" and ?js' = "JObj (obj_set k (JInt (to_int32 n)) kvs)"
  have ty: "json_typed ?js" "json_no_float ?js" using assms(2) by (simp_all add: json_sendable_def del: json_typed.simps json_no_float.simps)
  have "json_typed (JInt (to_int32 n))" using to_int32_range [of n] by (intro int32_typed) simp_all
  moreover have "utf8_ok k" using ty(1) assms(3) by (auto dest!: map_of_SomeD)
  ultimately have "json_typed ?js'" using ty(1) by (intro obj_set_typed)
  moreover have "json_no_float ?js'" using ty(2) by (auto dest!: set_obj_set)
  ultimately have s: "json_sendable ?js'" by (simp add: json_sendable_def del: json_typed.simps json_no_float.simps)
  have w: "get_int (JInt (to_int32 n)) = get_int (JInt n)"
    using to_int32_range [of n] by (simp add: to_int32_id)
  have g: "json_get l ?js = map_of kvs l" "json_get l ?js' = ((map_of kvs)(k \<mapsto> JInt (to_int32 n))) l" for l
    by (simp_all add: json_get_def)
  have same: "same_fields (json_norm ?js) (json_norm ?js')"
    by (rule same_fields_number [of k _ "json_norm (JInt n)" _ "json_norm (JInt (to_int32 n))"])
      (use assms(3) w in \<open>simp_all add: g del: json_norm.simps get_int.simps\<close>, auto split: if_splits)
  have "field_int ''msgid'' (json_norm ?js) = Inr (m, json_norm ?js)"
    using assms(4,5) by (intro json_lib.received_int [of _ _ v]) (simp_all add: json_get_def)
  moreover from this same have "field_int ''msgid'' (json_norm ?js') = Inr (m, json_norm ?js')" unfolding same_fields_def by blast
  moreover have "h \<noteq> H_oneChat \<and> h \<noteq> H_groupChat" if "getHandler m = Some h" for h
    using that assms(6,7) by (auto simp: getHandler_def msgHandlerMap_def split: if_splits)
  ultimately have "onMessage E conn (json_text F ?js) w = onMessage E conn (json_text F ?js') w"
    using json_lib.parse_print [OF assms(2), of F] json_lib.parse_print [OF s, of F] assms(1) same_fields_handled [OF same, of _ E conn w]
    by (cases "getHandler m") (simp_all add: onMessage_def same_json_def del: json_norm.simps)
  moreover have "to_int32 n = n \<longleftrightarrow> - (2 ^ 31) \<le> n \<and> n < 2 ^ 31"
    using to_int32_range [of n] to_int32_id [of n] by metis
  ultimately show ?thesis
    using to_int32_range [of n] to_int32_cong [of n] by (intro exI [of _ "to_int32 n"]) (intro conjI; simp only:)
qed

text \<open>A log-out of user 4294967297 logs user 1 out.\<close>

theorem int_field_wraps_witness:
  "map_option userConnMap (onMessage ex_wire 9 (json_text ex_fp (JObj [(''id'', JInt 4294967297), (''msgid'', JInt 3)]))
     ((ex_state [])\<lparr>userConnMap := [(1, 7), (2, 8)]\<rparr>)) = Some [(2, 8)]"
proof -
  let ?kvs = "[(''id'', JInt 4294967297), (''msgid'', JInt 3)]" and ?w = "(ex_state [])\<lparr>userConnMap := [(1, 7), (2, 8)]\<rparr>"
  have j: "same_json ex_fp ex_wire" by (simp add: same_json_def ex_wire_def)
  have s: "json_sendable (JObj ?kvs)" by code_simp
  have k: "map_of ?kvs ''id'' = Some (JInt 4294967297)" "map_of ?kvs ''msgid'' = Some (JInt 3)" "get_int (JInt 3) = Inr 3"
    "(3::int) \<noteq> ONE_CHAT_MSG" "(3::int) \<noteq> GROUP_CHAT_MSG" by (simp_all add: to_int32_def msg_defs)
  obtain i where i: "onMessage ex_wire 9 (json_text ex_fp (JObj ?kvs)) ?w = onMessage ex_wire 9 (json_text ex_fp (JObj (obj_set ''id'' (JInt i) ?kvs))) ?w"
    "- (2 ^ 31) \<le> i" "i < 2 ^ 31" "(i - 4294967297) mod 2 ^ 32 = 0"
    using int_field_wraps [OF j s k, of 9 ?w] by (elim exE conjE) (rule that)
  obtain q where "i - 4294967297 = 2 ^ 32 * q" using i(4) by (metis dvdE mod_eq_0_iff_dvd)
  then have q: "i = 4294967297 + 4294967296 * q" by simp
  have b: "- 2147483648 \<le> i" "i < 2147483648" using i(2,3) by simp_all
  with q have "q < 0" "- 2 < q" by linarith+
  then have "q = - 1" by simp
  with q have one: "i = 1" by simp
  have p: "c_parse ex_wire (json_text ex_fp (JObj (obj_set ''id'' (JInt 1) ?kvs))) = Some (JObj [(''id'', JUint 1), (''msgid'', JUint 3)])"
    by code_simp
  have f: "field_int ''msgid'' (JObj [(''id'', JUint 1), (''msgid'', JUint 3)]) = Inr (LOGIN_OUT_MSG, JObj [(''id'', JUint 1), (''msgid'', JUint 3)])"
    "field_int ''id'' (JObj [(''id'', JUint 1), (''msgid'', JUint 3)]) = Inr (1, JObj [(''id'', JUint 1), (''msgid'', JUint 3)])" by code_simp+
  have "um_erase 1 (userConnMap ?w) = [(2, 8)]" by (simp add: um_erase_def)
  then have "map_option userConnMap (onMessage ex_wire 9 (json_text ex_fp (JObj (obj_set ''id'' (JInt 1) ?kvs))) ?w) = Some [(2, 8)]"
    using p by (simp add: onMessage_def f loginOut_def leave_all_def on_redis_eq split_beta del: One_nat_def)
  then show ?thesis using i(1) one by simp
qed

end
