(* ===== verification/Pool_Concurrency.thy ===== *)
theory Pool_Concurrency
  imports Mysql_Pool
begin

section \<open>Concurrent use of the MySQL pool\<close>

text \<open>
  Two things the threads of a node do at the same time: they ask for the pool
  (\<open>MySQLConnectionPool::getInstance\<close>, which checks the pointer, locks and checks again), and they
  take and return connections (\<open>pool_step\<close>). \<open>getInstance\<close> makes one pool whatever the threads
  do; the calls that take and return connections implement a specification in which each happens at
  once as long as the threads keep clear of the race between looking at the size and taking the lock.
  A simulation may stutter: a step inside an operation need not be visible in the specification.
\<close>

locale stuttering_simulation =
  fixes cstep :: "'s \<Rightarrow> 's \<Rightarrow> bool"
    and astep :: "'a \<Rightarrow> 'a \<Rightarrow> bool"
    and abs :: "'s \<Rightarrow> 'a"
    and good :: "'s \<Rightarrow> bool"
  assumes simulates: "cstep s s' \<Longrightarrow> good s \<Longrightarrow> abs s' = abs s \<or> astep (abs s) (abs s')"
    and good_step: "cstep s s' \<Longrightarrow> good s \<Longrightarrow> good s'"
begin

lemma stays_good: "cstep\<^sup>*\<^sup>* s s' \<Longrightarrow> good s \<Longrightarrow> good s'"
  by (induction rule: rtranclp_induct) (auto intro: good_step)

lemma implements:
  assumes "cstep\<^sup>*\<^sup>* s s'" and "good s"
  shows "astep\<^sup>*\<^sup>* (abs s) (abs s')"
  using assms
proof (induction rule: rtranclp_induct)
  case base
  then show ?case by simp
next
  case (step t u)
  then have "good t" by (blast intro: stays_good)
  with step simulates [of t u] show ?case
    by (auto intro: rtranclp.rtrancl_into_rtrancl)
qed

end

subsection \<open>Taking and returning connections\<close>

text \<open>
  The specification: \<open>getConnection\<close> and \<open>releaseConnection\<close> as they are when no other thread
  comes between, who holds which connection, and what the calls of \<open>getConnection\<close> have given.
\<close>

record pool_spec =
  sp_pool :: mysql_pool
  holder :: "nat \<Rightarrow> nat option"
  given :: "(nat \<times> nat option) list"

inductive spec_step :: "pool_spec \<Rightarrow> pool_spec \<Rightarrow> bool" where
  take: "\<lbrakk>holder a t = None; getConnection (sp_pool a) = (Some c, p)\<rbrakk> \<Longrightarrow>
    spec_step a \<lparr>sp_pool = p, holder = (holder a)(t := Some c), given = given a @ [(t, Some c)]\<rparr>"
| refuse: "\<lbrakk>holder a t = None; getConnection (sp_pool a) = (None, p)\<rbrakk> \<Longrightarrow>
    spec_step a (a\<lparr>sp_pool := p, given := given a @ [(t, None)]\<rparr>)"
| give: "\<lbrakk>holder a t = Some c; releaseConnection (Some c) (sp_pool a) = (True, p)\<rbrakk> \<Longrightarrow>
    spec_step a (a\<lparr>sp_pool := p, holder := (holder a)(t := None)\<rparr>)"

definition held :: "thread_pc \<Rightarrow> nat option" where
  "held pc = (case pc of Holding c \<Rightarrow> Some c | _ \<Rightarrow> None)"

definition pool_abs :: "mysql_pool \<Rightarrow> pool_sys \<Rightarrow> pool_spec" where
  "pool_abs p s = \<lparr>sp_pool = p\<lparr>connections := map Some (queue s)\<rparr>, holder = held \<circ> pcs s, given = answers s\<rparr>"

lemma held_simps [simp]: "held Outside = None" "held SawNonEmpty = None" "held (Holding c) = Some c"
  by (simp_all add: held_def)

lemma held_update: "held \<circ> (pcs s)(t := pc) = (held \<circ> pcs s)(t := held pc)"
  by auto

lemma pool_step_simulates:
  assumes "pool_step s s'" and "\<not> undefined_behaviour s'"
  shows "pool_abs p s' = pool_abs p s \<or> spec_step (pool_abs p s) (pool_abs p s')"
  using assms(1)
proof cases
  case (size_zero t)
  have "spec_step (pool_abs p s) (pool_abs p s\<lparr>sp_pool := p\<lparr>connections := []\<rparr>, given := given (pool_abs p s) @ [(t, None)]\<rparr>)"
    using size_zero by (intro spec_step.refuse) (simp_all add: pool_abs_def getConnection_def)
  with size_zero show ?thesis by (simp add: pool_abs_def)
next
  case (size_positive t)
  then have "held \<circ> pcs s' = held \<circ> pcs s" by (auto simp: fun_eq_iff)
  with size_positive show ?thesis by (simp add: pool_abs_def)
next
  case (pop t c cs)
  have "spec_step (pool_abs p s) \<lparr>sp_pool = p\<lparr>connections := map Some cs\<rparr>, holder = (holder (pool_abs p s))(t := Some c),
      given = given (pool_abs p s) @ [(t, Some c)]\<rparr>"
    using pop by (intro spec_step.take) (simp_all add: pool_abs_def getConnection_def)
  with pop show ?thesis by (simp add: pool_abs_def held_update)
next
  case (release t c)
  have "spec_step (pool_abs p s)
      (pool_abs p s\<lparr>sp_pool := p\<lparr>connections := map Some (queue s @ [c])\<rparr>, holder := (holder (pool_abs p s))(t := None)\<rparr>)"
    using release by (intro spec_step.give) (simp_all add: pool_abs_def releaseConnection_def)
  with release show ?thesis by (simp add: pool_abs_def held_update)
next
  case (pop_empty t)
  with assms(2) show ?thesis by simp
qed

subsection \<open>When the race cannot happen\<close>

text \<open>
  Threads inside a call or holding a connection; and the states that keep clear of the race: at most
  one thread is between the look at the size and the lock, or no more threads use the pool than it has
  connections. A holder may keep its connection for ever, as a data operation whose statement raises
  does; it then counts as a user of the pool for ever, and the thread that goes on is another one.
\<close>

definition busy :: "pool_sys \<Rightarrow> nat set" where
  "busy s = {t. pcs s t \<noteq> Outside}"

definition calm :: "nat \<Rightarrow> pool_sys \<Rightarrow> bool" where
  "calm n s \<longleftrightarrow> (\<forall>t u. pcs s t = SawNonEmpty \<and> pcs s u = SawNonEmpty \<longrightarrow> t = u) \<or> finite (busy s) \<and> card (busy s) \<le> n"

definition calm_step :: "nat \<Rightarrow> pool_sys \<Rightarrow> pool_sys \<Rightarrow> bool" where
  "calm_step n s s' \<longleftrightarrow> pool_step s s' \<and> calm n s'"

text \<open>Every connection is idle or held, and a thread that has seen a connection will get one.\<close>

definition holders :: "pool_sys \<Rightarrow> nat set" where
  "holders s = {t. held (pcs s t) \<noteq> None}"

definition calm_inv :: "nat \<Rightarrow> pool_sys \<Rightarrow> bool" where
  "calm_inv n s \<longleftrightarrow> \<not> undefined_behaviour s \<and> calm n s \<and> finite (busy s) \<and> length (queue s) + card (holders s) = n \<and>
     ((\<exists>t. pcs s t = SawNonEmpty) \<longrightarrow> queue s \<noteq> [])"

lemma holders_busy: "holders s \<subseteq> busy s"
  by (auto simp: holders_def busy_def)

lemma calm_inv_holders: "calm_inv n s \<Longrightarrow> finite (holders s)"
  using finite_subset [OF holders_busy] by (auto simp: calm_inv_def)

lemma busy_update: "pcs s' = (pcs s)(t := pc) \<Longrightarrow> busy s' = (if pc = Outside then busy s - {t} else insert t (busy s))"
  by (auto simp: busy_def)

lemma holders_update: "pcs s' = (pcs s)(t := pc) \<Longrightarrow> holders s' = (if held pc = None then holders s - {t} else insert t (holders s))"
  by (auto simp: holders_def)

lemma same_pcs: "pcs s' = pcs s \<Longrightarrow> busy s' = busy s \<and> holders s' = holders s"
  by (simp add: busy_def holders_def)

text \<open>Two threads past the check in a calm state: at least two connections are idle.\<close>

lemma two_past_check:
  assumes "calm_inv n s" and "pcs s t = SawNonEmpty" and "pcs s u = SawNonEmpty" and "t \<noteq> u"
  shows "2 \<le> length (queue s)"
proof -
  have "card (busy s) \<le> n" "finite (busy s)" using assms by (auto simp: calm_inv_def calm_def)
  moreover have "insert t (insert u (holders s)) \<subseteq> busy s" using assms(2,3) holders_busy by (auto simp: busy_def)
  ultimately have "card (insert t (insert u (holders s))) \<le> n" by (meson card_mono le_trans)
  moreover have "t \<notin> holders s" "u \<notin> holders s" using assms(2,3) by (simp_all add: holders_def)
  then have "card (insert t (insert u (holders s))) = Suc (Suc (card (holders s)))"
    using assms(4) calm_inv_holders [OF assms(1)] by simp
  ultimately show ?thesis using assms(1) by (simp add: calm_inv_def)
qed

lemma calm_step_inv:
  assumes "calm_step n s s'" and "calm_inv n s"
  shows "calm_inv n s'"
proof -
  from assms(1) have st: "pool_step s s'" and c: "calm n s'" by (simp_all add: calm_step_def)
  note i = assms(2) [unfolded calm_inv_def]
  from st show ?thesis
  proof cases
    case (size_zero t)
    then have "pcs s' = pcs s" by simp
    from same_pcs [OF this] size_zero i c show ?thesis by (simp add: calm_inv_def)
  next
    case (size_positive t)
    then have "pcs s' = (pcs s)(t := SawNonEmpty)" "t \<notin> holders s" by (simp_all add: holders_def)
    with busy_update [OF this(1)] holders_update [OF this(1)] size_positive i c show ?thesis by (simp add: calm_inv_def)
  next
    case (pop t x cs)
    then have t: "t \<notin> holders s" and p: "pcs s' = (pcs s)(t := Holding x)" by (simp_all add: holders_def)
    have "cs \<noteq> []" if "pcs s u = SawNonEmpty" "u \<noteq> t" for u
      using two_past_check [OF assms(2) pop(3) that(1)] that(2) pop(4) by auto
    then have "(\<exists>u. pcs s' u = SawNonEmpty) \<longrightarrow> queue s' \<noteq> []" using pop(1) by (auto split: if_splits)
    moreover have "length (queue s') + card (holders s') = n"
      using pop t i calm_inv_holders [OF assms(2)] holders_update [OF p] by simp
    moreover have "finite (busy s')" using i busy_update [OF p] by simp
    ultimately show ?thesis using c i pop(1) by (simp add: calm_inv_def)
  next
    case (pop_empty t)
    with i show ?thesis by auto
  next
    case (release t x)
    then have t: "t \<in> holders s" and p: "pcs s' = (pcs s)(t := Outside)" by (simp_all add: holders_def)
    have "Suc (card (holders s - {t})) = card (holders s)" using calm_inv_holders [OF assms(2)] t by (rule card_Suc_Diff1)
    then have "length (queue s') + card (holders s') = n" using release i holders_update [OF p] by simp
    moreover have "finite (busy s')" using i busy_update [OF p] by simp
    ultimately show ?thesis using c release i by (simp add: calm_inv_def)
  qed
qed

interpretation pool_sim: stuttering_simulation "calm_step n" spec_step "pool_abs p" "calm_inv n"
proof unfold_locales
  fix s s'
  assume "calm_step n s s'" and "calm_inv n s"
  then have "pool_step s s'" "\<not> undefined_behaviour s'"
    using calm_step_inv [of n s s'] by (simp_all add: calm_step_def calm_inv_def)
  then show "pool_abs p s' = pool_abs p s \<or> spec_step (pool_abs p s) (pool_abs p s')" by (rule pool_step_simulates)
qed (rule calm_step_inv)

lemma calm_inv_init: "calm_inv (length cs) (pool_init cs)"
  by (simp add: calm_inv_def calm_def busy_def holders_def pool_init_def)

text \<open>
  C15. As long as no two threads are between the look at the size and the lock at once, or no more
  threads use the pool at once than it has connections, no call pops from an empty deque, and whatever
  the threads have done in steps between lock operations is a sequence of complete calls of
  \<open>getConnection\<close> and \<open>releaseConnection\<close>, one after the other: the pool, the connections every
  thread holds and the answers of all calls, refusals among them, are those the sequential operations
  give.
\<close>

theorem pool_refines_sequential:
  assumes "(calm_step (length (connections p)))\<^sup>*\<^sup>* (pool_init (map the (connections p))) s" and "no_null p"
  shows "\<not> undefined_behaviour s \<and>
    spec_step\<^sup>*\<^sup>* \<lparr>sp_pool = p, holder = (\<lambda>t. None), given = []\<rparr>
      \<lparr>sp_pool = p\<lparr>connections := map Some (queue s)\<rparr>, holder = held \<circ> pcs s, given = answers s\<rparr>"
proof -
  have "map Some (map the (connections p)) = connections p"
    using assms(2) by (simp add: no_null_def) (rule map_idI, metis comp_apply option.collapse)
  then have "pool_abs p (pool_init (map the (connections p))) = \<lparr>sp_pool = p, holder = (\<lambda>t. None), given = []\<rparr>"
    by (simp add: pool_abs_def pool_init_def comp_def)
  moreover have "calm_inv (length (connections p)) (pool_init (map the (connections p)))"
    using calm_inv_init [of "map the (connections p)"] by simp
  ultimately show ?thesis
    using pool_sim.implements [OF assms(1), of p] pool_sim.stays_good [OF assms(1)] by (simp add: pool_abs_def calm_inv_def)
qed

definition ex_small_pool :: mysql_pool where
  "ex_small_pool = \<lparr>mp_url = ''u'', mp_datebaseName = ''chat'', mp_user = ''root'', mp_password = ''pw'', mp_poolSize = 1,
     mp_driver = True, connections = [Some 4]\<rparr>"

lemma held_of_pop: "held \<circ> (\<lambda>_. Outside)(0 := Holding c) = (\<lambda>t. None)(0 := Some c)"
  by auto

text \<open>One thread takes the only connection, and a second one is refused.\<close>

theorem pool_refines_sequential_witness:
  "spec_step\<^sup>*\<^sup>* \<lparr>sp_pool = ex_small_pool, holder = (\<lambda>t. None), given = []\<rparr>
    \<lparr>sp_pool = ex_small_pool\<lparr>connections := []\<rparr>, holder = (\<lambda>t. None)(0 := Some 4), given = [(0, Some 4), (1, None)]\<rparr>"
proof -
  let ?s0 = "pool_init [4]"
  let ?s1 = "?s0\<lparr>pcs := (pcs ?s0)(0 := SawNonEmpty)\<rparr>"
  let ?s2 = "?s1\<lparr>queue := [], pcs := (pcs ?s1)(0 := Holding 4), answers := answers ?s1 @ [(0, Some 4)]\<rparr>"
  let ?s3 = "?s2\<lparr>answers := answers ?s2 @ [(1, None)]\<rparr>"
  have "pool_step ?s0 ?s1" by (rule pool_step.size_positive) (simp_all add: pool_init_def)
  moreover have "pool_step ?s1 ?s2" by (rule pool_step.pop) (simp_all add: pool_init_def)
  moreover have "pool_step ?s2 ?s3" by (rule pool_step.size_zero) (simp_all add: pool_init_def)
  moreover have "calm 1 ?s1" "calm 1 ?s2" "calm 1 ?s3" by (simp_all add: calm_def pool_init_def)
  ultimately have "calm_step 1 ?s0 ?s1" "calm_step 1 ?s1 ?s2" "calm_step 1 ?s2 ?s3" unfolding calm_step_def by blast+
  then have "(calm_step 1)\<^sup>*\<^sup>* ?s0 ?s3"
    by (blast intro: rtranclp.rtrancl_into_rtrancl [OF rtranclp.rtrancl_into_rtrancl [OF r_into_rtranclp]])
  then have "(calm_step (length (connections ex_small_pool)))\<^sup>*\<^sup>* (pool_init (map the (connections ex_small_pool))) ?s3"
    by (simp add: ex_small_pool_def)
  moreover have "no_null ex_small_pool" by (simp add: ex_small_pool_def no_null_def)
  ultimately have "spec_step\<^sup>*\<^sup>* \<lparr>sp_pool = ex_small_pool, holder = (\<lambda>t. None), given = []\<rparr>
      \<lparr>sp_pool = ex_small_pool\<lparr>connections := map Some (queue ?s3)\<rparr>, holder = held \<circ> pcs ?s3, given = answers ?s3\<rparr>"
    by (rule pool_refines_sequential [THEN conjunct2])
  then show ?thesis by (simp add: pool_init_def held_of_pop del: One_nat_def)
qed

subsection \<open>getInstance\<close>

text \<open>
  \<open>getInstance\<close> in steps between accesses to the shared pointer and the lock. A pool is a number,
  \<open>built\<close> counts the constructor calls. Reads and writes of the pointer are taken to be in program
  order, as on the machines the server runs on; the pointer is not declared atomic.
\<close>

datatype getInstance_pc = First_check | Want_lock | Second_check | Constructing | Unlocking | Got nat

record singleton =
  instance_ptr :: "nat option"
  built :: nat
  mutex_owner :: "nat option"
  at :: "nat \<Rightarrow> getInstance_pc"

inductive getInstance_step :: "singleton \<Rightarrow> singleton \<Rightarrow> bool" where
  seen: "\<lbrakk>at s t = First_check; instance_ptr s = Some p\<rbrakk> \<Longrightarrow> getInstance_step s (s\<lparr>at := (at s)(t := Got p)\<rparr>)"
| not_seen: "\<lbrakk>at s t = First_check; instance_ptr s = None\<rbrakk> \<Longrightarrow> getInstance_step s (s\<lparr>at := (at s)(t := Want_lock)\<rparr>)"
| lock: "\<lbrakk>at s t = Want_lock; mutex_owner s = None\<rbrakk> \<Longrightarrow>
    getInstance_step s (s\<lparr>mutex_owner := Some t, at := (at s)(t := Second_check)\<rparr>)"
| seen_locked: "\<lbrakk>at s t = Second_check; instance_ptr s = Some p\<rbrakk> \<Longrightarrow> getInstance_step s (s\<lparr>at := (at s)(t := Unlocking)\<rparr>)"
| not_seen_locked: "\<lbrakk>at s t = Second_check; instance_ptr s = None\<rbrakk> \<Longrightarrow> getInstance_step s (s\<lparr>at := (at s)(t := Constructing)\<rparr>)"
| construct: "at s t = Constructing \<Longrightarrow>
    getInstance_step s (s\<lparr>instance_ptr := Some (built s), built := Suc (built s), at := (at s)(t := Unlocking)\<rparr>)"
| unlock: "\<lbrakk>at s t = Unlocking; instance_ptr s = Some p\<rbrakk> \<Longrightarrow>
    getInstance_step s (s\<lparr>mutex_owner := None, at := (at s)(t := Got p)\<rparr>)"

definition singleton_start :: singleton where
  "singleton_start = \<lparr>instance_ptr = None, built = 0, mutex_owner = None, at = (\<lambda>t. First_check)\<rparr>"

definition in_lock :: "getInstance_pc \<Rightarrow> bool" where
  "in_lock pc \<longleftrightarrow> pc \<in> {Second_check, Constructing, Unlocking}"

text \<open>The lock is held by the thread inside it.\<close>

definition lock_inv :: "singleton \<Rightarrow> bool" where
  "lock_inv s \<longleftrightarrow> (\<forall>t. in_lock (at s t) \<longrightarrow> mutex_owner s = Some t)"

text \<open>The pointer is null before the first construction and stays what the construction made it.\<close>

fun ptr_ok :: "nat option \<Rightarrow> getInstance_pc \<Rightarrow> bool" where
  "ptr_ok ptr Constructing \<longleftrightarrow> ptr = None"
| "ptr_ok ptr Unlocking \<longleftrightarrow> ptr \<noteq> None"
| "ptr_ok ptr (Got p) \<longleftrightarrow> ptr = Some p"
| "ptr_ok ptr _ \<longleftrightarrow> True"

definition ptr_inv :: "singleton \<Rightarrow> bool" where
  "ptr_inv s \<longleftrightarrow> (\<forall>t. ptr_ok (instance_ptr s) (at s t)) \<and> instance_ptr s = (if built s = 0 then None else Some 0) \<and> built s \<le> 1"

lemma in_lock_simps [simp]:
  "\<not> in_lock First_check" "\<not> in_lock Want_lock" "in_lock Second_check" "in_lock Constructing" "in_lock Unlocking" "\<not> in_lock (Got p)"
  by (simp_all add: in_lock_def)

lemma lock_invD: "lock_inv s \<Longrightarrow> in_lock (at s t) \<Longrightarrow> mutex_owner s = Some t"
  by (simp add: lock_inv_def)

lemma ptr_invD: "ptr_inv s \<Longrightarrow> ptr_ok (instance_ptr s) (at s t)"
  unfolding ptr_inv_def by blast

text \<open>Two threads are never inside the lock at once.\<close>

lemma in_lock_unique: "lock_inv s \<Longrightarrow> in_lock (at s t) \<Longrightarrow> in_lock (at s u) \<Longrightarrow> t = u"
  using lock_invD [of s t] lock_invD [of s u] by simp

lemma getInstance_lock_inv:
  assumes "getInstance_step s s'" and "lock_inv s"
  shows "lock_inv s'"
  using assms(1)
proof cases
  case (lock t)
  with assms(2) show ?thesis by (simp add: lock_inv_def)
next
  case (unlock t p)
  then have "\<not> in_lock (at s u)" if "u \<noteq> t" for u
    using in_lock_unique [OF assms(2), of t u] that by auto
  with unlock show ?thesis by (simp add: lock_inv_def)
qed (use assms(2) in \<open>auto simp: lock_inv_def dest: lock_invD [OF assms(2)]\<close>)

lemma getInstance_ptr_inv:
  assumes "getInstance_step s s'" and "lock_inv s" and "ptr_inv s"
  shows "ptr_inv s'"
  using assms(1)
proof cases
  case (construct t)
  have "\<not> in_lock (at s u)" if "u \<noteq> t" for u
    using in_lock_unique [OF assms(2), of t u] that construct by auto
  moreover have "\<not> in_lock pc \<Longrightarrow> ptr_ok None pc \<Longrightarrow> ptr_ok (Some 0) pc" for pc
    by (cases pc) simp_all
  moreover have "instance_ptr s = None" using ptr_invD [OF assms(3), of t] construct by simp
  ultimately show ?thesis
    using assms(3) construct by (simp add: ptr_inv_def split: if_splits)
qed (use assms(3) in \<open>auto simp: ptr_inv_def\<close>)

lemma getInstance_inv:
  assumes "getInstance_step\<^sup>*\<^sup>* singleton_start s"
  shows "lock_inv s \<and> ptr_inv s"
  using assms
proof (induction rule: rtranclp_induct)
  case base
  then show ?case by (simp add: lock_inv_def ptr_inv_def singleton_start_def)
qed (blast intro: getInstance_lock_inv getInstance_ptr_inv)

text \<open>
  However many threads call \<open>getInstance\<close> at the same time, at most one pool is ever made and
  every call that returns gives that pool.
\<close>

theorem getInstance_unique:
  assumes "getInstance_step\<^sup>*\<^sup>* singleton_start s"
  shows "built s \<le> 1 \<and> (\<forall>t p u q. at s t = Got p \<and> at s u = Got q \<longrightarrow> p = q \<and> instance_ptr s = Some p)"
proof -
  from assms have i: "ptr_inv s" using getInstance_inv by blast
  have g: "instance_ptr s = Some p" if "at s t = Got p" for t p
    using ptr_invD [OF i, of t] that by simp
  have "built s \<le> 1" using i by (simp add: ptr_inv_def)
  moreover have "p = q \<and> instance_ptr s = Some p" if "at s t = Got p" "at s u = Got q" for t p u q
    using g [OF that(1)] g [OF that(2)] by simp
  ultimately show ?thesis by blast
qed

theorem getInstance_unique_witness: "built (singleton_start\<lparr>at := (at singleton_start)(3 := Want_lock)\<rparr>) \<le> 1"
proof -
  have "getInstance_step singleton_start (singleton_start\<lparr>at := (at singleton_start)(3 := Want_lock)\<rparr>)"
    by (rule getInstance_step.not_seen) (simp_all add: singleton_start_def)
  then have "getInstance_step\<^sup>*\<^sup>* singleton_start (singleton_start\<lparr>at := (at singleton_start)(3 := Want_lock)\<rparr>)" by blast
  from getInstance_unique [OF this] show ?thesis by blast
qed

end
