(* ===== verification/Config.thy ===== *)
theory Config
  imports Json_Roundtrip
begin

section \<open>Config (include/config.hpp)\<close>

text \<open>
  The configuration singleton and \<open>load\<close>, which reads a JSON file: every entry has a default,
  the three sections are optional, and an exception, of the parser or of a value of the wrong type,
  is caught and answered by \<open>false\<close> while the entries assigned before it keep their new values.
  The singleton has static storage, so it starts with empty strings and zeros.
\<close>

record config =
  nodeId :: string
  serverIp :: string
  serverPort :: int
  redisUrl :: string
  redisPoolSize :: int
  redisPoolWaitMs :: int
  logLevel :: string
  logPath :: string

definition Config_initial :: config where
  "Config_initial = \<lparr>nodeId = [], serverIp = [], serverPort = 0, redisUrl = [], redisPoolSize = 0, redisPoolWaitMs = 0,
     logLevel = [], logPath = []\<rparr>"

text \<open>\<open>j.value(key, default)\<close>: only objects have it.\<close>

definition json_value :: "(json \<Rightarrow> cpp_exn + 'a) \<Rightarrow> string \<Rightarrow> 'a \<Rightarrow> json \<Rightarrow> cpp_exn + 'a" where
  "json_value get k d j =
     (case j of
        JObj kvs \<Rightarrow> (case map_of kvs k of None \<Rightarrow> Inr d | Some v \<Rightarrow> get v)
      | _ \<Rightarrow> Inl (type_error 306))"

text \<open>
  A sequence of assignments in a \<open>try\<close> block: \<open>ok\<close> says whether no exception has been thrown
  so far.
\<close>

type_synonym load_state = "bool \<times> config"

definition assign :: "cpp_exn + 'a \<Rightarrow> ('a \<Rightarrow> config \<Rightarrow> config) \<Rightarrow> load_state \<Rightarrow> load_state" where
  "assign r upd s =
     (case s of (ok, c) \<Rightarrow> if \<not> ok then s else case r of Inl e \<Rightarrow> (False, c) | Inr v \<Rightarrow> (True, upd v c))"

definition in_section :: "string \<Rightarrow> json \<Rightarrow> (json \<Rightarrow> load_state \<Rightarrow> load_state) \<Rightarrow> load_state \<Rightarrow> load_state" where
  "in_section k j f s = (case json_get k j of None \<Rightarrow> s | Some v \<Rightarrow> if fst s then f v s else s)"

definition load_server :: "json \<Rightarrow> load_state \<Rightarrow> load_state" where
  "load_server server s =
     assign (json_value get_int ''port'' 8000 server) (\<lambda>v c. c\<lparr>serverPort := v\<rparr>)
       (assign (json_value get_string ''ip'' ''0.0.0.0'' server) (\<lambda>v c. c\<lparr>serverIp := v\<rparr>) s)"

definition load_redis :: "json \<Rightarrow> load_state \<Rightarrow> load_state" where
  "load_redis redis s =
     assign (json_value get_int ''pool_wait_ms'' 5000 redis) (\<lambda>v c. c\<lparr>redisPoolWaitMs := v\<rparr>)
       (assign (json_value get_int ''pool_size'' 10 redis) (\<lambda>v c. c\<lparr>redisPoolSize := v\<rparr>)
         (assign (json_value get_string ''url'' ''redis://localhost:6379'' redis) (\<lambda>v c. c\<lparr>redisUrl := v\<rparr>) s))"

definition load_log :: "json \<Rightarrow> load_state \<Rightarrow> load_state" where
  "load_log lg s =
     assign (json_value get_string ''path'' ''./logs/chat.log'' lg) (\<lambda>v c. c\<lparr>logPath := v\<rparr>)
       (assign (json_value get_string ''level'' ''info'' lg) (\<lambda>v c. c\<lparr>logLevel := v\<rparr>) s)"

text \<open>\<open>load\<close>: \<open>file\<close> is the content of the file, \<open>None\<close> when it cannot be opened.\<close>

definition Config_load :: "fp_env \<Rightarrow> string option \<Rightarrow> config \<Rightarrow> load_state" where
  "Config_load F file c =
     (case file of
        None \<Rightarrow> (False, c)
      | Some text \<Rightarrow>
          (case json_parse F text of
             None \<Rightarrow> (False, c)
           | Some config \<Rightarrow>
               in_section ''log'' config load_log
                 (in_section ''redis'' config load_redis
                   (in_section ''server'' config load_server
                     (assign (json_value get_string ''node_id'' ''node-default'' config) (\<lambda>v c. c\<lparr>nodeId := v\<rparr>) (True, c))))))"

subsection \<open>What loading gives\<close>

text \<open>An entry of a section as the configuration after a successful load has it.\<close>

definition entry_of :: "(json \<Rightarrow> cpp_exn + 'a) \<Rightarrow> json option \<Rightarrow> string \<Rightarrow> 'a \<Rightarrow> 'a \<Rightarrow> 'a" where
  "entry_of get sec k d old =
     (case sec of
        None \<Rightarrow> old
      | Some j \<Rightarrow> (case json_value get k d j of Inl e \<Rightarrow> old | Inr v \<Rightarrow> v))"

definition section_ok :: "(json \<Rightarrow> bool) \<Rightarrow> json option \<Rightarrow> bool" where
  "section_ok P sec \<longleftrightarrow> (case sec of None \<Rightarrow> True | Some j \<Rightarrow> P j)"

definition is_ok :: "cpp_exn + 'a \<Rightarrow> bool" where
  "is_ok r \<longleftrightarrow> (case r of Inl e \<Rightarrow> False | Inr v \<Rightarrow> True)"

text \<open>The value has the types \<open>load\<close> expects.\<close>

definition config_ok :: "json \<Rightarrow> bool" where
  "config_ok j \<longleftrightarrow> is_ok (json_value get_string ''node_id'' ''node-default'' j) \<and>
     section_ok (\<lambda>s. is_ok (json_value get_string ''ip'' ''0.0.0.0'' s) \<and> is_ok (json_value get_int ''port'' 8000 s)) (json_get ''server'' j) \<and>
     section_ok (\<lambda>s. is_ok (json_value get_string ''url'' ''redis://localhost:6379'' s) \<and> is_ok (json_value get_int ''pool_size'' 10 s) \<and>
       is_ok (json_value get_int ''pool_wait_ms'' 5000 s)) (json_get ''redis'' j) \<and>
     section_ok (\<lambda>s. is_ok (json_value get_string ''level'' ''info'' s) \<and> is_ok (json_value get_string ''path'' ''./logs/chat.log'' s)) (json_get ''log'' j)"

lemma is_okE: "is_ok r \<Longrightarrow> (\<And>v. r = Inr v \<Longrightarrow> P) \<Longrightarrow> P"
  by (cases r) (simp_all add: is_ok_def)

lemma assign_simps: "assign (Inr v) upd (True, c) = (True, upd v c)" "assign (Inl e) upd (True, c) = (False, c)"
  by (simp_all add: assign_def)

lemma fst_assign: "fst (assign r upd s) \<longleftrightarrow> fst s \<and> is_ok r"
  by (cases s; cases r) (simp_all add: assign_def is_ok_def)

lemma fst_in_section: "(\<And>v s. fst (f v s) \<longleftrightarrow> fst s \<and> P v) \<Longrightarrow> fst (in_section k j f s) \<longleftrightarrow> fst s \<and> section_ok P (json_get k j)"
  by (simp add: in_section_def section_ok_def split: option.splits)

lemma fst_load_sections:
  "fst (load_server v s) \<longleftrightarrow> fst s \<and> is_ok (json_value get_string ''ip'' ''0.0.0.0'' v) \<and> is_ok (json_value get_int ''port'' 8000 v)"
  "fst (load_redis v s) \<longleftrightarrow> fst s \<and> is_ok (json_value get_string ''url'' ''redis://localhost:6379'' v) \<and> is_ok (json_value get_int ''pool_size'' 10 v) \<and>
     is_ok (json_value get_int ''pool_wait_ms'' 5000 v)"
  "fst (load_log v s) \<longleftrightarrow> fst s \<and> is_ok (json_value get_string ''level'' ''info'' v) \<and> is_ok (json_value get_string ''path'' ''./logs/chat.log'' v)"
  by (auto simp: load_server_def load_redis_def load_log_def fst_assign)

lemma Config_load_ok: "fst (Config_load F (Some t) c) \<longleftrightarrow> (\<exists>j. json_parse F t = Some j \<and> config_ok j)"
proof (cases "json_parse F t")
  case (Some j)
  have sec: "fst (in_section ''server'' j load_server s) \<longleftrightarrow> fst s \<and> section_ok (\<lambda>s. is_ok (json_value get_string ''ip'' ''0.0.0.0'' s) \<and> is_ok (json_value get_int ''port'' 8000 s)) (json_get ''server'' j)"
    "fst (in_section ''redis'' j load_redis s) \<longleftrightarrow> fst s \<and> section_ok (\<lambda>s. is_ok (json_value get_string ''url'' ''redis://localhost:6379'' s) \<and> is_ok (json_value get_int ''pool_size'' 10 s) \<and>
       is_ok (json_value get_int ''pool_wait_ms'' 5000 s)) (json_get ''redis'' j)"
    "fst (in_section ''log'' j load_log s) \<longleftrightarrow> fst s \<and> section_ok (\<lambda>s. is_ok (json_value get_string ''level'' ''info'' s) \<and> is_ok (json_value get_string ''path'' ''./logs/chat.log'' s)) (json_get ''log'' j)" for s
    by (rule fst_in_section, simp add: fst_load_sections)+
  with Some show ?thesis by (auto simp: Config_load_def config_ok_def fst_assign)
qed (simp add: Config_load_def)

lemma in_section_server:
  assumes "section_ok (\<lambda>s. is_ok (json_value get_string ''ip'' ''0.0.0.0'' s) \<and> is_ok (json_value get_int ''port'' 8000 s)) (json_get ''server'' j)"
  shows "in_section ''server'' j load_server (True, c) =
    (True, c\<lparr>serverIp := entry_of get_string (json_get ''server'' j) ''ip'' ''0.0.0.0'' (serverIp c),
             serverPort := entry_of get_int (json_get ''server'' j) ''port'' 8000 (serverPort c)\<rparr>)"
  using assms
  by (cases "json_get ''server'' j")
    (auto simp: in_section_def section_ok_def load_server_def assign_simps entry_of_def elim!: is_okE)

lemma in_section_redis:
  assumes "section_ok (\<lambda>s. is_ok (json_value get_string ''url'' ''redis://localhost:6379'' s) \<and> is_ok (json_value get_int ''pool_size'' 10 s) \<and>
       is_ok (json_value get_int ''pool_wait_ms'' 5000 s)) (json_get ''redis'' j)"
  shows "in_section ''redis'' j load_redis (True, c) =
    (True, c\<lparr>redisUrl := entry_of get_string (json_get ''redis'' j) ''url'' ''redis://localhost:6379'' (redisUrl c),
             redisPoolSize := entry_of get_int (json_get ''redis'' j) ''pool_size'' 10 (redisPoolSize c),
             redisPoolWaitMs := entry_of get_int (json_get ''redis'' j) ''pool_wait_ms'' 5000 (redisPoolWaitMs c)\<rparr>)"
  using assms
  by (cases "json_get ''redis'' j")
    (auto simp: in_section_def section_ok_def load_redis_def assign_simps entry_of_def elim!: is_okE)

lemma in_section_log:
  assumes "section_ok (\<lambda>s. is_ok (json_value get_string ''level'' ''info'' s) \<and> is_ok (json_value get_string ''path'' ''./logs/chat.log'' s)) (json_get ''log'' j)"
  shows "in_section ''log'' j load_log (True, c) =
    (True, c\<lparr>logLevel := entry_of get_string (json_get ''log'' j) ''level'' ''info'' (logLevel c),
             logPath := entry_of get_string (json_get ''log'' j) ''path'' ''./logs/chat.log'' (logPath c)\<rparr>)"
  using assms
  by (cases "json_get ''log'' j")
    (auto simp: in_section_def section_ok_def load_log_def assign_simps entry_of_def elim!: is_okE)

lemma Config_load_entries:
  assumes "json_parse F t = Some j" and "config_ok j"
  shows "snd (Config_load F (Some t) c) =
      \<lparr>nodeId = entry_of get_string (Some j) ''node_id'' ''node-default'' (nodeId c),
       serverIp = entry_of get_string (json_get ''server'' j) ''ip'' ''0.0.0.0'' (serverIp c),
       serverPort = entry_of get_int (json_get ''server'' j) ''port'' 8000 (serverPort c),
       redisUrl = entry_of get_string (json_get ''redis'' j) ''url'' ''redis://localhost:6379'' (redisUrl c),
       redisPoolSize = entry_of get_int (json_get ''redis'' j) ''pool_size'' 10 (redisPoolSize c),
       redisPoolWaitMs = entry_of get_int (json_get ''redis'' j) ''pool_wait_ms'' 5000 (redisPoolWaitMs c),
       logLevel = entry_of get_string (json_get ''log'' j) ''level'' ''info'' (logLevel c),
       logPath = entry_of get_string (json_get ''log'' j) ''path'' ''./logs/chat.log'' (logPath c)\<rparr>"
proof -
  from assms(2) obtain v where "json_value get_string ''node_id'' ''node-default'' j = Inr v"
    by (auto simp: config_ok_def elim: is_okE)
  with assms show ?thesis
    by (simp add: Config_load_def config_ok_def assign_simps in_section_server in_section_redis in_section_log entry_of_def)
qed

text \<open>
  C23. \<open>load\<close> answers true exactly when the file can be read, is JSON and every entry it knows has
  the expected type. Then the node id is that of the file or its default, every entry of a section
  the file has is that of the file or its default, and the sections the file does not have keep what
  they had; when the file cannot be opened or is not JSON nothing changes.
\<close>

theorem Config_load_correct:
  "Config_load F None c = (False, c) \<and>
   (json_parse F t = None \<longrightarrow> Config_load F (Some t) c = (False, c)) \<and>
   (fst (Config_load F (Some t) c) \<longleftrightarrow> (\<exists>j. json_parse F t = Some j \<and> config_ok j)) \<and>
   (json_parse F t = Some j \<and> config_ok j \<longrightarrow> snd (Config_load F (Some t) c) =
      \<lparr>nodeId = entry_of get_string (Some j) ''node_id'' ''node-default'' (nodeId c),
       serverIp = entry_of get_string (json_get ''server'' j) ''ip'' ''0.0.0.0'' (serverIp c),
       serverPort = entry_of get_int (json_get ''server'' j) ''port'' 8000 (serverPort c),
       redisUrl = entry_of get_string (json_get ''redis'' j) ''url'' ''redis://localhost:6379'' (redisUrl c),
       redisPoolSize = entry_of get_int (json_get ''redis'' j) ''pool_size'' 10 (redisPoolSize c),
       redisPoolWaitMs = entry_of get_int (json_get ''redis'' j) ''pool_wait_ms'' 5000 (redisPoolWaitMs c),
       logLevel = entry_of get_string (json_get ''log'' j) ''level'' ''info'' (logLevel c),
       logPath = entry_of get_string (json_get ''log'' j) ''path'' ''./logs/chat.log'' (logPath c)\<rparr>)"
proof (intro conjI impI)
  assume "json_parse F t = Some j \<and> config_ok j"
  then show "snd (Config_load F (Some t) c) =
      \<lparr>nodeId = entry_of get_string (Some j) ''node_id'' ''node-default'' (nodeId c),
       serverIp = entry_of get_string (json_get ''server'' j) ''ip'' ''0.0.0.0'' (serverIp c),
       serverPort = entry_of get_int (json_get ''server'' j) ''port'' 8000 (serverPort c),
       redisUrl = entry_of get_string (json_get ''redis'' j) ''url'' ''redis://localhost:6379'' (redisUrl c),
       redisPoolSize = entry_of get_int (json_get ''redis'' j) ''pool_size'' 10 (redisPoolSize c),
       redisPoolWaitMs = entry_of get_int (json_get ''redis'' j) ''pool_wait_ms'' 5000 (redisPoolWaitMs c),
       logLevel = entry_of get_string (json_get ''log'' j) ''level'' ''info'' (logLevel c),
       logPath = entry_of get_string (json_get ''log'' j) ''path'' ''./logs/chat.log'' (logPath c)\<rparr>"
    by (simp add: Config_load_entries)
qed (rule Config_load_ok | simp add: Config_load_def)+

theorem Config_load_correct_witness:
  "snd (Config_load \<lparr>fp_to_chars = \<lambda>m e. [], fp_strtod = \<lambda>s. None\<rparr> (Some ''{\"log\":{}}'') Config_initial) =
     Config_initial\<lparr>nodeId := ''node-default'', logLevel := ''info'', logPath := ''./logs/chat.log''\<rparr>"
proof -
  let ?F = "\<lparr>fp_to_chars = \<lambda>m e. [], fp_strtod = \<lambda>s. None\<rparr>" and ?t = "''{\"log\":{}}''"
  let ?j = "JObj [(''log'', JObj [])]"
  have p: "json_parse ?F ?t = Some ?j" by code_simp
  have k: "config_ok ?j" by (simp add: config_ok_def section_ok_def is_ok_def json_value_def json_get_def)
  note load = Config_load_correct [of ?F Config_initial ?t ?j, THEN conjunct2, THEN conjunct2, THEN conjunct2, THEN mp, OF conjI [OF p k]]
  show ?thesis unfolding load by (simp add: Config_initial_def entry_of_def json_value_def json_get_def)
qed

end
