(* ===== verification/Startup.thy ===== *)
theory Startup
  imports Config Example_Node
begin

section \<open>Start-up and shutdown of a node\<close>

text \<open>
  \<open>src/server/main.cpp\<close>, the constructors and destructors of \<open>ChatServer\<close>, \<open>ChatService\<close> and
  \<open>RedisClient\<close>, and the whole life of the subscriber thread: acquiring its handle, subscribing,
  the loop (\<open>subscriber_turn\<close>), and the clean-up.
\<close>

subsection \<open>Construction and destruction\<close>

text \<open>The pools before their initialisation: the driver pointer has not been set.\<close>

definition MySQLConnectionPool_new :: mysql_pool where
  "MySQLConnectionPool_new = \<lparr>mp_url = [], mp_datebaseName = [], mp_user = [], mp_password = [], mp_poolSize = 0,
     mp_driver = False, connections = []\<rparr>"

text \<open>
  The private constructor with arguments, which lets an exception of the driver out, and the
  destructor.
\<close>

definition MySQLConnectionPool_new5 ::
  "'db sql_driver \<Rightarrow> string \<Rightarrow> string \<Rightarrow> string \<Rightarrow> string \<Rightarrow> int \<Rightarrow> 'db \<Rightarrow> (sql_exc, unit) outcome \<times> mysql_pool \<times> 'db" where
  "MySQLConnectionPool_new5 D url datebaseName user password poolSize d =
     (let p = MySQLConnectionPool_new\<lparr>mp_url := url, mp_datebaseName := datebaseName, mp_user := user,
                mp_password := password, mp_poolSize := poolSize\<rparr>
      in if \<not> drv_instance D then (Throw SQLException, p, d)
         else initConnection_loop D (nat poolSize) (p\<lparr>mp_driver := True\<rparr>) d)"

definition MySQLConnectionPool_delete :: "'db sql_driver \<Rightarrow> mysql_pool \<Rightarrow> 'db \<Rightarrow> mysql_pool \<times> 'db" where
  "MySQLConnectionPool_delete D p d = destoryConnectionPool D p d"

text \<open>With the driver at hand it makes the pool the default constructor and \<open>initPool\<close> make.\<close>

lemma MySQLConnectionPool_new5_initPool:
  "drv_instance D \<Longrightarrow> MySQLConnectionPool_new5 D url name usr pw n d = initPool D url name usr pw n MySQLConnectionPool_new d"
  by (simp add: MySQLConnectionPool_new5_def initPool_def initConnection_def Let_def)

definition RedisConnectionPool_new :: redis_pool where
  "RedisConnectionPool_new = \<lparr>rp_host = [], rp_port = 0, rp_stopped = False, rp_password = [], rp_conns = []\<rparr>"

text \<open>\<open>RedisClient::RedisClient\<close>: the node id is whatever the configuration has at this moment.\<close>

definition RedisClient_new :: "config \<Rightarrow> redis_pool \<Rightarrow> 'rd \<Rightarrow> 'rd redis_state" where
  "RedisClient_new cfg p d =
     \<lparr>rpool = p, rd = d, localNodeId = nodeId cfg, rc_stopped = False, sub_tasks = [], sub_group_set = []\<rparr>"

text \<open>\<open>RedisClient::~RedisClient\<close> up to the \<open>join\<close>, which waits for the subscriber thread.\<close>

definition RedisClient_delete :: "'rd redis_state \<Rightarrow> 'rd redis_state" where
  "RedisClient_delete s = s\<lparr>rc_stopped := True, sub_tasks := sub_tasks s @ [Stop]\<rparr>"

definition ChatService_new :: "config \<Rightarrow> 'db mysql_state \<Rightarrow> redis_pool \<Rightarrow> 'rd \<Rightarrow> ('db, 'rd) chat_state" where
  "ChatService_new cfg m p d =
     \<lparr>off = \<lparr>ms = m, failedQueue = []\<rparr>, rc = RedisClient_new cfg p d, userConnMap = [], groupMembers = [], sent = []\<rparr>"

definition ChatService_delete :: "('db, 'rd) chat_state \<Rightarrow> ('db, 'rd) chat_state" where
  "ChatService_delete w = w\<lparr>userConnMap := [], groupMembers := [], rc := RedisClient_delete (rc w)\<rparr>"

text \<open>
  \<open>getLocalNodeId\<close> with its static variable \<open>cached\<close>: the configured id unless it is empty or the
  default, otherwise one made of the host name and the process id, which the environment gives.
\<close>

definition getLocalNodeId :: "config \<Rightarrow> string \<Rightarrow> int \<Rightarrow> string \<Rightarrow> string \<times> string" where
  "getLocalNodeId cfg hostname pid cached =
     (if cached \<noteq> [] then (cached, cached)
      else if nodeId cfg \<noteq> [] \<and> nodeId cfg \<noteq> ''node-default'' then (nodeId cfg, nodeId cfg)
      else (hostname @ ''-'' @ to_string pid, hostname @ ''-'' @ to_string pid))"

subsection \<open>The subscriber thread\<close>

text \<open>
  Where the thread is: not yet running, in its loop with the handle it holds, or ended. An exception
  of \<open>subscribe\<close> during the start ends the thread after the handle is returned.
\<close>

datatype sub_thread = Sub_new | Sub_loop nat | Sub_ended

definition own_channels :: "'rd redis_state \<Rightarrow> string list" where
  "own_channels s = node_channel (localNodeId s) # map group_channel (sub_group_set s)"

definition subscriber_start :: "'rd redis_env \<Rightarrow> 'rd redis_state \<Rightarrow> sub_thread \<times> 'rd redis_state" where
  "subscriber_start R s =
     (case getConnFromPool R s of
        (None, s1) \<Rightarrow> (Sub_ended, s1)
      | (Some c, s1) \<Rightarrow>
          (case run_cmds R (map SUBSCRIBE (own_channels s1)) (rd s1) of
             (Inl e, d) \<Rightarrow> (Sub_ended, releaseConnToPool (Some c) (s1\<lparr>rd := d\<rparr>))
           | (Inr _, d) \<Rightarrow> (Sub_loop c, s1\<lparr>rd := d\<rparr>)))"

text \<open>The clean-up after the loop; an exception skips the rest of the unsubscriptions.\<close>

definition subscriber_finish :: "'rd redis_env \<Rightarrow> nat \<Rightarrow> 'rd redis_state \<Rightarrow> sub_thread \<times> 'rd redis_state" where
  "subscriber_finish R c s =
     (Sub_ended, releaseConnToPool (Some c) (s\<lparr>rd := snd (run_cmds R (map UNSUBSCRIBE (own_channels s)) (rd s))\<rparr>))"

text \<open>
  What the thread does next: \<open>consumed\<close> is the message \<open>consume\<close> gives in a turn of the loop.
\<close>

definition subscriber_next ::
  "('db, 'rd) chat_env \<Rightarrow> string option \<Rightarrow> sub_thread \<times> ('db, 'rd) chat_state \<Rightarrow> (sub_thread \<times> ('db, 'rd) chat_state) option" where
  "subscriber_next E consumed x =
     (case x of
        (Sub_new, w) \<Rightarrow> (case subscriber_start (c_redis E) (rc w) of (t, s) \<Rightarrow> Some (t, w\<lparr>rc := s\<rparr>))
      | (Sub_loop c, w) \<Rightarrow>
          (if rc_stopped (rc w)
           then (case subscriber_finish (c_redis E) c (rc w) of (t, s) \<Rightarrow> Some (t, w\<lparr>rc := s\<rparr>))
           else map_option (\<lambda>w'. (Sub_loop c, w')) (subscriber_turn E consumed w))
      | (Sub_ended, w) \<Rightarrow> Some (Sub_ended, w))"

subsection \<open>The callback\<close>

text \<open>
  \<open>inbox_callback_\<close> is empty until the service registers it; \<open>dispatchMessageToLocal\<close> then calls it.
  The subscriber thread starts before the registration, so an early message can be dropped.
\<close>

type_synonym ('db, 'rd) callback =
  "json \<Rightarrow> ('db, 'rd) chat_state \<Rightarrow> ((cpp_exn + unit) \<times> ('db, 'rd) chat_state) option"

definition setInboxCallback :: "('db, 'rd) callback \<Rightarrow> ('db, 'rd) callback option \<Rightarrow> ('db, 'rd) callback option" where
  "setInboxCallback cb old = Some cb"

definition dispatchMessageToLocal ::
  "('db, 'rd) callback option \<Rightarrow> json \<Rightarrow> ('db, 'rd) chat_state \<Rightarrow> ((cpp_exn + unit) \<times> ('db, 'rd) chat_state) option" where
  "dispatchMessageToLocal cb j w = (case cb of None \<Rightarrow> Some (Inr (), w) | Some f \<Rightarrow> f j w)"

text \<open>With the service's callback registered this is what \<open>on_message\<close> does.\<close>

lemma on_message_dispatch:
  "on_message E msg w =
     (case c_parse E msg of
        None \<Rightarrow> Some w
      | Some j \<Rightarrow> map_option snd (dispatchMessageToLocal (setInboxCallback (inbox_callback E) None) j w))"
  by (cases "c_parse E msg") (simp_all add: on_message_def dispatchMessageToLocal_def setInboxCallback_def)

subsection \<open>ChatServer and main\<close>

record ('db, 'rd) chat_server =
  cs_ip :: string
  cs_port :: int
  cs_name :: string
  cs_threads :: nat
  cs_started :: bool
  connectionCallback :: "nat \<Rightarrow> bool \<Rightarrow> ('db, 'rd) chat_state \<Rightarrow> ('db, 'rd) chat_state"
  messageCallback :: "nat \<Rightarrow> string \<Rightarrow> ('db, 'rd) chat_state \<Rightarrow> ('db, 'rd) chat_state option"

definition ChatServer_new :: "('db, 'rd) chat_env \<Rightarrow> string \<Rightarrow> int \<Rightarrow> string \<Rightarrow> ('db, 'rd) chat_server" where
  "ChatServer_new E ip port name =
     \<lparr>cs_ip = ip, cs_port = port, cs_name = name, cs_threads = 4, cs_started = False,
      connectionCallback = onConnection E, messageCallback = onMessage E\<rparr>"

definition ChatServer_start :: "('db, 'rd) chat_server \<Rightarrow> ('db, 'rd) chat_server" where
  "ChatServer_start srv = srv\<lparr>cs_started := True\<rparr>"

text \<open>
  \<open>main\<close>: \<open>D\<close> is the MySQL connector, \<open>mk\<close> makes Redis handles. An exception of the MySQL pool
  leaves \<open>main\<close>. The service is constructed, and with it the Redis client and its thread, by the
  first call of \<open>ChatService::instance\<close>. The result is the server, the service and the thread.
\<close>

definition server_main ::
  "'db sql_driver \<Rightarrow> (string \<Rightarrow> int \<Rightarrow> string \<Rightarrow> nat \<Rightarrow> nat option) \<Rightarrow> ('db, 'rd) chat_env \<Rightarrow> config \<Rightarrow> 'db \<Rightarrow> 'rd \<Rightarrow>
   (sql_exc, ('db, 'rd) chat_server \<times> sub_thread \<times> ('db, 'rd) chat_state) outcome" where
  "server_main D mk E cfg d r =
     (let server = ChatServer_new E ''127.0.0.1'' 2222 ''ChatServer'' in
      case initPool D ''tcp://127.0.0.1:3306'' ''chat'' ''root'' ''123456'' 8 MySQLConnectionPool_new d of
        (Throw e, p, d1) \<Rightarrow> Throw e
      | (Undef, p, d1) \<Rightarrow> Undef
      | (Ret _, p, d1) \<Rightarrow>
          (let redisPool = RedisPool_init mk ''127.0.0.1'' 6379 8 [] RedisConnectionPool_new;
               service = ChatService_new cfg \<lparr>pool = p, db = d1\<rparr> redisPool r
           in Ret (ChatServer_start server, Sub_new, ChatService_reset E service)))"

text \<open>
  \<open>SIGINT\<close>: the service is reset and \<open>exit\<close> destroys it; the \<open>join\<close> of the Redis client then
  waits for the subscriber thread.
\<close>

definition statusResetHandler :: "('db, 'rd) chat_env \<Rightarrow> ('db, 'rd) chat_state \<Rightarrow> ('db, 'rd) chat_state" where
  "statusResetHandler E w = ChatService_delete (ChatService_reset E w)"

text \<open>A step of the running process.\<close>

inductive server_step ::
  "('db, 'rd) chat_env \<Rightarrow> ('db, 'rd) chat_server \<Rightarrow> sub_thread \<times> ('db, 'rd) chat_state \<Rightarrow> sub_thread \<times> ('db, 'rd) chat_state \<Rightarrow> bool"
  for E :: "('db, 'rd) chat_env" and srv :: "('db, 'rd) chat_server" where
  message: "\<lbrakk>cs_started srv; messageCallback srv conn buf w = Some w'\<rbrakk> \<Longrightarrow> server_step E srv (t, w) (t, w')"
| connection: "cs_started srv \<Longrightarrow> server_step E srv (t, w) (t, connectionCallback srv conn connected w)"
| thread: "subscriber_next E consumed x = Some y \<Longrightarrow> server_step E srv x y"
| interrupt: "server_step E srv (t, w) (t, statusResetHandler E w)"

inductive_cases server_stepE: "server_step E srv x y"

end
