(* ===== verification/Startup_Properties.thy ===== *)
theory Startup_Properties
  imports Startup
begin

section \<open>Properties of start-up and shutdown\<close>

text \<open>
  What \<open>main\<close> brings up, what holds in every state of the running process including the life of the
  subscriber thread, and that an interrupt ends the thread and returns its handle.
\<close>

subsection \<open>Starting\<close>

text \<open>What start-up relies on: the connector gives connections and leaves the tables alone.\<close>

definition connector_ok :: "'db sql_driver \<Rightarrow> ('db \<Rightarrow> tables) \<Rightarrow> bool" where
  "connector_ok D tv \<longleftrightarrow> drv_instance D \<and>
     (\<forall>url usr pw d. \<exists>c d'. drv_connect D url usr pw d = (Inr (Some c), d') \<and> tv d' = tv d) \<and>
     (\<forall>c n d. \<exists>d'. drv_setSchema D c n d = (Inr (), d') \<and> tv d' = tv d)"

lemma createConnection_ok:
  assumes "connector_ok D tv" and "mp_driver p"
  obtains c d' where "createConnection D p d = (Ret (Some c), d')" and "tv d' = tv d"
proof -
  obtain c d1 where c: "drv_connect D (mp_url p) (mp_user p) (mp_password p) d = (Inr (Some c), d1)" "tv d1 = tv d"
    using assms(1) unfolding connector_ok_def by blast
  obtain d2 where "drv_setSchema D c (mp_datebaseName p) d1 = (Inr (), d2)" "tv d2 = tv d1"
    using assms(1) unfolding connector_ok_def by blast
  with c assms(2) that show thesis by (simp add: createConnection_def)
qed

lemma initConnection_loop_ok:
  assumes "connector_ok D tv" and "mp_driver p"
  shows "\<exists>p' d'. initConnection_loop D n p d = (Ret (), p', d') \<and> tv d' = tv d"
  using assms(2)
proof (induction n arbitrary: p d)
  case 0
  then show ?case by simp
next
  case (Suc n)
  obtain c d1 where c: "createConnection D p d = (Ret (Some c), d1)" "tv d1 = tv d"
    using createConnection_ok [OF assms(1) Suc.prems] .
  from Suc.IH [of "p\<lparr>connections := connections p @ [Some c]\<rparr>" d1] Suc.prems c show ?case by simp
qed

lemma reset_ok:
  assumes "mysql_reliable cfg (c_sql E) tv" and "available (ms (off w))"
  shows "t_User (tv (db (ms (off (ChatService_reset E w))))) =
      map (\<lambda>(i, n, p, s). (i, n, p, if s = ''online'' then ''offline'' else s)) (t_User (tv (db (ms (off w))))) \<and>
    mset (connections (pool (ms (off (ChatService_reset E w))))) = mset (connections (pool (ms (off w))))"
proof -
  obtain c cs where c: "connections (pool (ms (off w))) = Some c # cs" using assms(2) by (rule available_Cons)
  obtain rows d' where "c_sql E c ResetUserState (db (ms (off w))) = (Inr rows, d')"
    "sql_effect cfg c ResetUserState (tv (db (ms (off w)))) rows (tv d')"
    by (rule mysql_reliable.exec_ok [OF assms(1), of ResetUserState "db (ms (off w))" c]) simp_all
  with c show ?thesis
    by (simp add: ChatService_reset_def on_mysql_eq UserModel_resetState_def sql_call_conn query_with_def)
qed

lemma reset_frame [simp]:
  "rc (ChatService_reset E w) = rc w" "userConnMap (ChatService_reset E w) = userConnMap w"
  "groupMembers (ChatService_reset E w) = groupMembers w" "sent (ChatService_reset E w) = sent w"
  by (simp_all add: ChatService_reset_def on_mysql_eq)

text \<open>What \<open>main\<close> brought up, whenever it got as far as the event loop.\<close>

lemma server_main_Ret:
  assumes "server_main D mk E cf d r = Ret (srv, t, w)"
  shows "srv = ChatServer_start (ChatServer_new E ''127.0.0.1'' 2222 ''ChatServer'')" "t = Sub_new"
    "rc w = RedisClient_new cf (RedisPool_init mk ''127.0.0.1'' 6379 8 [] RedisConnectionPool_new) r"
    "userConnMap w = []" "groupMembers w = []"
  using assms by (auto simp: server_main_def Let_def ChatService_new_def split: outcome.splits prod.splits)

lemma redis_pool_made:
  "rp_conns (RedisPool_init mk h pt (int n) pw RedisConnectionPool_new) = List.map_filter (mk h pt pw) [0..<n]"
  by (simp add: RedisPool_init_def RedisPool_init_loop_conns RedisConnectionPool_new_def)

text \<open>
  C21. With a working connector and database \<open>main\<close> gets to the event loop: the server listens with
  the callbacks of \<open>ChatServer\<close>, the MySQL pool holds eight connections and no null pointer, every
  user the tables had as online is offline, the others keep their state, the Redis pool has the
  handles that could be made, and nobody is connected.
\<close>

theorem startup_correct:
  assumes "mysql_reliable cfg (c_sql E) tv" and "connector_ok D tv"
  shows "\<exists>srv w. server_main D mk E cf d r = Ret (srv, Sub_new, w) \<and> cs_started srv \<and>
    messageCallback srv = onMessage E \<and> connectionCallback srv = onConnection E \<and>
    length (connections (pool (ms (off w)))) = 8 \<and> no_null (pool (ms (off w))) \<and>
    t_User (tv (db (ms (off w)))) = map (\<lambda>(i, n, p, s). (i, n, p, if s = ''online'' then ''offline'' else s)) (t_User (tv d)) \<and>
    rp_conns (rpool (rc w)) = List.map_filter (mk ''127.0.0.1'' 6379 []) [0..<8] \<and>
    userConnMap w = [] \<and> groupMembers w = []"
proof -
  let ?p = "MySQLConnectionPool_new\<lparr>mp_url := ''tcp://127.0.0.1:3306'', mp_datebaseName := ''chat'', mp_user := ''root'',
      mp_password := ''123456'', mp_poolSize := 8, mp_driver := True\<rparr>"
  have inst: "drv_instance D" using assms(2) by (simp add: connector_ok_def)
  obtain p d1 where p: "initConnection_loop D 8 ?p d = (Ret (), p, d1)" "tv d1 = tv d"
    using initConnection_loop_ok [OF assms(2), of ?p 8 d] by auto
  have "no_null p" "length (connections p) = 8"
    using initConnection_loop_Ret [OF p(1)] by (simp_all add: no_null_def MySQLConnectionPool_new_def)
  define w where "w = ChatService_new cf \<lparr>pool = p, db = d1\<rparr> (RedisPool_init mk ''127.0.0.1'' 6379 8 [] RedisConnectionPool_new) r"
  have "available (ms (off w))" using \<open>no_null p\<close> \<open>length (connections p) = 8\<close> by (auto simp: w_def ChatService_new_def available_def)
  note r = reset_ok [OF assms(1) this]
  have m: "server_main D mk E cf d r = Ret (ChatServer_start (ChatServer_new E ''127.0.0.1'' 2222 ''ChatServer''), Sub_new, ChatService_reset E w)"
    using p inst by (simp add: server_main_def initPool_def initConnection_def Let_def w_def)
  have "mset (connections (pool (ms (off (ChatService_reset E w))))) = mset (connections p)"
    using r by (simp add: w_def ChatService_new_def)
  then have "length (connections (pool (ms (off (ChatService_reset E w))))) = 8 \<and> no_null (pool (ms (off (ChatService_reset E w))))"
    using \<open>no_null p\<close> \<open>length (connections p) = 8\<close> unfolding no_null_def by (metis mset_eq_length mset_eq_setD)
  with m r p(2) redis_pool_made [of mk "''127.0.0.1''" 6379 8 "[]"] show ?thesis
    by (simp add: w_def ChatService_new_def RedisClient_new_def ChatServer_start_def ChatServer_new_def)
qed

definition ex_connector :: "tables sql_driver" where
  "ex_connector = \<lparr>drv_instance = True, drv_connect = (\<lambda>_ _ _ d. (Inr (Some 0), d)), drv_setSchema = (\<lambda>_ _ d. (Inr (), d)),
     drv_close = (\<lambda>_ d. (Inr (), d))\<rparr>"

lemma ex_connector_ok: "connector_ok ex_connector (\<lambda>t. t)"
  by (simp add: connector_ok_def ex_connector_def)

theorem startup_correct_witness:
  "\<exists>srv w. server_main ex_connector (\<lambda>h p pw i. Some i) ex_env Config_initial
      (ex_tables\<lparr>t_User := [(1, ''ann'', ''pa'', ''online'')]\<rparr>) ex_ks = Ret (srv, Sub_new, w) \<and>
    t_User (db (ms (off w))) = [(1, ''ann'', ''pa'', ''offline'')]"
  using startup_correct [OF ex_env_sql ex_connector_ok, of "\<lambda>h p pw i. Some i" Config_initial
      "ex_tables\<lparr>t_User := [(1, ''ann'', ''pa'', ''online'')]\<rparr>" ex_ks]
  by auto

text \<open>
  When MySQL cannot be reached at start-up nothing else is tried: an exception of the first
  connection attempt leaves \<open>main\<close>, and when already the driver cannot be had, \<open>initPool\<close> goes on
  and uses the pointer that was never set.
\<close>

theorem startup_without_mysql:
  assumes "\<not> drv_instance D \<or> (\<exists>e d'. drv_connect D ''tcp://127.0.0.1:3306'' ''root'' ''123456'' d = (Inl e, d'))"
  shows "server_main D mk E cf d r =
    (if drv_instance D then Throw (projl (fst (drv_connect D ''tcp://127.0.0.1:3306'' ''root'' ''123456'' d))) else Undef)"
  using assms
  by (auto simp: server_main_def initPool_def initConnection_def Let_def createConnection_def MySQLConnectionPool_new_def
      eval_nat_numeral)

theorem startup_without_mysql_witness:
  "server_main (ex_connector\<lparr>drv_instance := False\<rparr>) (\<lambda>h p pw i. Some i) ex_env Config_initial ex_tables ex_ks = Undef"
  using startup_without_mysql [of "ex_connector\<lparr>drv_instance := False\<rparr>" ex_tables "\<lambda>h p pw i. Some i" ex_env Config_initial ex_ks] by simp

text \<open>
  The node id of a node is the one of the configuration, and nothing in the server loads one. So
  every node started by \<open>main\<close> has the empty node id and listens on the same inbox channel, whatever
  its host and process are; \<open>getLocalNodeId\<close>, which would tell them apart, is not used for it.
\<close>

theorem nodes_share_inbox:
  assumes "server_main D mk E Config_initial d r = Ret (srv, t, w)"
  shows "own_channels (rc w) = [''node::inbox''] \<and>
    fst (getLocalNodeId Config_initial host pid cached) \<noteq> localNodeId (rc w)"
  using server_main_Ret(3) [OF assms]
  by (auto simp: own_channels_def node_channel_def RedisClient_new_def Config_initial_def getLocalNodeId_def)

lemma ex_main:
  obtains srv w where "server_main ex_connector (\<lambda>h p pw i. Some i) ex_env Config_initial ex_tables ks = Ret (srv, Sub_new, w)"
  by (simp add: server_main_def initPool_def initConnection_def createConnection_def MySQLConnectionPool_new_def
      ex_connector_def eval_nat_numeral)

theorem nodes_share_inbox_witness:
  "\<exists>srv t w. server_main ex_connector (\<lambda>h p pw i. Some i) ex_env Config_initial ex_tables ex_ks = Ret (srv, t, w) \<and>
    own_channels (rc w) = [''node::inbox'']"
proof -
  obtain srv w where m: "server_main ex_connector (\<lambda>h p pw i. Some i) ex_env Config_initial ex_tables ex_ks = Ret (srv, Sub_new, w)"
    by (rule ex_main)
  from nodes_share_inbox [OF m, of "''host''" 1 "[]"] m show ?thesis by blast
qed

subsection \<open>Channels\<close>

text \<open>The subscribed channels are those of the subscribed groups and \<open>X\<close>.\<close>

definition subscribed :: "string set \<Rightarrow> keyspace \<Rightarrow> int list \<Rightarrow> bool" where
  "subscribed X ks gs \<longleftrightarrow> set (channels ks) = X \<union> group_channel ` set gs"

lemma node_channel_not_group [simp]: "node_channel n \<noteq> group_channel g" "group_channel g \<noteq> node_channel n"
  by (simp_all add: node_channel_def group_channel_def)

lemma group_channel_image: "group_channel g \<in> group_channel ` G \<longleftrightarrow> g \<in> G"
  by (auto simp: key_simps)

lemma localNodeId_run: "localNodeId (run_sub_tasks R ts s) = localNodeId s"
  by (induction R ts s rule: run_sub_tasks.induct) (auto split: prod.splits sum.splits)

lemma localNodeId_client: "client_op R f \<Longrightarrow> localNodeId (f s) = localNodeId s"
  by (auto elim!: client_op.cases frame_op.cases simp: client_ops process_sub_tasks_def localNodeId_run subscribeGroupChannel_def unsubscribeGroupChannel_def)

context redis_reliable
begin

lemma run_sub_tasks_subscribed:
  assumes "r_exec R = exec" and "X \<subseteq> {node_channel n}" and "subscribed X (view (rd s)) (sub_group_set s)"
  shows "subscribed X (view (rd (run_sub_tasks R ts s))) (sub_group_set (run_sub_tasks R ts s))"
  using assms
proof (induction R ts s rule: run_sub_tasks.induct)
  case (2 R g ts s)
  obtain d where d: "exec (SUBSCRIBE (group_channel g)) (rd s) = (Inr RDone, d)"
    "set (channels (view d)) = insert (group_channel g) (set (channels (view (rd s))))" by (rule subscribe_ok)
  with 2 show ?case by (simp add: subscribed_def)
next
  case (3 R g ts s)
  obtain d where d: "exec (UNSUBSCRIBE (group_channel g)) (rd s) = (Inr RDone, d)"
    "set (channels (view d)) = set (channels (view (rd s))) - {group_channel g}" by (rule unsubscribe_ok)
  have x: "group_channel g \<notin> X" using "3.prems"(2) by auto
  have im: "group_channel ` (G - {g}) = group_channel ` G - {group_channel g}" for G
    by (auto simp: key_simps)
  have "subscribed X (view d) (ss_erase g (sub_group_set s))"
    using "3.prems"(3) d(2) x by (auto simp: subscribed_def im)
  with 3 d show ?case by simp
qed simp_all

lemma subscribed_invariant:
  assumes "r_exec (c_redis E) = exec" and "X \<subseteq> {node_channel n}"
  shows "node_invariant E (\<lambda>st. True) (\<lambda>s. localNodeId s = n \<and> subscribed X (view (rd s)) (sub_group_set s)) (\<lambda>um. True) (\<lambda>gm. True)"
proof (rule node_invariantI)
  fix f and s :: "'a redis_state"
  assume f: "client_op (c_redis E) f" and s: "localNodeId s = n \<and> subscribed X (view (rd s)) (sub_group_set s)"
  show "localNodeId (f s) = n \<and> subscribed X (view (rd (f s))) (sub_group_set (f s))"
  proof (cases "f = process_sub_tasks (c_redis E)")
    case True
    with s localNodeId_client [OF f] show ?thesis
      by (simp add: process_sub_tasks_def localNodeId_run run_sub_tasks_subscribed [OF assms])
  next
    case False
    with s client_op_channels [OF assms(1) f] localNodeId_client [OF f] show ?thesis by (simp add: subscribed_def)
  qed
qed simp_all

lemma run_subscribes:
  assumes "r_exec R = exec"
  obtains d' where "run_cmds R (map SUBSCRIBE chs) d = (Inr (), d')"
    and "set (channels (view d')) = set (channels (view d)) \<union> set chs"
proof -
  have "\<exists>d'. run_cmds R (map SUBSCRIBE chs) d = (Inr (), d') \<and> set (channels (view d')) = set (channels (view d)) \<union> set chs"
  proof (induction chs arbitrary: d)
    case (Cons ch chs)
    obtain d1 where d1: "exec (SUBSCRIBE ch) d = (Inr RDone, d1)" "set (channels (view d1)) = insert ch (set (channels (view d)))"
      by (rule subscribe_ok)
    with Cons [of d1] assms show ?case by auto
  qed simp
  with that show thesis by blast
qed

lemma run_unsubscribes:
  assumes "r_exec R = exec"
  shows "set (channels (view (snd (run_cmds R (map UNSUBSCRIBE chs) d)))) = set (channels (view d)) - set chs"
proof (induction chs arbitrary: d)
  case (Cons ch chs)
  obtain d1 where d1: "exec (UNSUBSCRIBE ch) d = (Inr RDone, d1)" "set (channels (view d1)) = set (channels (view d)) - {ch}"
    by (rule unsubscribe_ok)
  with Cons [of d1] assms show ?case by auto
qed simp

end

subsection \<open>Handles\<close>

text \<open>
  While an operation waits for a handle no other thread takes or returns one: the operations of this
  model happen one after the other.
\<close>

definition quiet :: "'rd redis_env \<Rightarrow> bool" where
  "quiet R \<longleftrightarrow> (\<forall>p. mset (rp_conns (r_others R p)) = mset (rp_conns p) \<and> rp_stopped (r_others R p) = rp_stopped p)"

definition opt_mset :: "'a option \<Rightarrow> 'a multiset" where
  "opt_mset x = (case x of None \<Rightarrow> {#} | Some c \<Rightarrow> {#c#})"

text \<open>The handles of the pool and the one the subscriber thread holds.\<close>

definition all_handles :: "sub_thread \<Rightarrow> 'rd redis_state \<Rightarrow> nat multiset" where
  "all_handles t s = mset (rp_conns (rpool s)) + opt_mset (case t of Sub_loop c \<Rightarrow> Some c | _ \<Rightarrow> None)"

lemma acquire_front_conserves:
  "acquire_front p = (conn, p') \<Longrightarrow> mset (rp_conns p') + opt_mset conn = mset (rp_conns p)"
  by (auto simp: acquire_front_def opt_mset_def split: if_splits list.splits)

lemma getConnFromPool_conserves:
  assumes "quiet R" and "getConnFromPool R s = (conn, s')"
  shows "mset (rp_conns (rpool s')) + opt_mset conn = mset (rp_conns (rpool s))" "s' = s\<lparr>rpool := rpool s'\<rparr>"
proof -
  obtain p where p: "acquire (r_others R) pool_wait_ms (rpool s) = Some (conn, p)" "s' = s\<lparr>rpool := p\<rparr>"
    using assms(2) acquire_returns [of pool_wait_ms "r_others R" "rpool s"]
    by (auto simp: getConnFromPool_def pool_wait_ms_def split: prod.splits)
  then show "mset (rp_conns (rpool s')) + opt_mset conn = mset (rp_conns (rpool s))" "s' = s\<lparr>rpool := rpool s'\<rparr>"
    using assms(1) acquire_front_conserves [of "rpool s" conn p] acquire_front_conserves [of "r_others R (rpool s)" conn p]
    by (auto simp: acquire_def Let_def quiet_def opt_mset_def split: if_splits)
qed

lemma releaseConnToPool_conns [simp]:
  "rp_conns (rpool (releaseConnToPool (Some c) s)) = rp_conns (rpool s) @ [c]"
  by (simp add: releaseConnToPool_def release_def)

lemma releaseConnToPool_fields [simp]:
  "rd (releaseConnToPool c s) = rd s" "localNodeId (releaseConnToPool c s) = localNodeId s"
  "sub_group_set (releaseConnToPool c s) = sub_group_set s"
  by (simp_all add: releaseConnToPool_def)

lemma redis_call_quiet:
  assumes "quiet R"
  shows "mset (rp_conns (rpool (snd (redis_call R a b body s)))) = mset (rp_conns (rpool s))"
proof -
  obtain conn s1 where g: "getConnFromPool R s = (conn, s1)" by fastforce
  from getConnFromPool_conserves(1) [OF assms g] g show ?thesis
    by (auto simp: redis_call_def opt_mset_def split: option.splits prod.splits sum.splits)
qed

lemma rpool_run_sub_tasks: "rpool (run_sub_tasks R ts s) = rpool s"
  by (induction R ts s rule: run_sub_tasks.induct) (auto split: prod.splits sum.splits)

lemma client_op_quiet:
  assumes "quiet R" and "client_op R f"
  shows "mset (rp_conns (rpool (f s))) = mset (rp_conns (rpool s))"
  using assms(2)
  by (auto elim!: client_op.cases frame_op.cases simp: client_ops redis_call_quiet [OF assms(1)] process_sub_tasks_def
      rpool_run_sub_tasks subscribeGroupChannel_def unsubscribeGroupChannel_def)

lemma handles_invariant:
  assumes "quiet (c_redis E)"
  shows "node_invariant E (\<lambda>st. True) (\<lambda>s. mset (rp_conns (rpool s)) = H) (\<lambda>um. True) (\<lambda>gm. True)"
  by (rule node_invariantI) (simp_all add: client_op_quiet [OF assms])

subsection \<open>The running process\<close>

text \<open>
  What holds in every state: \<open>n\<close> is the node id, \<open>H\<close> the handles made at start-up. Before the
  subscriber thread has started only groups may be subscribed; while it is in its loop its channels
  are exactly the inbox and the groups of \<open>sub_group_set_\<close>.
\<close>

definition listening :: "string \<Rightarrow> sub_thread \<Rightarrow> string set" where
  "listening n t = (case t of Sub_loop c \<Rightarrow> {node_channel n} | _ \<Rightarrow> {})"

definition server_inv :: "('rd \<Rightarrow> keyspace) \<Rightarrow> string \<Rightarrow> nat multiset \<Rightarrow> sub_thread \<times> ('db, 'rd) chat_state \<Rightarrow> bool" where
  "server_inv rv n H x \<longleftrightarrow>
     (case x of (t, w) \<Rightarrow> um_wf (userConnMap w) \<and> groups_wf (groupMembers w) \<and>
        all_handles t (rc w) = H \<and> localNodeId (rc w) = n \<and>
        (t = Sub_ended \<or> subscribed (listening n t) (rv (rd (rc w))) (sub_group_set (rc w))))"

lemma node_step_server_inv:
  assumes "redis_reliable (r_exec (c_redis E)) rv" and "quiet (c_redis E)" and "node_step E w w'" and "server_inv rv n H (t, w)"
  shows "server_inv rv n H (t, w')"
proof -
  have maps: "um_wf (userConnMap w') \<and> groups_wf (groupMembers w')"
    using maps_inv.inv_step [OF assms(3)] assms(4) by (simp add: maps_inv.node_inv_def server_inv_def)
  note h = handles_invariant [OF assms(2), of "mset (rp_conns (rpool (rc w)))"]
  have handles: "mset (rp_conns (rpool (rc w'))) = mset (rp_conns (rpool (rc w)))"
    using node_invariant.inv_step [OF h assms(3)] by (simp add: node_invariant.node_inv_iff [OF h])
  have l: "listening n t \<subseteq> {node_channel n}" by (cases t) (simp_all add: listening_def)
  have nm: "localNodeId (rc w') = n \<and> (t = Sub_ended \<or> subscribed (listening n t) (rv (rd (rc w'))) (sub_group_set (rc w')))"
  proof (cases "t = Sub_ended")
    case True
    have i: "node_invariant E (\<lambda>st. True) (\<lambda>s. localNodeId s = n) (\<lambda>um. True) (\<lambda>gm. True)"
      by (rule node_invariantI) (simp_all add: localNodeId_client)
    from node_invariant.inv_step [OF i assms(3)] assms(4) True show ?thesis
      by (simp add: node_invariant.node_inv_iff [OF i] server_inv_def)
  next
    case False
    note i = redis_reliable.subscribed_invariant [OF assms(1) refl l]
    from node_invariant.inv_step [OF i assms(3)] assms(4) False show ?thesis
      by (simp add: node_invariant.node_inv_iff [OF i] server_inv_def)
  qed
  from maps handles nm assms(4) show ?thesis by (simp add: server_inv_def all_handles_def)
qed

lemma subscriber_start_inv:
  assumes "redis_reliable (r_exec R) rv" and "quiet R" and "subscriber_start R s = (t, s')"
    and "subscribed {} (rv (rd s)) (sub_group_set s)"
  shows "all_handles t s' = mset (rp_conns (rpool s)) \<and> localNodeId s' = localNodeId s \<and> rc_stopped s' = rc_stopped s \<and> t \<noteq> Sub_new \<and>
    (t = Sub_ended \<or> subscribed (listening (localNodeId s) t) (rv (rd s')) (sub_group_set s'))"
proof -
  obtain conn s1 where g: "getConnFromPool R s = (conn, s1)" by fastforce
  note c = getConnFromPool_conserves [OF assms(2) g]
  have s1: "rd s1 = rd s" "localNodeId s1 = localNodeId s" "sub_group_set s1 = sub_group_set s" "rc_stopped s1 = rc_stopped s"
    by (subst c(2), simp)+
  show ?thesis
  proof (cases conn)
    case None
    with assms(3) g c(1) s1 show ?thesis by (auto simp: subscriber_start_def all_handles_def opt_mset_def)
  next
    case (Some k)
    obtain d' where d: "run_cmds R (map SUBSCRIBE (own_channels s1)) (rd s1) = (Inr (), d')"
      "set (channels (rv d')) = set (channels (rv (rd s1))) \<union> set (own_channels s1)"
      by (rule redis_reliable.run_subscribes [OF assms(1) refl])
    from assms(3) Some g d(1) have "t = Sub_loop k" "s' = s1\<lparr>rd := d'\<rparr>" by (simp_all add: subscriber_start_def)
    with c(1) s1 d(2) assms(4) Some show ?thesis
      by (simp add: all_handles_def opt_mset_def listening_def subscribed_def own_channels_def)
  qed
qed

lemma subscriber_finish_ok:
  assumes "redis_reliable (r_exec R) rv" and "subscriber_finish R c s = (t, s')"
  shows "t = Sub_ended \<and> all_handles t s' = all_handles (Sub_loop c) s \<and> localNodeId s' = localNodeId s \<and>
    set (channels (rv (rd s'))) = set (channels (rv (rd s))) - set (own_channels s)"
proof -
  let ?s = "s\<lparr>rd := snd (run_cmds R (map UNSUBSCRIBE (own_channels s)) (rd s))\<rparr>"
  have "t = Sub_ended" and s': "s' = releaseConnToPool (Some c) ?s" using assms(2) by (simp_all add: subscriber_finish_def)
  moreover have "set (channels (rv (rd ?s))) = set (channels (rv (rd s))) - set (own_channels s)"
    using redis_reliable.run_unsubscribes [OF assms(1) refl] by simp
  ultimately show ?thesis by (simp add: all_handles_def opt_mset_def)
qed

lemma subscriber_next_inv:
  assumes "redis_reliable (r_exec (c_redis E)) rv" and "quiet (c_redis E)"
    and "subscriber_next E consumed (t, w) = Some y" and "server_inv rv n H (t, w)"
  shows "server_inv rv n H y"
proof (cases t)
  case Sub_new
  obtain t' s' where st: "subscriber_start (c_redis E) (rc w) = (t', s')" by fastforce
  have "subscribed {} (rv (rd (rc w))) (sub_group_set (rc w))"
    using assms(4) Sub_new by (simp add: server_inv_def listening_def)
  from subscriber_start_inv [OF assms(1,2) st this] assms(3,4) st Sub_new show ?thesis
    by (auto simp: subscriber_next_def server_inv_def all_handles_def [of Sub_new] opt_mset_def)
next
  case (Sub_loop c)
  show ?thesis
  proof (cases "rc_stopped (rc w)")
    case True
    obtain t' s' where "subscriber_finish (c_redis E) c (rc w) = (t', s')" by fastforce
    with subscriber_finish_ok [OF assms(1) this] assms(3,4) Sub_loop True show ?thesis
      by (auto simp: subscriber_next_def server_inv_def)
  next
    case False
    with assms(3) Sub_loop obtain w' where "subscriber_turn E consumed w = Some w'" "y = (t, w')"
      by (auto simp: subscriber_next_def)
    with node_step_server_inv [OF assms(1,2) node_step.subscriber assms(4)] show ?thesis by blast
  qed
next
  case Sub_ended
  with assms(3,4) show ?thesis by (simp add: subscriber_next_def)
qed

lemma interrupt_inv: "server_inv rv n H (t, w) \<Longrightarrow> server_inv rv n H (t, statusResetHandler E w)"
  by (simp add: server_inv_def statusResetHandler_def ChatService_delete_def RedisClient_delete_def all_handles_def groups_wf_def)

lemma server_step_inv:
  assumes "redis_reliable (r_exec (c_redis E)) rv" and "quiet (c_redis E)"
    and "server_step E (ChatServer_start (ChatServer_new E ip port name)) x y" and "server_inv rv n H x"
  shows "server_inv rv n H y"
  using assms(3)
proof cases
  case (message conn buf w w' t)
  then have "node_step E w w'" by (auto simp: ChatServer_start_def ChatServer_new_def intro: node_step.message)
  with message assms(4) show ?thesis by (simp add: node_step_server_inv [OF assms(1,2)])
next
  case (connection t w conn connected)
  then have "node_step E w (snd y)" by (auto simp: ChatServer_start_def ChatServer_new_def intro: node_step.connection)
  with connection assms(4) show ?thesis by (simp add: node_step_server_inv [OF assms(1,2)])
next
  case (thread consumed)
  with assms(4) show ?thesis by (cases x) (auto intro: subscriber_next_inv [OF assms(1,2)])
next
  case (interrupt t w)
  with assms(4) show ?thesis by (simp add: interrupt_inv)
qed

lemma server_main_inv:
  assumes "redis_reliable (r_exec (c_redis E)) rv" and "quiet (c_redis E)"
    and "server_main D mk E cf d r = Ret (srv, x)" and "channels (rv r) = []" and "(server_step E srv)\<^sup>*\<^sup>* x y"
  shows "server_inv rv (nodeId cf) (mset (List.map_filter (mk ''127.0.0.1'' 6379 []) [0..<8])) y"
proof -
  obtain t0 w0 where x: "x = (t0, w0)" by fastforce
  note m = server_main_Ret [OF assms(3) [unfolded x]]
  have "server_inv rv (nodeId cf) (mset (List.map_filter (mk ''127.0.0.1'' 6379 []) [0..<8])) x"
    using m assms(4) redis_pool_made [of mk "''127.0.0.1''" 6379 8 "[]"]
    by (simp add: x server_inv_def all_handles_def opt_mset_def RedisClient_new_def listening_def subscribed_def groups_wf_def)
  with assms(5) show ?thesis
    unfolding m(1) by (induction rule: rtranclp_induct) (auto intro: server_step_inv [OF assms(1,2)])
qed

lemma ex_quiet: "quiet (c_redis ex_env)"
  by (simp add: quiet_def ex_env_def)

lemma ex_subscriber_starts:
  assumes "server_main ex_connector (\<lambda>h p pw i. Some i) ex_env Config_initial ex_tables ks = Ret (srv, t, w)"
  obtains w' where "server_step ex_env srv (t, w) (Sub_loop 0, w')" and "own_channels (rc w') = [''node::inbox'']"
proof -
  have c: "rp_conns (RedisPool_init (\<lambda>h p pw. Some) ''127.0.0.1'' 6379 8 [] RedisConnectionPool_new) = 0 # [1..<8]"
    using redis_pool_made [of "\<lambda>h p pw. Some" "''127.0.0.1''" 6379 8 "[]"] by (simp add: List.map_filter_def upt_conv_Cons)
  have st: "\<not> rp_stopped (RedisPool_init (\<lambda>h p pw. Some) ''127.0.0.1'' 6379 8 [] RedisConnectionPool_new)"
    by (simp add: RedisPool_init_def RedisPool_init_loop_stopped RedisConnectionPool_new_def)
  note m = server_main_Ret [OF assms]
  obtain w' where w': "subscriber_next ex_env None (t, w) = Some (Sub_loop 0, w')" "own_channels (rc w') = [''node::inbox'']"
    using m c st
    by (simp add: subscriber_next_def subscriber_start_def getConnFromPool_def RedisClient_new_def acquire_ready
        own_channels_def ex_env_def ref_redis_def Config_initial_def node_channel_def)
  with that show thesis by (blast intro: server_step.thread)
qed

text \<open>
  C5. On a working Redis server, with operations of the client that happen one after the other: in every
  state of the running process, from \<open>main\<close> on, with the subscriber thread starting,
  looping or ended, and interrupts included: the service's maps are well-formed; every Redis handle
  made at start-up is in the pool or held by the subscriber thread, none is lost or duplicated; and
  while the subscriber is in its loop it has subscribed exactly the node's inbox and the channels of
  \<open>sub_group_set_\<close>.
\<close>

theorem running_server_invariant:
  assumes "redis_reliable (r_exec (c_redis E)) rv" and "quiet (c_redis E)"
    and "server_main D mk E cf d r = Ret (srv, x)" and "channels (rv r) = []" and "(server_step E srv)\<^sup>*\<^sup>* x (t, w)"
  shows "um_wf (userConnMap w) \<and> groups_wf (groupMembers w) \<and>
    all_handles t (rc w) = mset (List.map_filter (mk ''127.0.0.1'' 6379 []) [0..<8]) \<and>
    (\<forall>c. t = Sub_loop c \<longrightarrow> set (channels (rv (rd (rc w)))) = set (own_channels (rc w)))"
  using server_main_inv [OF assms] by (auto simp: server_inv_def listening_def subscribed_def own_channels_def)

theorem running_server_invariant_witness:
  "\<exists>srv x w. server_main ex_connector (\<lambda>h p pw i. Some i) ex_env Config_initial ex_tables (ex_ks\<lparr>channels := []\<rparr>) = Ret (srv, x) \<and>
    (server_step ex_env srv)\<^sup>*\<^sup>* x (Sub_loop 0, w) \<and> set (channels (rd (rc w))) = {''node::inbox''}"
proof -
  obtain srv w0 where m: "server_main ex_connector (\<lambda>h p pw i. Some i) ex_env Config_initial ex_tables (ex_ks\<lparr>channels := []\<rparr>) = Ret (srv, Sub_new, w0)"
    by (rule ex_main)
  obtain w where w: "server_step ex_env srv (Sub_new, w0) (Sub_loop 0, w)" "own_channels (rc w) = [''node::inbox'']"
    using m by (rule ex_subscriber_starts)
  from running_server_invariant [OF ex_env_redis ex_quiet m _ r_into_rtranclp, OF _ w(1)] w m show ?thesis
    by (auto intro: r_into_rtranclp)
qed

text \<open>
  C20. After an interrupt the \<open>join\<close> of the destructor returns: whatever the subscriber thread was
  doing, two more steps of it end it, all handles made at start-up are back in the pool, and when the
  thread was in its loop no channel stays subscribed.
\<close>

theorem interrupt_ends_subscriber:
  assumes "redis_reliable (r_exec (c_redis E)) rv" and "quiet (c_redis E)"
    and "server_main D mk E cf d r = Ret (srv, x)" and "channels (rv r) = []" and "(server_step E srv)\<^sup>*\<^sup>* x (t, w)"
  shows "\<exists>x1 w2. subscriber_next E m1 (t, statusResetHandler E w) = Some x1 \<and> subscriber_next E m2 x1 = Some (Sub_ended, w2) \<and>
    mset (rp_conns (rpool (rc w2))) = mset (List.map_filter (mk ''127.0.0.1'' 6379 []) [0..<8]) \<and>
    (\<forall>c. t = Sub_loop c \<longrightarrow> channels (rv (rd (rc w2))) = [])"
proof -
  let ?w = "statusResetHandler E w" and ?H = "mset (List.map_filter (mk ''127.0.0.1'' 6379 []) [0..<8])"
  have i: "server_inv rv (nodeId cf) ?H (t, ?w)" by (rule interrupt_inv [OF server_main_inv [OF assms]])
  have stopped: "rc_stopped (rc ?w)" by (simp add: statusResetHandler_def ChatService_delete_def RedisClient_delete_def)
  have ends: "\<exists>w2. subscriber_next E m (Sub_loop c, v) = Some (Sub_ended, w2) \<and> mset (rp_conns (rpool (rc w2))) = ?H \<and>
      channels (rv (rd (rc w2))) = []" if v: "server_inv rv (nodeId cf) ?H (Sub_loop c, v)" "rc_stopped (rc v)" for c v m
  proof -
    obtain s' where f: "subscriber_finish (c_redis E) c (rc v) = (Sub_ended, s')" by (simp add: subscriber_finish_def)
    from subscriber_finish_ok [OF assms(1) f] v f show ?thesis
      by (auto simp: subscriber_next_def server_inv_def all_handles_def opt_mset_def listening_def subscribed_def own_channels_def)
  qed
  have ended: "subscriber_next E m (Sub_ended, v) = Some (Sub_ended, v)" for m v by (simp add: subscriber_next_def)
  show ?thesis
  proof (cases t)
    case Sub_new
    obtain t1 s1 where s: "subscriber_start (c_redis E) (rc ?w) = (t1, s1)" by fastforce
    then have n: "subscriber_next E m1 (t, ?w) = Some (t1, ?w\<lparr>rc := s1\<rparr>)" using Sub_new by (simp add: subscriber_next_def)
    have inv1: "server_inv rv (nodeId cf) ?H (t1, ?w\<lparr>rc := s1\<rparr>)" by (rule subscriber_next_inv [OF assms(1,2) n i])
    have "t1 \<noteq> Sub_new" "rc_stopped s1"
      using subscriber_start_inv [OF assms(1,2) s] i stopped Sub_new by (auto simp: server_inv_def listening_def)
    then consider k where "t1 = Sub_loop k" | "t1 = Sub_ended" by (cases t1) auto
    then show ?thesis
    proof cases
      case (1 k)
      with ends [of k "?w\<lparr>rc := s1\<rparr>" m2] inv1 \<open>rc_stopped s1\<close> n Sub_new show ?thesis by fastforce
    next
      case 2
      with n inv1 ended Sub_new show ?thesis by (auto simp: server_inv_def all_handles_def opt_mset_def)
    qed
  next
    case (Sub_loop c)
    with ends [of c ?w m1] i stopped ended show ?thesis by auto
  next
    case Sub_ended
    with i ended show ?thesis by (auto simp: server_inv_def all_handles_def opt_mset_def)
  qed
qed

theorem interrupt_ends_subscriber_witness:
  "\<exists>srv x w x1 w2. server_main ex_connector (\<lambda>h p pw i. Some i) ex_env Config_initial ex_tables (ex_ks\<lparr>channels := []\<rparr>) = Ret (srv, x) \<and>
    (server_step ex_env srv)\<^sup>*\<^sup>* x (Sub_loop 0, w) \<and> subscriber_next ex_env None (Sub_loop 0, statusResetHandler ex_env w) = Some x1 \<and>
    subscriber_next ex_env None x1 = Some (Sub_ended, w2) \<and> channels (rd (rc w2)) = []"
proof -
  obtain srv w0 where m: "server_main ex_connector (\<lambda>h p pw i. Some i) ex_env Config_initial ex_tables (ex_ks\<lparr>channels := []\<rparr>) = Ret (srv, Sub_new, w0)"
    by (rule ex_main)
  obtain w where w: "server_step ex_env srv (Sub_new, w0) (Sub_loop 0, w)"
    using m by (rule ex_subscriber_starts)
  from interrupt_ends_subscriber [OF ex_env_redis ex_quiet m _ r_into_rtranclp, OF _ w, of None None] w m show ?thesis
    by (fastforce intro: r_into_rtranclp)
qed

end
