(* ===== verification/Service_Threads.thy ===== *)
theory Service_Threads
  imports Chat_Service_Facts
begin

section \<open>The service under concurrency\<close>

text \<open>
  The network library runs the handlers on several threads, and the subscriber is one more. Between
  them are the two \<open>std::shared_mutex\<close> of \<open>ChatService\<close> and the \<open>callback_mutex_\<close> of
  \<open>RedisClient\<close>. Here every handler of \<open>src/server/chatservice.cpp\<close> is a program: a sequence of
  lock operations, as the code has them, and of atomic actions. An action is a piece of code under a
  lock, an operation of a data class, an operation of the Redis client, a task of the subscriber or a
  \<open>send\<close>; those protect themselves by locks of their own, which they give back before they return.
  An exception that leaves a handler ends the program of the message only.
\<close>

datatype mutex = Callback_mutex | Group_mutex | User_conn_mutex

datatype lock_mode = Shared | Unique

datatype 'w prog =
    Fin "cpp_exn + unit"
  | Act "'w \<Rightarrow> ('w \<times> 'w prog) option" \<comment> \<open>\<open>None\<close>: the action never returns\<close>
  | Lock mutex lock_mode "'w prog"
  | Unlock mutex "'w prog"

text \<open>A program on its own: \<open>None\<close> when it never returns.\<close>

primrec run :: "'w prog \<Rightarrow> 'w \<Rightarrow> ((cpp_exn + unit) \<times> 'w) option" where
  "run (Fin r) = (\<lambda>w. Some (r, w))"
| "run (Act f) = (\<lambda>w. case map_option (map_prod id run) (f w) of None \<Rightarrow> None | Some (w', g) \<Rightarrow> g w')"
| "run (Lock l m p) = run p"
| "run (Unlock l p) = run p"

type_synonym ('db, 'rd) service_prog = "('db, 'rd) chat_state prog"

definition Step :: "('w \<Rightarrow> 'w) \<Rightarrow> 'w prog \<Rightarrow> 'w prog" where
  "Step f p = Act (\<lambda>w. Some (f w, p))"

definition Mysql ::
  "('db mysql_state \<Rightarrow> 'a \<times> 'db mysql_state) \<Rightarrow> ('a \<Rightarrow> ('db, 'rd) service_prog) \<Rightarrow> ('db, 'rd) service_prog" where
  "Mysql f k = Act (\<lambda>w. case on_mysql f w of (v, w') \<Rightarrow> Some (w', k v))"

definition Redis ::
  "('rd redis_state \<Rightarrow> 'a \<times> 'rd redis_state) \<Rightarrow> ('a \<Rightarrow> ('db, 'rd) service_prog) \<Rightarrow> ('db, 'rd) service_prog" where
  "Redis f k = Act (\<lambda>w. case on_redis f w of (v, w') \<Rightarrow> Some (w', k v))"

definition Store ::
  "('db, 'rd) chat_env \<Rightarrow> int \<Rightarrow> string \<Rightarrow> ('db, 'rd) service_prog \<Rightarrow> ('db, 'rd) service_prog" where
  "Store E u text p =
     Act (\<lambda>w. case OfflineMessage_insert (c_sql E) u text (off w) of
                None \<Rightarrow> None
              | Some (stored_ok, o') \<Rightarrow> Some (w\<lparr>off := o'\<rparr>, p))"

subsection \<open>login\<close>

fun friend_texts_prog ::
  "('db, 'rd) chat_env \<Rightarrow> user list \<Rightarrow> (string list \<Rightarrow> ('db, 'rd) service_prog) \<Rightarrow> ('db, 'rd) service_prog" where
  "friend_texts_prog E [] k = k []"
| "friend_texts_prog E (u # us) k =
     Redis (isUserOnline (c_redis E) (user_id u)) (\<lambda>online.
       friend_texts_prog E us (\<lambda>texts.
         k (c_dump E (json_obj [(''id'', JInt (user_id u)), (''name'', JStr (user_name u)),
                                (''state'', JStr (online_text online))]) # texts)))"

definition login_friends_prog ::
  "('db, 'rd) chat_env \<Rightarrow> int \<Rightarrow> ((string \<times> json) list \<Rightarrow> ('db, 'rd) service_prog) \<Rightarrow> ('db, 'rd) service_prog" where
  "login_friends_prog E i k =
     Redis (redis_get (c_redis E) (friends_key i)) (\<lambda>cachedFriends.
       if cachedFriends \<noteq> None then k []
       else Mysql (FriendModel_query (c_sql E) i) (\<lambda>vFriendList.
         if vFriendList = [] then k []
         else friend_texts_prog E vFriendList (\<lambda>tempFriendList.
           Redis (redis_set (c_redis E) (friends_key i) (c_dump E (JArr (map JStr tempFriendList))) 3600)
             (\<lambda>_. k [(''friends'', JArr (map JStr tempFriendList))]))))"

fun member_texts_prog ::
  "('db, 'rd) chat_env \<Rightarrow> groupuser list \<Rightarrow> (string list \<Rightarrow> ('db, 'rd) service_prog) \<Rightarrow> ('db, 'rd) service_prog" where
  "member_texts_prog E [] k = k []"
| "member_texts_prog E (u # us) k =
     Redis (isUserOnline (c_redis E) (user_id u)) (\<lambda>online.
       member_texts_prog E us (\<lambda>texts.
         k (c_dump E (json_obj [(''id'', JInt (user_id u)), (''name'', JStr (user_name u)),
                                (''state'', JStr (online_text online)), (''role'', JStr (gu_role u))]) # texts)))"

fun group_texts_prog ::
  "('db, 'rd) chat_env \<Rightarrow> int \<Rightarrow> group list \<Rightarrow> (string list \<Rightarrow> ('db, 'rd) service_prog) \<Rightarrow> ('db, 'rd) service_prog" where
  "group_texts_prog E i [] k = k []"
| "group_texts_prog E i (g # gs) k =
     member_texts_prog E (group_users g) (\<lambda>vGroupUser.
       Lock Group_mutex Unique
         (Step (\<lambda>w. w\<lparr>groupMembers := um_modify (group_id g) []
                   (\<lambda>memberSet. fold (\<lambda>u ss. if user_id u = i then ss_insert i ss else ss) (group_users g) memberSet)
                   (groupMembers w)\<rparr>)
           (Unlock Group_mutex
             (Step (\<lambda>w. w\<lparr>rc := subscribeGroupChannel (group_id g) (rc w)\<rparr>)
               (group_texts_prog E i gs (\<lambda>texts.
                 k (c_dump E (json_obj [(''id'', JInt (group_id g)), (''groupname'', JStr (group_name g)),
                      (''groupdesc'', JStr (group_desc g)), (''users'', JArr (map JStr vGroupUser))]) # texts)))))))"

definition login_groups_prog ::
  "('db, 'rd) chat_env \<Rightarrow> int \<Rightarrow> ((string \<times> json) list \<Rightarrow> ('db, 'rd) service_prog) \<Rightarrow> ('db, 'rd) service_prog" where
  "login_groups_prog E i k =
     Mysql (GroupModel_queryGroups (c_sql E) i) (\<lambda>vGroupList.
       if vGroupList = [] then k []
       else group_texts_prog E i vGroupList (\<lambda>groupV. k [(''groups'', JArr (map JStr groupV))]))"

definition login_success_prog :: "('db, 'rd) chat_env \<Rightarrow> nat \<Rightarrow> int \<Rightarrow> user \<Rightarrow> ('db, 'rd) service_prog" where
  "login_success_prog E conn i userQuery =
     Lock User_conn_mutex Unique
       (Step (\<lambda>w. w\<lparr>userConnMap := um_insert i conn (userConnMap w)\<rparr>)
         (Unlock User_conn_mutex
           (Redis (getUserNode (c_redis E) i) (\<lambda>_.
            Redis (setUserOnline (c_redis E) i (c_name E conn)) (\<lambda>_.
            Redis (popOfflineMessages (c_redis E) i) (\<lambda>offlineMsgs.
            login_friends_prog E i (\<lambda>friends.
            login_groups_prog E i (\<lambda>groups.
              Step (send conn (c_dump E (json_obj
                      ([(''msgid'', JInt LOGIN_MSG_ACK), (''errno'', JInt 0), (''id'', JInt (user_id userQuery)),
                        (''name'', JStr (user_name userQuery))] @
                       (if offlineMsgs = [] then [] else [(''offlinemessage'', JArr (map JStr offlineMsgs))]) @
                       friends @ groups))))
                (Fin (Inr ()))))))))))"

definition login_prog :: "('db, 'rd) chat_env \<Rightarrow> nat \<Rightarrow> json \<Rightarrow> ('db, 'rd) service_prog" where
  "login_prog E conn js =
     (case field_int ''id'' js of
        Inl e \<Rightarrow> Fin (Inl e)
      | Inr (i, js1) \<Rightarrow>
          (case field_string ''password'' js1 of
             Inl e \<Rightarrow> Fin (Inl e)
           | Inr (pwd, js2) \<Rightarrow>
               Mysql (UserModel_query (c_sql E) i) (\<lambda>userQuery.
                 if user_id userQuery = i \<and> user_password userQuery = pwd then
                   Redis (isUserOnline (c_redis E) i) (\<lambda>online.
                     if online then
                       Step (send conn (c_dump E (json_obj [(''msgid'', JInt LOGIN_MSG_ACK), (''errno'', JInt 2),
                         (''errormsg'', JStr already_online_text)]))) (Fin (Inr ()))
                     else login_success_prog E conn i userQuery)
                 else
                   Step (send conn (c_dump E (json_obj [(''msgid'', JInt LOGIN_MSG_ACK), (''errno'', JInt 1),
                     (''errormsg'', JStr wrong_password_text)]))) (Fin (Inr ())))))"

subsection \<open>reg\<close>

definition reg_prog :: "('db, 'rd) chat_env \<Rightarrow> nat \<Rightarrow> json \<Rightarrow> ('db, 'rd) service_prog" where
  "reg_prog E conn js =
     (case field_string ''name'' js of
        Inl e \<Rightarrow> Fin (Inl e)
      | Inr (name, js1) \<Rightarrow>
          (case field_string ''password'' js1 of
             Inl e \<Rightarrow> Fin (Inl e)
           | Inr (password, js2) \<Rightarrow>
               (let user = User_default\<lparr>user_name := name, user_password := password\<rparr> in
                Mysql (UserModel_insert (c_sql E) user) (\<lambda>isInsert.
                  if isInsert then
                    Redis (redis_hset (c_redis E) (user_info_key (user_id user)) ''name'' name) (\<lambda>_.
                    Redis (redis_expire (c_redis E) (user_info_key (user_id user)) 86400) (\<lambda>_.
                      Step (send conn (c_dump E (json_obj [(''msgid'', JInt REG_MSG_ACK), (''errno'', JInt 0),
                        (''id'', JInt (user_id user))]))) (Fin (Inr ()))))
                  else
                    Step (send conn (c_dump E (json_obj [(''msgid'', JInt REG_MSG_ACK), (''errno'', JInt 1)]))) (Fin (Inr ()))))))"

subsection \<open>loginOut and clientQuitEcption\<close>

text \<open>The loop over \<open>groupMembers_\<close>: entry \<open>k\<close> and the \<open>n\<close> after it.\<close>

fun leave_entries :: "int \<Rightarrow> nat \<Rightarrow> nat \<Rightarrow> ('db, 'rd) service_prog \<Rightarrow> ('db, 'rd) service_prog" where
  "leave_entries i k 0 p = p"
| "leave_entries i k (Suc n) p =
     Act (\<lambda>w. case groupMembers w ! k of (g, members) \<Rightarrow>
           (let members' = ss_erase i members
            in Some (w\<lparr>groupMembers := (groupMembers w)[k := (g, members')]\<rparr>,
                     if members' = []
                     then Step (\<lambda>w. w\<lparr>rc := unsubscribeGroupChannel g (rc w)\<rparr>) (leave_entries i (Suc k) n p)
                     else leave_entries i (Suc k) n p)))"

definition leave_prog :: "int \<Rightarrow> ('db, 'rd) service_prog" where
  "leave_prog i =
     Lock Group_mutex Unique
       (Act (\<lambda>w. Some (w, leave_entries i 0 (length (groupMembers w)) (Unlock Group_mutex (Fin (Inr ()))))))"

definition loginOut_prog :: "('db, 'rd) chat_env \<Rightarrow> nat \<Rightarrow> json \<Rightarrow> ('db, 'rd) service_prog" where
  "loginOut_prog E conn js =
     (case field_int ''id'' js of
        Inl e \<Rightarrow> Fin (Inl e)
      | Inr (i, js1) \<Rightarrow>
          Lock User_conn_mutex Unique
            (Step (\<lambda>w. w\<lparr>userConnMap := um_erase i (userConnMap w)\<rparr>)
              (Unlock User_conn_mutex
                (Redis (setUserOffline (c_redis E) i) (\<lambda>_. leave_prog i)))))"

definition clientQuit_prog :: "('db, 'rd) chat_env \<Rightarrow> nat \<Rightarrow> ('db, 'rd) service_prog" where
  "clientQuit_prog E conn =
     Lock User_conn_mutex Unique
       (Act (\<lambda>w. case find (\<lambda>e. snd e = conn) (userConnMap w) of
                   None \<Rightarrow> Some (w, Unlock User_conn_mutex (Fin (Inr ())))
                 | Some e \<Rightarrow>
                     Some (w\<lparr>userConnMap := remove1 e (userConnMap w)\<rparr>,
                       Unlock User_conn_mutex
                         (if fst e \<noteq> - 1 then Redis (setUserOffline (c_redis E) (fst e)) (\<lambda>_. leave_prog (fst e))
                          else Fin (Inr ())))))"

subsection \<open>oneChat\<close>

definition store_prog :: "('db, 'rd) chat_env \<Rightarrow> nat \<Rightarrow> int \<Rightarrow> json \<Rightarrow> ('db, 'rd) service_prog" where
  "store_prog E conn toId js =
     Store E toId (c_dump E js) (Step (send conn (ack E 0 ''msg'' ''Send offline MSG'')) (Fin (Inr ())))"

definition deliver_prog :: "('db, 'rd) chat_env \<Rightarrow> nat \<Rightarrow> int \<Rightarrow> json \<Rightarrow> ('db, 'rd) service_prog" where
  "deliver_prog E conn toId js =
     Lock User_conn_mutex Unique
       (Act (\<lambda>w. case map_of (userConnMap w) toId of
                   Some c \<Rightarrow>
                     Some (send c (c_dump E js) (send conn (ack E 0 ''msg'' ''MSG have sent'') w),
                           Unlock User_conn_mutex (Fin (Inr ())))
                 | None \<Rightarrow> Some (w, Unlock User_conn_mutex (store_prog E conn toId js))))"

definition oneChat_prog :: "('db, 'rd) chat_env \<Rightarrow> nat \<Rightarrow> json \<Rightarrow> ('db, 'rd) service_prog" where
  "oneChat_prog E conn js =
     (case empty_msg js of
        Inl e \<Rightarrow> Fin (Inl e)
      | Inr (drop_it, js1) \<Rightarrow>
          (if drop_it then Fin (Inr ())
           else if \<not> json_contains ''id'' js1 \<or> \<not> json_contains ''to'' js1 then
             Step (send conn (ack E 1 ''errormsg'' ''Missing required fields'')) (Fin (Inr ()))
           else case field_int ''id'' js1 of
             Inl e \<Rightarrow> Fin (Inl e)
           | Inr (i, js2) \<Rightarrow>
               (case field_int ''to'' js2 of
                  Inl e \<Rightarrow> Fin (Inl e)
                | Inr (toId, js3) \<Rightarrow>
                    Mysql (FriendModel_query (c_sql E) i) (\<lambda>vFriendList.
                      if toId \<in> set (map user_id vFriendList) then deliver_prog E conn toId js3
                      else Step (send conn (ack E 1 ''errormsg'' ''No this friend'')) (Fin (Inr ()))))))"

subsection \<open>addFriend, createGroup, joinGroup\<close>

definition addFriend_prog :: "('db, 'rd) chat_env \<Rightarrow> nat \<Rightarrow> json \<Rightarrow> ('db, 'rd) service_prog" where
  "addFriend_prog E conn js =
     (case field_int ''id'' js of
        Inl e \<Rightarrow> Fin (Inl e)
      | Inr (userid, js1) \<Rightarrow>
          (case field_int ''friendid'' js1 of
             Inl e \<Rightarrow> Fin (Inl e)
           | Inr (friendid, js2) \<Rightarrow> Mysql (FriendModel_insert (c_sql E) userid friendid) (\<lambda>_. Fin (Inr ()))))"

definition enter_group_prog :: "('db, 'rd) chat_env \<Rightarrow> int \<Rightarrow> int \<Rightarrow> ('db, 'rd) service_prog" where
  "enter_group_prog E userid groupid =
     Lock Group_mutex Unique
       (Step (\<lambda>w. w\<lparr>groupMembers := um_modify groupid [] (ss_insert userid) (groupMembers w)\<rparr>)
         (Unlock Group_mutex
           (Redis (redis_sadd (c_redis E) (group_members_key groupid) (to_string userid)) (\<lambda>_.
            Redis (redis_expire (c_redis E) (group_members_key groupid) 3600) (\<lambda>_.
              Step (\<lambda>w. w\<lparr>rc := subscribeGroupChannel groupid (rc w)\<rparr>) (Fin (Inr ())))))))"

definition createGroup_prog :: "('db, 'rd) chat_env \<Rightarrow> nat \<Rightarrow> json \<Rightarrow> ('db, 'rd) service_prog" where
  "createGroup_prog E conn js =
     (case field_int ''id'' js of
        Inl e \<Rightarrow> Fin (Inl e)
      | Inr (userid, js1) \<Rightarrow>
          (case field_string ''groupname'' js1 of
             Inl e \<Rightarrow> Fin (Inl e)
           | Inr (groupname, js2) \<Rightarrow>
               (case field_string ''groupdesc'' js2 of
                  Inl e \<Rightarrow> Fin (Inl e)
                | Inr (groupdesc, js3) \<Rightarrow>
                    Mysql (GroupModel_createGroup (c_sql E) (Group (- 1) groupname groupdesc)) (\<lambda>grp.
                    Mysql (GroupModel_joinGroup (c_sql E) userid (group_id grp) ''creator'') (\<lambda>_.
                      enter_group_prog E userid (group_id grp))))))"

definition joinGroup_prog :: "('db, 'rd) chat_env \<Rightarrow> nat \<Rightarrow> json \<Rightarrow> ('db, 'rd) service_prog" where
  "joinGroup_prog E conn js =
     (case field_int ''id'' js of
        Inl e \<Rightarrow> Fin (Inl e)
      | Inr (userid, js1) \<Rightarrow>
          (case field_int ''groupid'' js1 of
             Inl e \<Rightarrow> Fin (Inl e)
           | Inr (groupid, js2) \<Rightarrow>
               Mysql (GroupModel_joinGroup (c_sql E) userid groupid ''normal'') (\<lambda>_. enter_group_prog E userid groupid)))"

subsection \<open>groupChat\<close>

text \<open>
  The shared lock is given back before the database is asked, and the group's members are inserted
  under an exclusive one.
\<close>

definition load_members_prog ::
  "('db, 'rd) chat_env \<Rightarrow> int \<Rightarrow> int \<Rightarrow> ('db, 'rd) service_prog \<Rightarrow> ('db, 'rd) service_prog" where
  "load_members_prog E userid groupid p =
     Lock Group_mutex Shared
       (Act (\<lambda>w. Some (w,
          if map_of (groupMembers w) groupid \<noteq> None then Unlock Group_mutex p
          else Unlock Group_mutex
            (Mysql (GroupModel_queryGroupUsers (c_sql E) userid groupid) (\<lambda>groupUsers.
               Lock Group_mutex Unique
                 (Step (\<lambda>w. w\<lparr>groupMembers := fold (\<lambda>i gm. um_modify groupid [] (ss_insert i) gm) groupUsers (groupMembers w)\<rparr>)
                   (Step (\<lambda>w. w\<lparr>rc := subscribeGroupChannel groupid (rc w)\<rparr>)
                     (Unlock Group_mutex p))))))))"

definition groupChat_prog :: "('db, 'rd) chat_env \<Rightarrow> nat \<Rightarrow> json \<Rightarrow> ('db, 'rd) service_prog" where
  "groupChat_prog E conn js =
     (case empty_msg js of
        Inl e \<Rightarrow> Fin (Inl e)
      | Inr (drop_it, js1) \<Rightarrow>
          (if drop_it then Fin (Inr ())
           else case field_int ''id'' js1 of
             Inl e \<Rightarrow> Fin (Inl e)
           | Inr (userid, js2) \<Rightarrow>
               (case field_int ''groupid'' js2 of
                  Inl e \<Rightarrow> Fin (Inl e)
                | Inr (groupid, js3) \<Rightarrow>
                    load_members_prog E userid groupid
                      (Redis (publishGroupMessage (c_redis E) groupid (c_dump E js3)) (\<lambda>_. Fin (Inr ()))))))"

subsection \<open>The subscriber\<close>

fun send_members_prog :: "string \<Rightarrow> int list \<Rightarrow> ('db, 'rd) service_prog \<Rightarrow> ('db, 'rd) service_prog" where
  "send_members_prog text [] p = p"
| "send_members_prog text (uid # uids) p =
     Lock User_conn_mutex Shared
       (Step (\<lambda>w. case map_of (userConnMap w) uid of None \<Rightarrow> w | Some c \<Rightarrow> send c text w)
         (Unlock User_conn_mutex (send_members_prog text uids p)))"

text \<open>The callback; an exception releases the lock of the caller and is logged there.\<close>

definition inbox_prog :: "('db, 'rd) chat_env \<Rightarrow> json \<Rightarrow> ('db, 'rd) service_prog \<Rightarrow> ('db, 'rd) service_prog" where
  "inbox_prog E j p =
     Lock Callback_mutex Unique
       (case json_get ''to'' j of
          Some v \<Rightarrow>
            (case get_int v of
               Inl e \<Rightarrow> Unlock Callback_mutex p
             | Inr toId \<Rightarrow>
                 Lock User_conn_mutex Shared
                   (Act (\<lambda>w. case map_of (userConnMap w) toId of
                      Some c \<Rightarrow> Some (send c (c_dump E j @ [CHR 0x0A]) w, Unlock User_conn_mutex (Unlock Callback_mutex p))
                    | None \<Rightarrow>
                        Some (w, Store E toId (c_dump E j)
                          (Redis (pushOfflineMessage (c_redis E) toId (c_dump E j)) (\<lambda>_.
                             Unlock User_conn_mutex (Unlock Callback_mutex p)))))))
        | None \<Rightarrow>
            (case json_get ''groupid'' j of
               None \<Rightarrow> Unlock Callback_mutex p
             | Some v \<Rightarrow>
                 (case get_int v of
                    Inl e \<Rightarrow> Unlock Callback_mutex p
                  | Inr groupid \<Rightarrow>
                      Lock Group_mutex Shared
                        (Act (\<lambda>w. Some (w,
                           case map_of (groupMembers w) groupid of
                             None \<Rightarrow> Unlock Group_mutex (Unlock Callback_mutex p)
                           | Some uids \<Rightarrow>
                               send_members_prog (c_dump E j @ [CHR 0x0A]) uids
                                 (Unlock Group_mutex (Unlock Callback_mutex p))))))))"

fun sub_tasks_prog :: "('db, 'rd) chat_env \<Rightarrow> sub_task list \<Rightarrow> ('db, 'rd) service_prog" where
  "sub_tasks_prog E [] = Fin (Inr ())"
| "sub_tasks_prog E (Stop # ts) = Step (\<lambda>w. w\<lparr>rc := run_sub_tasks (c_redis E) [Stop] (rc w)\<rparr>) (Fin (Inr ()))"
| "sub_tasks_prog E (t # ts) = Step (\<lambda>w. w\<lparr>rc := run_sub_tasks (c_redis E) [t] (rc w)\<rparr>) (sub_tasks_prog E ts)"

definition swap_tasks_prog :: "('db, 'rd) chat_env \<Rightarrow> ('db, 'rd) service_prog" where
  "swap_tasks_prog E = Act (\<lambda>w. Some (w\<lparr>rc := (rc w)\<lparr>sub_tasks := []\<rparr>\<rparr>, sub_tasks_prog E (sub_tasks (rc w))))"

definition subscriber_prog :: "('db, 'rd) chat_env \<Rightarrow> string option \<Rightarrow> ('db, 'rd) service_prog" where
  "subscriber_prog E consumed =
     Act (\<lambda>w. Some (w,
       if rc_stopped (rc w) then Fin (Inr ())
       else case consumed of
         None \<Rightarrow> swap_tasks_prog E
       | Some msg \<Rightarrow>
           (case c_parse E msg of None \<Rightarrow> swap_tasks_prog E | Some j \<Rightarrow> inbox_prog E j (swap_tasks_prog E))))"

subsection \<open>Messages and connections\<close>

fun handler_prog :: "('db, 'rd) chat_env \<Rightarrow> handler \<Rightarrow> nat \<Rightarrow> json \<Rightarrow> ('db, 'rd) service_prog" where
  "handler_prog E H_login = login_prog E"
| "handler_prog E H_loginOut = loginOut_prog E"
| "handler_prog E H_reg = reg_prog E"
| "handler_prog E H_oneChat = oneChat_prog E"
| "handler_prog E H_addFriend = addFriend_prog E"
| "handler_prog E H_createGroup = createGroup_prog E"
| "handler_prog E H_joinGroup = joinGroup_prog E"
| "handler_prog E H_groupChat = groupChat_prog E"

definition message_prog :: "('db, 'rd) chat_env \<Rightarrow> nat \<Rightarrow> string \<Rightarrow> ('db, 'rd) service_prog" where
  "message_prog E conn buf =
     (case c_parse E buf of
        None \<Rightarrow> Fin (Inr ())
      | Some js \<Rightarrow>
          (case field_int ''msgid'' js of
             Inl e \<Rightarrow> Fin (Inl e)
           | Inr (msgid, js1) \<Rightarrow>
               (case getHandler msgid of
                  None \<Rightarrow> Fin (Inr ())
                | Some h \<Rightarrow> handler_prog E h conn js1)))"

definition connection_prog :: "('db, 'rd) chat_env \<Rightarrow> nat \<Rightarrow> bool \<Rightarrow> ('db, 'rd) service_prog" where
  "connection_prog E conn connected = (if \<not> connected then clientQuit_prog E conn else Fin (Inr ()))"

subsection \<open>Threads\<close>

text \<open>
  The threads are the loops of the network library and the subscriber's. \<open>loop_of\<close> says which loop a
  connection belongs to: the library handles everything that happens on a connection in its loop.
  \<open>mem\<close> is the state the threads share, \<open>held\<close> the locks of a thread, \<open>code\<close> what it still has to
  do, \<open>None\<close> when it waits for the next event.
\<close>

datatype tid = Loop nat | Subscriber

record 'w threads =
  mem :: 'w
  held :: "tid \<Rightarrow> (mutex \<times> lock_mode) list"
  code :: "tid \<Rightarrow> 'w prog option"

text \<open>A lock is free for a mode when every other holder and the mode are shared.\<close>

definition available_to :: "tid \<Rightarrow> mutex \<Rightarrow> lock_mode \<Rightarrow> 'w threads \<Rightarrow> bool" where
  "available_to t l m s \<longleftrightarrow> (\<forall>u m'. (l, m') \<in> set (held s u) \<longrightarrow> m = Shared \<and> m' = Shared)"

text \<open>What a thread does next of its own program.\<close>

inductive thread_step :: "tid \<Rightarrow> 'w threads \<Rightarrow> 'w threads \<Rightarrow> bool" for t :: tid where
  act: "code s t = Some (Act f) \<Longrightarrow> f (mem s) = Some (w', p) \<Longrightarrow>
    thread_step t s (s\<lparr>mem := w', code := (code s)(t := Some p)\<rparr>)"
| lock: "code s t = Some (Lock l m p) \<Longrightarrow> available_to t l m s \<Longrightarrow>
    thread_step t s (s\<lparr>held := (held s)(t := (l, m) # held s t), code := (code s)(t := Some p)\<rparr>)"
| unlock: "code s t = Some (Unlock l p) \<Longrightarrow>
    thread_step t s (s\<lparr>held := (held s)(t := filter (\<lambda>h. fst h \<noteq> l) (held s t)), code := (code s)(t := Some p)\<rparr>)"
| finish: "code s t = Some (Fin r) \<Longrightarrow> thread_step t s (s\<lparr>code := (code s)(t := None)\<rparr>)"

inductive service_step ::
  "('db, 'rd) chat_env \<Rightarrow> (nat \<Rightarrow> nat) \<Rightarrow> ('db, 'rd) chat_state threads \<Rightarrow> ('db, 'rd) chat_state threads \<Rightarrow> bool"
  for E :: "('db, 'rd) chat_env" and loop_of :: "nat \<Rightarrow> nat" where
  message: "code s (Loop (loop_of conn)) = None \<Longrightarrow>
    service_step E loop_of s (s\<lparr>code := (code s)(Loop (loop_of conn) := Some (message_prog E conn buf))\<rparr>)"
| connection: "code s (Loop (loop_of conn)) = None \<Longrightarrow>
    service_step E loop_of s (s\<lparr>code := (code s)(Loop (loop_of conn) := Some (connection_prog E conn connected))\<rparr>)"
| consume: "code s Subscriber = None \<Longrightarrow>
    service_step E loop_of s (s\<lparr>code := (code s)(Subscriber := Some (subscriber_prog E consumed))\<rparr>)"
| running: "thread_step t s s' \<Longrightarrow> service_step E loop_of s s'"

inductive_cases thread_stepE: "thread_step t s s'"
inductive_cases service_stepE: "service_step E loop_of s s'"

definition all_idle :: "'w \<Rightarrow> 'w threads" where
  "all_idle w = \<lparr>mem = w, held = (\<lambda>t. []), code = (\<lambda>t. None)\<rparr>"

end
