(* ===== verification/Lock_Discipline.thy ===== *)
theory Lock_Discipline
  imports Service_Threads
begin

section \<open>The lock discipline of the service\<close>

text \<open>
  Locks are taken in one order and given back, and the two maps are touched under their lock only.
  A program that keeps this discipline is \<open>disciplined\<close>; every program of \<open>Service_Threads\<close> is.
  The invariant of the running system, \<open>locks_ok\<close>, says that every thread still has a disciplined
  program for the locks it holds and that an exclusive lock has one holder.
\<close>

subsection \<open>Disciplined programs\<close>

fun rank :: "mutex \<Rightarrow> nat" where
  "rank Callback_mutex = 0"
| "rank Group_mutex = 1"
| "rank User_conn_mutex = 2"

text \<open>An action neither reads nor writes a map; it does not write it.\<close>

definition conns_untouched :: "(('db, 'rd) chat_state \<Rightarrow> (('db, 'rd) chat_state \<times> 'p) option) \<Rightarrow> bool" where
  "conns_untouched f \<longleftrightarrow>
     (\<forall>w m. f (w\<lparr>userConnMap := m\<rparr>) = map_option (map_prod (\<lambda>w'. w'\<lparr>userConnMap := m\<rparr>) id) (f w))"

definition conns_kept :: "(('db, 'rd) chat_state \<Rightarrow> (('db, 'rd) chat_state \<times> 'p) option) \<Rightarrow> bool" where
  "conns_kept f \<longleftrightarrow> (\<forall>w w' p. f w = Some (w', p) \<longrightarrow> userConnMap w' = userConnMap w)"

definition groups_untouched :: "(('db, 'rd) chat_state \<Rightarrow> (('db, 'rd) chat_state \<times> 'p) option) \<Rightarrow> bool" where
  "groups_untouched f \<longleftrightarrow>
     (\<forall>w m. f (w\<lparr>groupMembers := m\<rparr>) = map_option (map_prod (\<lambda>w'. w'\<lparr>groupMembers := m\<rparr>) id) (f w))"

definition groups_kept :: "(('db, 'rd) chat_state \<Rightarrow> (('db, 'rd) chat_state \<times> 'p) option) \<Rightarrow> bool" where
  "groups_kept f \<longleftrightarrow> (\<forall>w w' p. f w = Some (w', p) \<longrightarrow> groupMembers w' = groupMembers w)"

type_synonym locks = "(mutex \<times> lock_mode) list"

definition locked :: "locks \<Rightarrow> (('db, 'rd) chat_state \<Rightarrow> (('db, 'rd) chat_state \<times> 'p) option) \<Rightarrow> bool" where
  "locked h f \<longleftrightarrow>
     (User_conn_mutex \<in> fst ` set h \<or> conns_untouched f) \<and> ((User_conn_mutex, Unique) \<in> set h \<or> conns_kept f) \<and>
     (Group_mutex \<in> fst ` set h \<or> groups_untouched f) \<and> ((Group_mutex, Unique) \<in> set h \<or> groups_kept f)"

primrec disciplined :: "('db, 'rd) service_prog \<Rightarrow> locks \<Rightarrow> bool" where
  "disciplined (Fin r) = (\<lambda>h. h = [])"
| "disciplined (Act f) =
     (\<lambda>h. locked h f \<and> (\<forall>w. case map_option (map_prod id disciplined) (f w) of None \<Rightarrow> True | Some (w', d) \<Rightarrow> d h))"
| "disciplined (Lock l m p) = (\<lambda>h. (\<forall>l' \<in> fst ` set h. rank l' < rank l) \<and> disciplined p ((l, m) # h))"
| "disciplined (Unlock l p) = (\<lambda>h. l \<in> fst ` set h \<and> disciplined p (filter (\<lambda>x. fst x \<noteq> l) h))"

named_theorems disciplined_intros \<open>disciplined programs\<close>

lemmas touch_defs = locked_def conns_untouched_def conns_kept_def groups_untouched_def groups_kept_def

lemma disciplined_Act:
  "locked h f \<Longrightarrow> (\<And>w w' p. f w = Some (w', p) \<Longrightarrow> disciplined p h) \<Longrightarrow> disciplined (Act f) h"
  by (auto split: option.splits)

lemma disciplined_ActD:
  assumes "disciplined (Act f) h" and "f w = Some (w', p)"
  shows "disciplined p h"
proof -
  from assms(1) have "case map_option (map_prod id disciplined) (f w) of None \<Rightarrow> True | Some (w', d) \<Rightarrow> d h" by simp
  with assms(2) show ?thesis by simp
qed

lemma disciplined_Mysql [disciplined_intros]:
  "(\<And>v. disciplined (k v) h) \<Longrightarrow> disciplined (Mysql f k) h"
  unfolding Mysql_def
  by (rule disciplined_Act) (auto simp: touch_defs on_mysql_eq)

lemma disciplined_Redis [disciplined_intros]:
  "(\<And>v. disciplined (k v) h) \<Longrightarrow> disciplined (Redis f k) h"
  unfolding Redis_def
  by (rule disciplined_Act) (auto simp: touch_defs on_redis_eq)

lemma disciplined_Store [disciplined_intros]: "disciplined p h \<Longrightarrow> disciplined (Store E u text p) h"
  unfolding Store_def
  by (rule disciplined_Act) (auto simp: touch_defs split: option.splits)

lemma disciplined_send [disciplined_intros]: "disciplined p h \<Longrightarrow> disciplined (Step (send c t) p) h"
  unfolding Step_def
  by (rule disciplined_Act) (auto simp: touch_defs send_def)

lemma disciplined_client [disciplined_intros]:
  "disciplined p h \<Longrightarrow> disciplined (Step (\<lambda>w. w\<lparr>rc := f (rc w)\<rparr>) p) h"
  unfolding Step_def
  by (rule disciplined_Act) (auto simp: touch_defs)

text \<open>Writing a map under its exclusive lock.\<close>

lemma disciplined_conns [disciplined_intros]:
  "disciplined p h \<Longrightarrow> (User_conn_mutex, Unique) \<in> set h \<Longrightarrow>
   disciplined (Step (\<lambda>w. w\<lparr>userConnMap := f (userConnMap w)\<rparr>) p) h"
  unfolding Step_def
  by (rule disciplined_Act) (auto simp: touch_defs intro: rev_image_eqI)

lemma disciplined_groups [disciplined_intros]:
  "disciplined p h \<Longrightarrow> (Group_mutex, Unique) \<in> set h \<Longrightarrow>
   disciplined (Step (\<lambda>w. w\<lparr>groupMembers := f (groupMembers w)\<rparr>) p) h"
  unfolding Step_def
  by (rule disciplined_Act) (auto simp: touch_defs intro: rev_image_eqI)

lemma disciplined_Lock [disciplined_intros]:
  "(\<And>l'. l' \<in> fst ` set h \<Longrightarrow> rank l' < rank l) \<Longrightarrow> disciplined p ((l, m) # h) \<Longrightarrow> disciplined (Lock l m p) h"
  by simp

lemma disciplined_Unlock [disciplined_intros]:
  "l \<in> fst ` set h \<Longrightarrow> disciplined p (filter (\<lambda>x. fst x \<noteq> l) h) \<Longrightarrow> disciplined (Unlock l p) h"
  by simp

lemma disciplined_Fin [disciplined_intros]: "disciplined (Fin r) []"
  by simp

subsection \<open>The programs of the service are disciplined\<close>

lemma disciplined_friend_texts:
  "(\<And>v. disciplined (k v) h) \<Longrightarrow> disciplined (friend_texts_prog E us k) h"
  by (induction us arbitrary: k) (auto intro!: disciplined_intros)

lemma disciplined_member_texts:
  "(\<And>v. disciplined (k v) h) \<Longrightarrow> disciplined (member_texts_prog E us k) h"
  by (induction us arbitrary: k) (auto intro!: disciplined_intros)

lemma disciplined_group_texts:
  "(\<And>v. disciplined (k v) []) \<Longrightarrow> disciplined (group_texts_prog E i gs k) []"
proof (induction gs arbitrary: k)
  case (Cons g gs)
  have tail: "disciplined (group_texts_prog E i gs (\<lambda>texts. k (t # texts))) []" for t
    by (rule Cons.IH) (rule Cons.prems)
  show ?case
    by (auto intro!: disciplined_member_texts disciplined_intros tail simp del: disciplined.simps)
qed simp

lemma disciplined_login_success: "disciplined (login_success_prog E conn i u) []"
  unfolding login_success_prog_def login_friends_prog_def login_groups_prog_def
  by (auto intro!: disciplined_intros disciplined_friend_texts disciplined_group_texts simp del: disciplined.simps)

lemma disciplined_login: "disciplined (login_prog E conn js) []"
  unfolding login_prog_def
  by (auto split: sum.splits intro!: disciplined_intros disciplined_login_success simp del: disciplined.simps)

lemma disciplined_reg: "disciplined (reg_prog E conn js) []"
  unfolding reg_prog_def Let_def
  by (auto split: sum.splits intro!: disciplined_intros simp del: disciplined.simps)

lemma disciplined_leave_entries:
  "disciplined p [(Group_mutex, Unique)] \<Longrightarrow> disciplined (leave_entries i k n p) [(Group_mutex, Unique)]"
proof (induction n arbitrary: k)
  case (Suc n)
  have "disciplined (Step (\<lambda>w. w\<lparr>rc := unsubscribeGroupChannel g (rc w)\<rparr>) (leave_entries i (Suc k) n p)) [(Group_mutex, Unique)]" for g
    by (rule disciplined_client) (rule Suc.IH [OF Suc.prems])
  with Suc.IH [OF Suc.prems] show ?case
    unfolding leave_entries.simps
    by (intro disciplined_Act) (auto simp: touch_defs Let_def split: prod.splits if_splits simp del: disciplined.simps)
qed simp

lemma disciplined_leave: "disciplined (leave_prog i) []"
proof -
  have "disciplined (Unlock Group_mutex (Fin (Inr ()))) [(Group_mutex, Unique)]" by simp
  note e = disciplined_leave_entries [OF this]
  show ?thesis
    unfolding leave_prog_def
    by (rule disciplined_Lock, simp, rule disciplined_Act) (auto simp: touch_defs e simp del: disciplined.simps)
qed

lemma disciplined_loginOut: "disciplined (loginOut_prog E conn js) []"
  unfolding loginOut_prog_def
  by (auto split: sum.splits intro!: disciplined_intros disciplined_leave simp del: disciplined.simps)

lemma disciplined_Unlock_last: "disciplined p [] \<Longrightarrow> disciplined (Unlock l p) [(l, m)]"
  by simp

lemma disciplined_clientQuit: "disciplined (clientQuit_prog E conn) []"
proof -
  note u = disciplined_Unlock_last [OF disciplined_Fin] disciplined_Unlock_last [OF disciplined_Redis, OF disciplined_leave]
  show ?thesis
    unfolding clientQuit_prog_def
    by (rule disciplined_Lock, simp, rule disciplined_Act)
      (auto simp: touch_defs intro!: u split: option.splits if_splits simp del: disciplined.simps)
qed

lemma disciplined_store: "disciplined (store_prog E conn t js) []"
  unfolding store_prog_def by (intro disciplined_intros)

lemma disciplined_deliver: "disciplined (deliver_prog E conn t js) []"
  unfolding deliver_prog_def
  by (rule disciplined_Lock, simp, rule disciplined_Act)
    (auto simp: touch_defs send_def disciplined_store split: option.splits)

lemma disciplined_oneChat: "disciplined (oneChat_prog E conn js) []"
  unfolding oneChat_prog_def
  by (auto split: sum.splits intro!: disciplined_intros disciplined_deliver simp del: disciplined.simps)

lemma disciplined_addFriend: "disciplined (addFriend_prog E conn js) []"
  unfolding addFriend_prog_def
  by (auto split: sum.splits intro!: disciplined_intros simp del: disciplined.simps)

lemma disciplined_enter_group: "disciplined (enter_group_prog E u g) []"
  unfolding enter_group_prog_def
  by (auto intro!: disciplined_intros simp del: disciplined.simps)

lemma disciplined_createGroup: "disciplined (createGroup_prog E conn js) []"
  unfolding createGroup_prog_def
  by (auto split: sum.splits intro!: disciplined_intros disciplined_enter_group simp del: disciplined.simps)

lemma disciplined_joinGroup: "disciplined (joinGroup_prog E conn js) []"
  unfolding joinGroup_prog_def
  by (auto split: sum.splits intro!: disciplined_intros disciplined_enter_group simp del: disciplined.simps)

lemma disciplined_load_members: "disciplined p [] \<Longrightarrow> disciplined (load_members_prog E u g p) []"
proof -
  assume p: "disciplined p []"
  have "disciplined (Unlock Group_mutex p) [(Group_mutex, Shared)]" using p by simp
  moreover have "disciplined (Unlock Group_mutex
            (Mysql (GroupModel_queryGroupUsers (c_sql E) u g) (\<lambda>groupUsers.
               Lock Group_mutex Unique
                 (Step (\<lambda>w. w\<lparr>groupMembers := fold (\<lambda>i gm. um_modify g [] (ss_insert i) gm) groupUsers (groupMembers w)\<rparr>)
                   (Step (\<lambda>w. w\<lparr>rc := subscribeGroupChannel g (rc w)\<rparr>) (Unlock Group_mutex p)))))) [(Group_mutex, Shared)]"
    by (auto intro!: disciplined_intros p simp del: disciplined.simps)
  ultimately show ?thesis
    unfolding load_members_prog_def
    by (intro disciplined_Lock disciplined_Act) (auto simp: touch_defs split: if_splits simp del: disciplined.simps)
qed

lemma disciplined_groupChat: "disciplined (groupChat_prog E conn js) []"
  unfolding groupChat_prog_def
  by (auto split: sum.splits intro!: disciplined_load_members disciplined_intros simp del: disciplined.simps)

lemmas disciplined_handlers = disciplined_login disciplined_loginOut disciplined_reg disciplined_oneChat
  disciplined_addFriend disciplined_createGroup disciplined_joinGroup disciplined_groupChat

lemma disciplined_message: "disciplined (message_prog E conn buf) []"
proof -
  have "disciplined (handler_prog E h conn js) []" for h js by (cases h) (simp_all add: disciplined_handlers)
  then show ?thesis unfolding message_prog_def by (auto split: option.splits sum.splits)
qed

lemma disciplined_connection: "disciplined (connection_prog E conn connected) []"
  by (simp add: connection_prog_def disciplined_clientQuit)

subsection \<open>The subscriber\<close>

lemma disciplined_send_members:
  assumes "disciplined p [(Group_mutex, Shared), (Callback_mutex, Unique)]"
  shows "disciplined (send_members_prog text us p) [(Group_mutex, Shared), (Callback_mutex, Unique)]"
proof (induction us)
  case (Cons u us)
  have "disciplined (Unlock User_conn_mutex (send_members_prog text us p))
      [(User_conn_mutex, Shared), (Group_mutex, Shared), (Callback_mutex, Unique)]"
    using Cons by simp
  then show ?case
    unfolding send_members_prog.simps Step_def
    by (intro disciplined_Lock disciplined_Act) (auto simp: touch_defs send_def split: option.splits simp del: disciplined.simps)
qed (use assms in simp)

lemma disciplined_sub_tasks: "disciplined (sub_tasks_prog E ts) []"
  by (induction E ts rule: sub_tasks_prog.induct) (auto intro!: disciplined_intros simp del: disciplined.simps)

lemma disciplined_swap_tasks: "disciplined (swap_tasks_prog E) []"
  unfolding swap_tasks_prog_def
  by (rule disciplined_Act) (auto simp: touch_defs disciplined_sub_tasks)

lemma disciplined_inbox:
  assumes p: "disciplined p []"
  shows "disciplined (inbox_prog E j p) []"
proof -
  let ?c = "(Callback_mutex, Unique)"
  have e: "disciplined (Unlock Callback_mutex p) [?c]" using p by simp
  have u: "disciplined (Unlock User_conn_mutex (Unlock Callback_mutex p)) [(User_conn_mutex, Shared), ?c]"
    using p by (auto simp: image_iff)
  have g: "disciplined (Unlock Group_mutex (Unlock Callback_mutex p)) [(Group_mutex, Shared), ?c]"
    using p by (auto simp: image_iff)
  note m = disciplined_send_members [OF g]
  have st: "disciplined (Store E t tx (Redis f (\<lambda>_. Unlock User_conn_mutex (Unlock Callback_mutex p)))) [(User_conn_mutex, Shared), ?c]"
    for t tx and f :: "'b redis_state \<Rightarrow> unit \<times> 'b redis_state"
    by (intro disciplined_Store disciplined_Redis u)
  have to: "disciplined (Lock User_conn_mutex Shared
                   (Act (\<lambda>w. case map_of (userConnMap w) toId of
                      Some c \<Rightarrow> Some (send c (c_dump E j @ [CHR 0x0A]) w, Unlock User_conn_mutex (Unlock Callback_mutex p))
                    | None \<Rightarrow>
                        Some (w, Store E toId (c_dump E j)
                          (Redis (pushOfflineMessage (c_redis E) toId (c_dump E j)) (\<lambda>_.
                             Unlock User_conn_mutex (Unlock Callback_mutex p))))))) [?c]" for toId
    by (intro disciplined_Lock disciplined_Act)
      (auto simp: touch_defs send_def u st split: option.splits simp del: disciplined.simps)
  have gr: "disciplined (Lock Group_mutex Shared
                        (Act (\<lambda>w. Some (w,
                           case map_of (groupMembers w) groupid of
                             None \<Rightarrow> Unlock Group_mutex (Unlock Callback_mutex p)
                           | Some uids \<Rightarrow>
                               send_members_prog (c_dump E j @ [CHR 0x0A]) uids
                                 (Unlock Group_mutex (Unlock Callback_mutex p)))))) [?c]" for groupid
    by (intro disciplined_Lock disciplined_Act)
      (auto simp: touch_defs g m split: option.splits simp del: disciplined.simps)
  show ?thesis
    unfolding inbox_prog_def
    by (rule disciplined_Lock, simp) (auto simp: to gr e split: option.splits sum.splits simp del: disciplined.simps)
qed

lemma disciplined_subscriber: "disciplined (subscriber_prog E consumed) []"
  unfolding subscriber_prog_def
  by (rule disciplined_Act)
    (auto simp: touch_defs disciplined_swap_tasks disciplined_inbox split: option.splits if_splits)

end
