(* ===== verification/Threads_Alone.thy ===== *)
theory Threads_Alone
  imports Service_Threads
begin

section \<open>A program on its own is its handler\<close>

text \<open>
  Run without interruption, the program of a handler does what the handler of \<open>Chat_Service\<close> does.
\<close>

named_theorems run_simps \<open>running the parts of a program\<close>

lemma run_Step [run_simps]: "run (Step f p) w = run p (f w)"
  by (simp add: Step_def)

lemma run_Mysql [run_simps]: "run (Mysql f k) w = (case on_mysql f w of (v, w') \<Rightarrow> run (k v) w')"
  by (simp add: Mysql_def split: prod.splits)

lemma run_Redis [run_simps]: "run (Redis f k) w = (case on_redis f w of (v, w') \<Rightarrow> run (k v) w')"
  by (simp add: Redis_def split: prod.splits)

lemma run_Store [run_simps]:
  "run (Store E u text p) w =
     (case OfflineMessage_insert (c_sql E) u text (off w) of None \<Rightarrow> None | Some (b, o') \<Rightarrow> run p (w\<lparr>off := o'\<rparr>))"
  by (simp add: Store_def split: option.splits prod.splits)

lemma run_friend_texts [run_simps]:
  "run (friend_texts_prog E us k) w = (case friend_texts E us w of (v, w') \<Rightarrow> run (k v) w')"
  by (induction us arbitrary: w k) (simp_all add: run_simps split_beta)

lemma run_member_texts [run_simps]:
  "run (member_texts_prog E us k) w = (case member_texts E us w of (v, w') \<Rightarrow> run (k v) w')"
  by (induction us arbitrary: w k) (simp_all add: run_simps split_beta)

lemma run_group_texts [run_simps]:
  "run (group_texts_prog E i gs k) w = (case group_texts E i gs w of (v, w') \<Rightarrow> run (k v) w')"
  by (induction gs arbitrary: w k) (simp_all add: run_simps split_beta Let_def)

lemma run_login_friends [run_simps]:
  "run (login_friends_prog E i k) w = (case login_friends E i w of (v, w') \<Rightarrow> run (k v) w')"
  by (auto simp: login_friends_prog_def login_friends_def run_simps split_beta Let_def split: option.splits)

lemma run_login_groups [run_simps]:
  "run (login_groups_prog E i k) w = (case login_groups E i w of (v, w') \<Rightarrow> run (k v) w')"
  by (simp add: login_groups_prog_def login_groups_def run_simps split_beta)

lemma run_login_success: "run (login_success_prog E conn i u) w = Some (Inr (), login_success E conn i u w)"
  by (simp add: login_success_prog_def login_success_def run_simps split_beta Let_def)

lemma run_login: "run (login_prog E conn js) w = Some (login E conn js w)"
  by (simp add: login_prog_def login_def login_with_def run_simps run_login_success split_beta split: sum.splits)

lemma run_reg: "run (reg_prog E conn js) w = Some (reg E conn js w)"
  by (simp add: reg_prog_def reg_def run_simps split_beta Let_def split: sum.splits)

lemma run_leave_entries:
  "k + n = length (groupMembers w) \<Longrightarrow>
   run (leave_entries i k n p) w =
     (case leave_groups i (drop k (groupMembers w)) (rc w) of
        (gm, s) \<Rightarrow> run p (w\<lparr>groupMembers := take k (groupMembers w) @ gm, rc := s\<rparr>))"
proof (induction n arbitrary: k w)
  case 0
  then show ?case by simp
next
  case (Suc n)
  obtain g m where e: "groupMembers w ! k = (g, m)" by fastforce
  have k: "k < length (groupMembers w)" using Suc.prems by simp
  then have d: "drop k (groupMembers w) = (g, m) # drop (Suc k) (groupMembers w)"
    using e Cons_nth_drop_Suc by metis
  let ?w = "w\<lparr>groupMembers := (groupMembers w)[k := (g, ss_erase i m)]\<rparr>"
  have t: "take (Suc k) (groupMembers ?w) = take k (groupMembers w) @ [(g, ss_erase i m)]"
    "drop (Suc k) (groupMembers ?w) = drop (Suc k) (groupMembers w)"
    using k by (simp_all add: take_Suc_conv_app_nth)
  have ih: "run (leave_entries i (Suc k) n p) v =
     (case leave_groups i (drop (Suc k) (groupMembers w)) (rc v) of
        (gm, s) \<Rightarrow> run p (v\<lparr>groupMembers := take k (groupMembers w) @ (g, ss_erase i m) # gm, rc := s\<rparr>))"
    if "groupMembers v = groupMembers ?w" for v
    using Suc.IH [of "Suc k" v] Suc.prems that t by simp
  show ?case by (simp add: e d ih Let_def run_simps split_beta)
qed

lemma run_leave: "run (leave_prog i) w = Some (Inr (), leave_all i w)"
  using run_leave_entries [of 0 "length (groupMembers w)" w i "Unlock Group_mutex (Fin (Inr ()))"]
  by (simp add: leave_prog_def leave_all_def split_beta)

lemma run_loginOut: "run (loginOut_prog E conn js) w = Some (loginOut E conn js w)"
  by (simp add: loginOut_prog_def loginOut_def run_simps run_leave split_beta Let_def split: sum.splits)

lemma run_clientQuit: "run (clientQuit_prog E conn) w = Some (Inr (), clientQuitEcption E conn w)"
  by (auto simp: clientQuit_prog_def clientQuitEcption_def run_simps run_leave split_beta Let_def User_default_def
      split: option.splits)

lemma run_oneChat: "run (oneChat_prog E conn js) w = oneChat E conn js w"
  by (auto simp: oneChat_prog_def oneChat_def oneChat_checked_def deliver_prog_def store_prog_def deliver_or_store_def
      run_simps split_beta split: sum.splits option.splits)

lemma run_addFriend: "run (addFriend_prog E conn js) w = Some (addFriend E conn js w)"
  by (simp add: addFriend_prog_def addFriend_def run_simps split_beta split: sum.splits)

lemma run_enter_group: "run (enter_group_prog E u g) w = Some (Inr (), enter_group E u g w)"
  by (simp add: enter_group_prog_def enter_group_def run_simps split_beta Let_def)

lemma run_createGroup: "run (createGroup_prog E conn js) w = Some (createGroup E conn js w)"
  by (simp add: createGroup_prog_def createGroup_def run_simps run_enter_group split_beta split: sum.splits)

lemma run_joinGroup: "run (joinGroup_prog E conn js) w = Some (joinGroup E conn js w)"
  by (simp add: joinGroup_prog_def joinGroup_def run_simps run_enter_group split_beta split: sum.splits)

lemma run_load_members [run_simps]: "run (load_members_prog E u g p) w = run p (load_members E u g w)"
  by (simp add: load_members_prog_def load_members_def run_simps split_beta Let_def)

lemma run_groupChat: "run (groupChat_prog E conn js) w = Some (groupChat E conn js w)"
  by (simp add: groupChat_prog_def groupChat_def run_simps split_beta split: sum.splits)

lemmas run_handlers = run_login run_loginOut run_reg run_oneChat run_addFriend run_createGroup run_joinGroup run_groupChat

lemma run_handler_prog: "run (handler_prog E h conn js) w = run_handler E h conn js w"
  by (cases h) (simp_all add: run_handlers)

lemma run_send_members [run_simps]: "run (send_members_prog text us p) w = run p (send_members text us w)"
  by (induction us arbitrary: w) (simp_all add: run_simps send_members_def)

lemma run_inbox: "run (inbox_prog E j p) w = (case inbox_callback E j w of None \<Rightarrow> None | Some (r, w') \<Rightarrow> run p w')"
  by (auto simp: inbox_prog_def inbox_callback_def run_simps split_beta split: option.splits sum.splits)

lemma run_sub_tasks_Cons:
  "t \<noteq> Stop \<Longrightarrow> run_sub_tasks R (t # ts) s = run_sub_tasks R ts (run_sub_tasks R [t] s)"
  by (cases t) (simp_all split: prod.splits sum.splits)

lemma run_sub_tasks_prog:
  "run (sub_tasks_prog E ts) w = Some (Inr (), w\<lparr>rc := run_sub_tasks (c_redis E) ts (rc w)\<rparr>)"
proof (induction ts arbitrary: w)
  case (Cons t ts)
  show ?case
  proof (cases "t = Stop")
    case False
    then have "sub_tasks_prog E (t # ts) = Step (\<lambda>w. w\<lparr>rc := run_sub_tasks (c_redis E) [t] (rc w)\<rparr>) (sub_tasks_prog E ts)"
      by (cases t) simp_all
    with Cons.IH run_sub_tasks_Cons [OF False, of "c_redis E" ts "rc w"] show ?thesis by (simp add: run_simps del: run_sub_tasks.simps)
  qed (simp add: run_simps)
qed simp

lemma run_subscriber: "map_option snd (run (subscriber_prog E consumed) w) = subscriber_turn E consumed w"
proof -
  have s: "run (swap_tasks_prog E) w = Some (Inr (), w\<lparr>rc := process_sub_tasks (c_redis E) (rc w)\<rparr>)" for w
    by (simp add: swap_tasks_prog_def process_sub_tasks_def run_sub_tasks_prog)
  show ?thesis
    by (auto simp: subscriber_prog_def subscriber_turn_def on_message_def s run_inbox split: option.splits)
qed

lemma run_message: "map_option snd (run (message_prog E conn buf) w) = onMessage E conn buf w"
  by (auto simp: message_prog_def onMessage_def run_handler_prog split: option.splits sum.splits)

lemma run_connection: "run (connection_prog E conn connected) w = Some (Inr (), onConnection E conn connected w)"
  by (simp add: connection_prog_def onConnection_def run_clientQuit)

end
