(* ===== verification/Threads_Locks.thy ===== *)
theory Threads_Locks
  imports Lock_Discipline Threads_Alone
begin

section \<open>The threads of a node\<close>

text \<open>
  The invariant \<open>locks_ok\<close> of the running threads, that a thread which waits for a lock waits for one
  that can go on, and that two threads about to act keep to different maps.
\<close>

subsection \<open>The locks stay in order\<close>

definition locks_ok :: "('db, 'rd) chat_state threads \<Rightarrow> bool" where
  "locks_ok s \<longleftrightarrow>
     (\<forall>t. case code s t of None \<Rightarrow> held s t = [] | Some p \<Rightarrow> disciplined p (held s t)) \<and>
     (\<forall>t u l m m'. t \<noteq> u \<longrightarrow> (l, m) \<in> set (held s t) \<longrightarrow> (l, m') \<in> set (held s u) \<longrightarrow> m = Shared \<and> m' = Shared)"

lemma locks_okD:
  assumes "locks_ok s"
  shows "code s t = None \<Longrightarrow> held s t = []" and "code s t = Some p \<Longrightarrow> disciplined p (held s t)"
    and "t \<noteq> u \<Longrightarrow> (l, m) \<in> set (held s t) \<Longrightarrow> (l, m') \<in> set (held s u) \<Longrightarrow> m = Shared \<and> m' = Shared"
  using assms by (auto simp: locks_ok_def split: option.splits dest: spec [of _ t])

lemma locks_okI:
  assumes "\<And>t. code s t = None \<Longrightarrow> held s t = []" and "\<And>t p. code s t = Some p \<Longrightarrow> disciplined p (held s t)"
    and "\<And>t u l m m'. t \<noteq> u \<Longrightarrow> (l, m) \<in> set (held s t) \<Longrightarrow> (l, m') \<in> set (held s u) \<Longrightarrow> m = Shared \<and> m' = Shared"
  shows "locks_ok s"
  using assms by (auto simp: locks_ok_def split: option.splits)

lemma locks_ok_all_idle: "locks_ok (all_idle w)"
  by (simp add: locks_ok_def all_idle_def)

lemma locks_ok_start:
  "locks_ok s \<Longrightarrow> code s t = None \<Longrightarrow> disciplined p [] \<Longrightarrow> locks_ok (s\<lparr>code := (code s)(t := Some p)\<rparr>)"
  using locks_okD(1) [of s t] by (intro locks_okI) (auto dest: locks_okD split: if_splits)

lemma thread_step_locks_ok:
  assumes "thread_step t s s'" and "locks_ok s"
  shows "locks_ok s'"
  using assms(1)
proof cases
  case (act f w' p)
  have "disciplined p (held s t)" using locks_okD(2) [OF assms(2) act(2)] act(3) by (rule disciplined_ActD)
  with act show ?thesis by (intro locks_okI) (auto dest: locks_okD [OF assms(2)] split: if_splits)
next
  case (lock l m p)
  have d: "disciplined p ((l, m) # held s t)" using locks_okD(2) [OF assms(2) lock(2)] by simp
  have free: "(l, m') \<in> set (held s u) \<Longrightarrow> m = Shared \<and> m' = Shared" for u m'
    using lock(3) by (auto simp: available_to_def)
  show ?thesis
  proof (rule locks_okI)
    fix v u l' n n'
    assume "v \<noteq> u" "(l', n) \<in> set (held s' v)" "(l', n') \<in> set (held s' u)"
    with lock free locks_okD(3) [OF assms(2)] show "n = Shared \<and> n' = Shared"
      by (auto split: if_splits)
  qed (use lock d locks_okD(1,2) [OF assms(2)] in \<open>auto split: if_splits\<close>)
next
  case (unlock l p)
  have "disciplined p (filter (\<lambda>h. fst h \<noteq> l) (held s t))" using locks_okD(2) [OF assms(2) unlock(2)] by simp
  with unlock show ?thesis
    by (intro locks_okI) (auto dest: locks_okD(1,2) [OF assms(2)] locks_okD(3) [OF assms(2)] split: if_splits)
next
  case (finish r)
  have "held s t = []" using locks_okD(2) [OF assms(2) finish(2)] by simp
  with finish show ?thesis by (intro locks_okI) (auto dest: locks_okD [OF assms(2)] split: if_splits)
qed

lemma service_step_locks_ok: "service_step E loop_of s s' \<Longrightarrow> locks_ok s \<Longrightarrow> locks_ok s'"
  by (erule service_stepE)
    (auto intro: locks_ok_start disciplined_message disciplined_connection disciplined_subscriber thread_step_locks_ok)

lemma service_reach_locks_ok: "(service_step E loop_of)\<^sup>*\<^sup>* (all_idle w) s \<Longrightarrow> locks_ok s"
  by (induction rule: rtranclp_induct) (auto intro: locks_ok_all_idle service_step_locks_ok)

subsection \<open>Progress\<close>

text \<open>A thread that can go on, or that is in an action that never returns.\<close>

definition can_go_on :: "'w threads \<Rightarrow> tid \<Rightarrow> bool" where
  "can_go_on s t \<longleftrightarrow> (\<exists>s'. thread_step t s s') \<or> (\<exists>f. code s t = Some (Act f) \<and> f (mem s) = None)"

lemma can_go_on_cases:
  assumes "code s t = Some p" and "\<not> can_go_on s t"
  obtains l m q where "p = Lock l m q" and "\<not> available_to t l m s"
proof (cases p)
  case (Fin r)
  with assms show thesis by (auto simp: can_go_on_def intro: thread_step.finish)
next
  case (Act f)
  with assms show thesis by (cases "f (mem s)") (auto simp: can_go_on_def intro: thread_step.act)
next
  case (Lock l m q)
  with assms that show thesis by (auto simp: can_go_on_def intro: thread_step.lock)
next
  case (Unlock l q)
  with assms show thesis by (auto simp: can_go_on_def intro: thread_step.unlock)
qed

lemma rank_bound: "rank l \<le> 2"
  by (cases l) simp_all

text \<open>
  A thread that waits for a lock waits for a holder; the holder can go on or waits for a lock of
  higher rank.
\<close>

lemma waiting_progress:
  assumes "locks_ok s" and "code s t = Some (Lock l m p)" and "\<not> available_to t l m s"
  shows "\<exists>u. code s u \<noteq> None \<and> can_go_on s u"
  using assms(2,3)
proof (induction "2 - rank l" arbitrary: t l m p rule: less_induct)
  case less
  from less.prems(2) obtain u m' where u: "(l, m') \<in> set (held s u)" by (auto simp: available_to_def)
  then have "held s u \<noteq> []" by auto
  then obtain q where q: "code s u = Some q" using locks_okD(1) [OF assms(1), of u] by (cases "code s u") auto
  show ?case
  proof (cases "can_go_on s u")
    case True
    with q show ?thesis by auto
  next
    case False
    obtain l' n q' where l': "q = Lock l' n q'" "\<not> available_to u l' n s"
      using can_go_on_cases [OF q False] .
    have "rank l < rank l'" using locks_okD(2) [OF assms(1) q] u l'(1) by force
    then have "2 - rank l' < 2 - rank l" using rank_bound [of l'] by simp
    from less.hyps [OF this] q l' show ?thesis by blast
  qed
qed

lemma some_thread_goes_on:
  assumes "locks_ok s" and "code s t = Some p"
  shows "\<exists>u. code s u \<noteq> None \<and> can_go_on s u"
proof (cases "can_go_on s t")
  case True
  with assms(2) show ?thesis by auto
next
  case False
  obtain l m q where "p = Lock l m q" "\<not> available_to t l m s" using can_go_on_cases [OF assms(2) False] .
  with waiting_progress [OF assms(1)] assms(2) show ?thesis by blast
qed

text \<open>Two threads that are about to act keep apart from each other's maps.\<close>

lemma actions_apart:
  assumes "locks_ok s" and "t \<noteq> u" and "code s t = Some (Act f)" and "code s u = Some (Act g)"
  shows "conns_kept f \<or> conns_untouched g" and "groups_kept f \<or> groups_untouched g"
proof -
  have "locked (held s t) f" "locked (held s u) g"
    using locks_okD(2) [OF assms(1,3)] locks_okD(2) [OF assms(1,4)] by simp_all
  then show "conns_kept f \<or> conns_untouched g" "groups_kept f \<or> groups_untouched g"
    using locks_okD(3) [OF assms(1,2)] unfolding locked_def by (metis imageE lock_mode.distinct(1) prod.collapse)+
qed

end
