(* ===== verification/Threads_Invariants.thy ===== *)
theory Threads_Invariants
  imports Lock_Discipline Subscriptions
begin

section \<open>Invariants under concurrency\<close>

text \<open>
  What the operations keep, the running threads keep: \<open>threads_invariant\<close> extends the contract
  \<open>node_invariant\<close> by the smaller steps a program takes of a handler, and carries every invariant of
  that kind to the states of \<open>service_step\<close>, where the handlers are interleaved.
\<close>

primrec keeps :: "('w \<Rightarrow> bool) \<Rightarrow> 'w prog \<Rightarrow> bool" where
  "keeps J (Fin r) = True"
| "keeps J (Act f) =
     (\<forall>w. J w \<longrightarrow> (case map_option (map_prod id (keeps J)) (f w) of None \<Rightarrow> True | Some (w', b) \<Rightarrow> J w' \<and> b))"
| "keeps J (Lock l m p) = keeps J p"
| "keeps J (Unlock l p) = keeps J p"

named_theorems keeps_intros \<open>programs that keep an invariant\<close>

lemma keeps_Act:
  "(\<And>w w' p. J w \<Longrightarrow> f w = Some (w', p) \<Longrightarrow> J w' \<and> keeps J p) \<Longrightarrow> keeps J (Act f)"
  by (auto split: option.splits)

lemma keeps_ActD:
  assumes "keeps J (Act f)" and "J w" and "f w = Some (w', p)"
  shows "J w' \<and> keeps J p"
proof -
  from assms(1,2) have "case map_option (map_prod id (keeps J)) (f w) of None \<Rightarrow> True | Some (w', b) \<Rightarrow> J w' \<and> b" by simp
  with assms(3) show ?thesis by simp
qed

lemma keeps_Step: "(\<And>w. J w \<Longrightarrow> J (f w)) \<Longrightarrow> keeps J p \<Longrightarrow> keeps J (Step f p)"
  unfolding Step_def by (rule keeps_Act) auto

lemma keeps_Fin [keeps_intros]: "keeps J (Fin r)"
  by simp

lemma keeps_Lock [keeps_intros]: "keeps J p \<Longrightarrow> keeps J (Lock l m p)"
  by simp

lemma keeps_Unlock [keeps_intros]: "keeps J p \<Longrightarrow> keeps J (Unlock l p)"
  by simp

definition threads_keep :: "('w \<Rightarrow> bool) \<Rightarrow> 'w threads \<Rightarrow> bool" where
  "threads_keep J s \<longleftrightarrow> J (mem s) \<and> (\<forall>t p. code s t = Some p \<longrightarrow> keeps J p)"

lemma threads_keep_start: "threads_keep J s \<Longrightarrow> keeps J p \<Longrightarrow> threads_keep J (s\<lparr>code := (code s)(t := Some p)\<rparr>)"
  by (simp add: threads_keep_def)

lemma thread_step_keeps:
  assumes "thread_step t s s'" and "threads_keep J s"
  shows "threads_keep J s'"
  using assms(1)
proof cases
  case (act f w' p)
  from assms(2) act(2) have "keeps J (Act f)" "J (mem s)" unfolding threads_keep_def by blast+
  from keeps_ActD [OF this act(3)] have "J w' \<and> keeps J p" .
  with act assms(2) show ?thesis by (simp add: threads_keep_def)
next
  case (lock l m p)
  with assms(2) have "keeps J (Lock l m p)" unfolding threads_keep_def by blast
  with lock assms(2) show ?thesis by (simp add: threads_keep_def)
next
  case (unlock l p)
  with assms(2) have "keeps J (Unlock l p)" unfolding threads_keep_def by blast
  with unlock assms(2) show ?thesis by (simp add: threads_keep_def)
next
  case (finish r)
  with assms(2) show ?thesis by (simp add: threads_keep_def)
qed

locale threads_invariant = node_invariant +
  assumes group_scan: "G gm \<Longrightarrow> G (um_modify j [] (\<lambda>m. fold (\<lambda>u ss. if user_id u = i then ss_insert i ss else ss) (us :: groupuser list) m) gm)"
    and leave_entry: "G gm \<Longrightarrow> G (gm[k := (fst (gm ! k), ss_erase i (snd (gm ! k)))])"
    and swap_tasks: "R s \<Longrightarrow> R (s\<lparr>sub_tasks := []\<rparr>)"
    and one_task: "R s \<Longrightarrow> R (run_sub_tasks (c_redis E) [t] s)"
begin

lemma keeps_Mysql [keeps_intros]:
  "model_op (c_sql E) (\<lambda>m. snd (f m)) \<Longrightarrow> (\<And>v. keeps node_inv (k v)) \<Longrightarrow> keeps node_inv (Mysql f k)"
  unfolding Mysql_def by (rule keeps_Act) (auto split: prod.splits dest: inv_mysql)

lemma keeps_Redis [keeps_intros]:
  "client_op (c_redis E) (\<lambda>s. snd (f s)) \<Longrightarrow> (\<And>v. keeps node_inv (k v)) \<Longrightarrow> keeps node_inv (Redis f k)"
  unfolding Redis_def by (rule keeps_Act) (auto split: prod.splits dest: inv_redis)

lemma keeps_Store [keeps_intros]: "keeps node_inv p \<Longrightarrow> keeps node_inv (Store E u tx p)"
  unfolding Store_def by (rule keeps_Act) (auto intro: inv_offline split: option.splits)

lemma keeps_send [keeps_intros]: "keeps node_inv p \<Longrightarrow> keeps node_inv (Step (send c tx) p)"
  by (rule keeps_Step) simp_all

lemma keeps_client [keeps_intros]:
  "client_op (c_redis E) f \<Longrightarrow> keeps node_inv p \<Longrightarrow> keeps node_inv (Step (\<lambda>w. w\<lparr>rc := f (rc w)\<rparr>) p)"
  by (rule keeps_Step) (simp_all add: inv_client)

lemma keeps_conn_insert [keeps_intros]:
  "keeps node_inv p \<Longrightarrow> keeps node_inv (Step (\<lambda>w. w\<lparr>userConnMap := um_insert i c (userConnMap w)\<rparr>) p)"
  by (rule keeps_Step) (simp_all add: node_inv_def conn_insert)

lemma keeps_conn_erase [keeps_intros]:
  "keeps node_inv p \<Longrightarrow> keeps node_inv (Step (\<lambda>w. w\<lparr>userConnMap := um_erase i (userConnMap w)\<rparr>) p)"
  by (rule keeps_Step) (simp_all add: node_inv_def conn_erase)

lemma keeps_group_join [keeps_intros]:
  "keeps node_inv p \<Longrightarrow> keeps node_inv (Step (\<lambda>w. w\<lparr>groupMembers := um_modify g [] (ss_insert i) (groupMembers w)\<rparr>) p)"
  by (rule keeps_Step) (simp_all add: node_inv_def group_join)

lemma keeps_group_load [keeps_intros]:
  "keeps node_inv p \<Longrightarrow>
   keeps node_inv (Step (\<lambda>w. w\<lparr>groupMembers := fold (\<lambda>i gm. um_modify g [] (ss_insert i) gm) is (groupMembers w)\<rparr>) p)"
  by (rule keeps_Step) (simp_all add: node_inv_def G_join)

lemmas keep_rules = keeps_intros model_op.intros client_op_intros

subsection \<open>The programs of the service\<close>

lemma keeps_friend_texts: "(\<And>v. keeps node_inv (k v)) \<Longrightarrow> keeps node_inv (friend_texts_prog E us k)"
  by (induction us arbitrary: k) (auto intro!: keep_rules simp del: keeps.simps)

lemma keeps_member_texts: "(\<And>v. keeps node_inv (k v)) \<Longrightarrow> keeps node_inv (member_texts_prog E us k)"
  by (induction us arbitrary: k) (auto intro!: keep_rules simp del: keeps.simps)

lemma keeps_group_texts: "(\<And>v. keeps node_inv (k v)) \<Longrightarrow> keeps node_inv (group_texts_prog E i gs k)"
proof (induction gs arbitrary: k)
  case (Cons g gs)
  have "keeps node_inv (group_texts_prog E i gs (\<lambda>texts. k (tx # texts)))" for tx by (rule Cons.IH) (rule Cons.prems)
  then show ?case
    unfolding group_texts_prog.simps
    by (intro keeps_member_texts keeps_Lock keeps_Step keeps_Unlock) (auto simp: node_inv_def group_scan client client_op_intros)
qed simp

lemma keeps_login_success: "keeps node_inv (login_success_prog E conn i u)"
  unfolding login_success_prog_def login_friends_prog_def login_groups_prog_def
  by (auto intro!: keep_rules keeps_friend_texts keeps_group_texts simp del: keeps.simps)

lemma keeps_leave: "keeps node_inv (leave_prog i)"
proof -
  have e: "keeps node_inv (leave_entries i k n p)" if "keeps node_inv p" for k n p
    using that
  proof (induction n arbitrary: k)
    case (Suc n)
    then have "keeps node_inv (leave_entries i (Suc k) n p)" by simp
    moreover from this have "keeps node_inv (Step (\<lambda>w. w\<lparr>rc := unsubscribeGroupChannel g (rc w)\<rparr>) (leave_entries i (Suc k) n p))" for g
      by (intro keeps_client client_op.frame frame_op.unsubscribe)
    moreover have "node_inv (w\<lparr>groupMembers := (groupMembers w)[k := (g, ss_erase i m)]\<rparr>)"
      if "node_inv w" "groupMembers w ! k = (g, m)" for w g m
      using leave_entry [of "groupMembers w" k i] that by (simp add: node_inv_def)
    ultimately show ?case
      unfolding leave_entries.simps
      by (intro keeps_Act) (auto simp: Let_def split: prod.splits if_splits simp del: keeps.simps)
  qed simp
  show ?thesis unfolding leave_prog_def by (intro keeps_Lock keeps_Act) (auto intro!: e)
qed

lemma keeps_clientQuit: "keeps node_inv (clientQuit_prog E conn)"
  unfolding clientQuit_prog_def
  by (intro keeps_Lock keeps_Act)
    (auto simp: node_inv_def conn_remove split: option.splits intro!: keep_rules keeps_leave simp del: keeps.simps)

lemma keeps_deliver: "keeps node_inv (deliver_prog E conn toId js)"
  unfolding deliver_prog_def store_prog_def
  by (intro keeps_Lock keeps_Act) (auto split: option.splits intro!: keep_rules simp del: keeps.simps)

lemma keeps_load_members: "keeps node_inv p \<Longrightarrow> keeps node_inv (load_members_prog E u g p)"
  unfolding load_members_prog_def
  by (intro keeps_Lock keeps_Act) (auto split: option.splits intro!: keep_rules simp del: keeps.simps)

lemma keeps_handler: "keeps node_inv (handler_prog E h conn js)"
  by (cases h)
    (auto simp: login_prog_def loginOut_prog_def reg_prog_def oneChat_prog_def addFriend_prog_def createGroup_prog_def
        joinGroup_prog_def groupChat_prog_def enter_group_prog_def Let_def split: sum.splits
      intro!: keep_rules keeps_login_success keeps_leave keeps_deliver keeps_load_members simp del: keeps.simps)

lemma keeps_inbox: "keeps node_inv p \<Longrightarrow> keeps node_inv (inbox_prog E j p)"
proof -
  assume p: "keeps node_inv p"
  have m: "keeps node_inv (send_members_prog tx us q)" if "keeps node_inv q" for tx us q
    using that by (induction us) (auto intro!: keep_rules keeps_Step split: option.splits simp del: keeps.simps)
  have a: "keeps node_inv (Act (\<lambda>w. case map_of (userConnMap w) toId of
                      Some c \<Rightarrow> Some (send c (c_dump E j @ [CHR 0x0A]) w, Unlock User_conn_mutex (Unlock Callback_mutex p))
                    | None \<Rightarrow>
                        Some (w, Store E toId (c_dump E j)
                          (Redis (pushOfflineMessage (c_redis E) toId (c_dump E j)) (\<lambda>_.
                             Unlock User_conn_mutex (Unlock Callback_mutex p))))))" for toId
    using p by (intro keeps_Act) (auto split: option.splits intro!: keep_rules simp del: keeps.simps)
  have b: "keeps node_inv (Act (\<lambda>w. Some (w,
                           case map_of (groupMembers w) groupid of
                             None \<Rightarrow> Unlock Group_mutex (Unlock Callback_mutex p)
                           | Some uids \<Rightarrow>
                               send_members_prog (c_dump E j @ [CHR 0x0A]) uids
                                 (Unlock Group_mutex (Unlock Callback_mutex p)))))" for groupid
    using p by (intro keeps_Act) (auto split: option.splits intro!: keep_rules m simp del: keeps.simps)
  from p show ?thesis
    unfolding inbox_prog_def
    by (auto split: option.splits sum.splits intro!: keeps_Lock keeps_Unlock a b simp del: keeps.simps)
qed

lemma keeps_subscriber: "keeps node_inv (subscriber_prog E consumed)"
proof -
  have t: "keeps node_inv (sub_tasks_prog E ts)" for ts
  proof (induction ts)
    case (Cons t ts)
    have "node_inv (w\<lparr>rc := run_sub_tasks (c_redis E) [t] (rc w)\<rparr>)" if "node_inv w" for w
      using that by (simp add: node_inv_def one_task del: run_sub_tasks.simps)
    with Cons show ?case by (cases t) (auto intro!: keeps_Step keeps_Fin simp del: keeps.simps run_sub_tasks.simps)
  qed simp
  have "keeps node_inv (swap_tasks_prog E)"
    unfolding swap_tasks_prog_def by (rule keeps_Act) (auto simp: node_inv_def swap_tasks intro: t)
  then show ?thesis
    unfolding subscriber_prog_def
    by (intro keeps_Act) (auto split: option.splits if_splits intro!: keeps_inbox keeps_Fin simp del: keeps.simps)
qed

lemma service_step_keeps: "service_step E loop_of s s' \<Longrightarrow> threads_keep node_inv s \<Longrightarrow> threads_keep node_inv s'"
  by (erule service_stepE)
    (auto simp: message_prog_def connection_prog_def split: option.splits sum.splits
      intro!: threads_keep_start keeps_handler keeps_clientQuit keeps_subscriber keeps_Fin
      intro: thread_step_keeps simp del: keeps.simps)

lemma service_reach_inv:
  assumes "(service_step E loop_of)\<^sup>*\<^sup>* (all_idle w) s" and "node_inv w"
  shows "node_inv (mem s)"
proof -
  from assms(1) have "threads_keep node_inv s"
  proof (induction rule: rtranclp_induct)
    case base
    from assms(2) show ?case by (simp add: threads_keep_def all_idle_def)
  next
    case (step y z)
    from step.hyps(2) step.IH show ?case by (rule service_step_keeps)
  qed
  then show ?thesis by (simp add: threads_keep_def)
qed

end

subsection \<open>The invariants of the node\<close>

lemma groups_wf_entry: "groups_wf gm \<Longrightarrow> groups_wf (gm[k := (fst (gm ! k), ss_erase i (snd (gm ! k)))])"
proof (cases "k < length gm")
  case True
  assume g: "groups_wf gm"
  have "map fst (gm[k := (fst (gm ! k), ss_erase i (snd (gm ! k)))]) = map fst gm"
    using True by (simp add: map_update list_update_same_conv)
  moreover have "ss_wf m" if "m \<in> snd ` set (gm[k := (fst (gm ! k), ss_erase i (snd (gm ! k)))])" for m
  proof -
    have "ss_wf (snd (gm ! k))" using g True by (auto simp: groups_wf_def)
    with g that set_update_subset_insert [of gm k "(fst (gm ! k), ss_erase i (snd (gm ! k)))"] show ?thesis
      by (auto simp: groups_wf_def)
  qed
  ultimately show ?thesis using g by (simp add: groups_wf_def um_wf_def)
qed (simp add: list_update_beyond)

lemma groups_wf_scan:
  "groups_wf gm \<Longrightarrow> groups_wf (um_modify j [] (\<lambda>m. fold (\<lambda>u ss. if user_id u = i then ss_insert i ss else ss) us m) gm)"
proof (rule groups_wf_modify)
  fix m :: "int list"
  assume "ss_wf m"
  then show "ss_wf (fold (\<lambda>u ss. if user_id u = i then ss_insert i ss else ss) us m)"
    by (induction us arbitrary: m) simp_all
qed

interpretation maps_threads: threads_invariant E "\<lambda>_. True" "\<lambda>s. True" um_wf groups_wf
  for E :: "('db, 'rd) chat_env"
  by unfold_locales (simp_all add: groups_wf_entry groups_wf_scan)

interpretation pool_threads: threads_invariant E "\<lambda>st. mset (connections (pool (ms st))) \<subseteq># mset cs" "\<lambda>s. True"
  "\<lambda>um. True" "\<lambda>gm. True" for E :: "('db, 'rd) chat_env" and cs
  by unfold_locales simp_all

lemma database_threads:
  assumes "\<And>c s d. P d \<Longrightarrow> P (snd (c_sql E c s d))"
  shows "threads_invariant E (\<lambda>st. P (db (ms st))) (\<lambda>s. True) (\<lambda>um. True) (\<lambda>gm. True)"
  using database_invariant [of P E, OF assms] by (simp add: threads_invariant_def threads_invariant_axioms_def)

lemma subscriptions_threads:
  assumes "redis_reliable (r_exec (c_redis E)) rv"
  shows "threads_invariant E (\<lambda>st. True) (\<lambda>s. subscriptions_agree (rv (rd s)) (sub_group_set s)) (\<lambda>um. True) (\<lambda>gm. True)"
  using redis_reliable.subscriptions_invariant [OF assms refl] redis_reliable.run_sub_tasks_agree [OF assms refl]
  by (simp add: threads_invariant_def threads_invariant_axioms_def)

end
