(* ===== verification/Threads_Properties.thy ===== *)
theory Threads_Properties
  imports Threads_Locks Threads_Invariants Conversation
begin

section \<open>Properties of the service under concurrency\<close>

text \<open>
  What holds of the threads of \<open>Service_Threads\<close> in every state they can reach, and the race of two
  logins.
\<close>

subsection \<open>Scheduling\<close>

text \<open>A thread may run to the end of its program while the others hold no lock.\<close>

lemma run_Act: "run (Act f) w = (case f w of None \<Rightarrow> None | Some (w', p) \<Rightarrow> run p w')"
  by (cases "f w") auto

lemma run_alone:
  assumes "disciplined p (held s t)" and "\<And>u. u \<noteq> t \<Longrightarrow> held s u = []"
    and "code s t = Some p" and "run p (mem s) = Some (r, w')"
  shows "(thread_step t)\<^sup>*\<^sup>* s (s\<lparr>mem := w', held := (held s)(t := []), code := (code s)(t := Some (Fin r))\<rparr>)"
  using assms
proof (induction p arbitrary: s)
  case (Fin r')
  then have "s\<lparr>mem := w', held := (held s)(t := []), code := (code s)(t := Some (Fin r))\<rparr> = s"
    by (simp add: fun_upd_idem)
  then show ?case by (simp only: rtranclp.rtrancl_refl)
next
  case (Act f)
  from Act.prems(4) obtain w1 p where f: "f (mem s) = Some (w1, p)" and r: "run p w1 = Some (r, w')"
    unfolding run_Act by (auto split: option.splits)
  let ?s = "s\<lparr>mem := w1, code := (code s)(t := Some p)\<rparr>"
  have "thread_step t s ?s" using Act.prems(3) f by (rule thread_step.act)
  moreover have "disciplined p (held s t)" using Act.prems(1) f by (rule disciplined_ActD)
  then have "(thread_step t)\<^sup>*\<^sup>* ?s (?s\<lparr>mem := w', held := (held ?s)(t := []), code := (code ?s)(t := Some (Fin r))\<rparr>)"
    by (intro Act.IH [of "Some (w1, p)" "(w1, p)" p]) (use Act.prems f r in \<open>auto intro: range_eqI [of _ _ "mem s"]\<close>)
  ultimately show ?case by (simp add: converse_rtranclp_into_rtranclp del: fun_upd_apply)
next
  case (Lock l m p)
  have "available_to t l m s"
    unfolding available_to_def using Lock.prems(1,2) by (metis disciplined.simps(3) empty_iff fst_conv imageI list.set(1) order_less_irrefl)
  with Lock.prems(3) have "thread_step t s (s\<lparr>held := (held s)(t := (l, m) # held s t), code := (code s)(t := Some p)\<rparr>)"
    (is "thread_step t s ?s") by (rule thread_step.lock)
  moreover have "(thread_step t)\<^sup>*\<^sup>* ?s (?s\<lparr>mem := w', held := (held ?s)(t := []), code := (code ?s)(t := Some (Fin r))\<rparr>)"
    by (intro Lock.IH) (use Lock.prems in auto)
  ultimately show ?case by (simp add: converse_rtranclp_into_rtranclp del: fun_upd_apply)
next
  case (Unlock l p)
  from Unlock.prems(3) have "thread_step t s (s\<lparr>held := (held s)(t := filter (\<lambda>h. fst h \<noteq> l) (held s t)), code := (code s)(t := Some p)\<rparr>)"
    (is "thread_step t s ?s") by (rule thread_step.unlock)
  moreover have "(thread_step t)\<^sup>*\<^sup>* ?s (?s\<lparr>mem := w', held := (held ?s)(t := []), code := (code ?s)(t := Some (Fin r))\<rparr>)"
    by (intro Unlock.IH) (use Unlock.prems in auto)
  ultimately show ?case by (simp add: converse_rtranclp_into_rtranclp del: fun_upd_apply)
qed

lemma service_reach_thread:
  "(thread_step t)\<^sup>*\<^sup>* s s' \<Longrightarrow> (service_step E loop_of)\<^sup>*\<^sup>* s s'"
  by (induction rule: rtranclp_induct) (auto intro: rtranclp.rtrancl_into_rtrancl service_step.running)

text \<open>From a state where no lock is held, a thread can run its program and finish.\<close>

definition no_locks :: "'w threads \<Rightarrow> bool" where
  "no_locks s \<longleftrightarrow> (\<forall>t. held s t = [])"

lemma run_to_end:
  assumes "no_locks s" and "code s t = Some p" and "disciplined p []" and "run p (mem s) = Some (r, w')"
  shows "(service_step E loop_of)\<^sup>*\<^sup>* s (s\<lparr>mem := w', code := (code s)(t := None)\<rparr>)"
proof -
  let ?s = "s\<lparr>mem := w', held := (held s)(t := []), code := (code s)(t := Some (Fin r))\<rparr>"
  have "(thread_step t)\<^sup>*\<^sup>* s ?s"
    by (rule run_alone) (use assms in \<open>auto simp: no_locks_def\<close>)
  moreover have "thread_step t ?s (?s\<lparr>code := (code ?s)(t := None)\<rparr>)" by (rule thread_step.finish) simp
  ultimately have "(thread_step t)\<^sup>*\<^sup>* s (?s\<lparr>code := (code ?s)(t := None)\<rparr>)" by (rule rtranclp.rtrancl_into_rtrancl)
  moreover have "(held s)(t := []) = held s" using assms(1) by (simp add: no_locks_def fun_upd_idem)
  ultimately have "(thread_step t)\<^sup>*\<^sup>* s (s\<lparr>mem := w', code := (code s)(t := None)\<rparr>)" by simp
  then show ?thesis by (rule service_reach_thread)
qed

lemma run_act:
  assumes "code s t = Some (Act f)" and "f (mem s) = Some (w', p)"
  shows "(service_step E loop_of)\<^sup>*\<^sup>* s (s\<lparr>mem := w', code := (code s)(t := Some p)\<rparr>)"
  by (rule r_into_rtranclp, rule service_step.running, rule thread_step.act [OF assms])

subsection \<open>Two logins at the same time\<close>

lemma message_is_login:
  assumes "c_parse E buf = Some js" and "json_get ''msgid'' js = Some v" and "get_int v = Inr LOGIN_MSG"
  shows "message_prog E conn buf = login_prog E conn js"
proof -
  have "field_int ''msgid'' js = Inr (LOGIN_MSG, js)"
    by (rule field_int_present [OF assms(2,3)])
  then show ?thesis using assms(1) by (simp add: message_prog_def getHandler_def msgHandlerMap_def msg_defs)
qed

context mysql_reliable
begin

lemma UserModel_query_keeps:
  assumes "available m" and "tables_wf cfg (view (db m))" and "(i, n, p, s) \<in> set (t_User (view (db m)))"
  shows "available (snd (UserModel_query exec i m))" and "view (db (snd (UserModel_query exec i m))) = view (db m)"
proof -
  obtain c cs rows d' where c: "connections (pool m) = Some c # cs" "None \<notin> set cs"
    "exec c (SelectUser i) (db m) = (Inr rows, d')" "sql_effect cfg c (SelectUser i) (view (db m)) rows (view d')"
    by (rule call_ok [OF assms(1), of "SelectUser i"]) auto
  have "user_rows (view (db m)) i = [(i, [n, p, s])]"
    using assms(2,3) by (auto simp: tables_wf_def intro: user_rows_unique)
  with c show "available (snd (UserModel_query exec i m))" "view (db (snd (UserModel_query exec i m))) = view (db m)"
    by (simp_all add: UserModel_query_def sql_call_exec available_def no_null_def)
qed

end

text \<open>
  What the check of a login needs, on the servers and of the user, and that the check, the first two
  actions of the program, keeps it.
\<close>

definition may_log_in ::
  "sql_config \<Rightarrow> ('db \<Rightarrow> tables) \<Rightarrow> ('rd \<Rightarrow> keyspace) \<Rightarrow> user \<Rightarrow> ('db, 'rd) chat_state \<Rightarrow> bool" where
  "may_log_in cfg tv rv u w \<longleftrightarrow>
     available (ms (off w)) \<and> tables_wf cfg (tv (db (ms (off w)))) \<and>
     (user_id u, user_name u, user_password u, user_state u) \<in> set (t_User (tv (db (ms (off w))))) \<and>
     rready (rc w) \<and> (\<exists>h. user_hash (rv (rd (rc w))) (user_id u) = Some h) \<and> \<not> user_online (rv (rd (rc w))) (user_id u)"

lemma login_checked:
  assumes db: "mysql_reliable cfg (c_sql E) tv" and red: "redis_reliable (r_exec (c_redis E)) rv"
    and ok: "may_log_in cfg tv rv u (mem s)"
    and js: "json_get ''id'' js = Some v" "get_int v = Inr (user_id u)" "json_get ''password'' js = Some (JStr (user_password u))"
    and code: "code s t = Some (login_prog E conn js)"
  shows "\<exists>w. (service_step E loop_of)\<^sup>*\<^sup>* s
      (s\<lparr>mem := w, code := (code s)(t := Some (login_success_prog E conn (user_id u) u))\<rparr>) \<and>
    may_log_in cfg tv rv u w \<and> userConnMap w = userConnMap (mem s) \<and> sent w = sent (mem s)"
proof -
  let ?i = "user_id u" and ?w = "mem s"
  let ?w1 = "?w\<lparr>off := (off ?w)\<lparr>ms := snd (UserModel_query (c_sql E) ?i (ms (off ?w)))\<rparr>\<rparr>"
  let ?w2 = "?w1\<lparr>rc := snd (isUserOnline (c_redis E) ?i (rc ?w))\<rparr>"
  note ok' = ok [unfolded may_log_in_def]
  have q: "fst (UserModel_query (c_sql E) ?i (ms (off ?w))) = u"
    using mysql_reliable.UserModel_query_ok [OF db] ok' by (fastforce simp: User_def)
  obtain h where h: "user_hash (rv (rd (rc ?w))) ?i = Some h" using ok' by blast
  with redis_reliable.isUserOnline_ok [OF red refl] ok' have on: "\<not> fst (isUserOnline (c_redis E) ?i (rc ?w))" by blast
  obtain k where k: "login_prog E conn js = Mysql (UserModel_query (c_sql E) ?i) k"
    and k2: "k u = Redis (isUserOnline (c_redis E) ?i) (\<lambda>online. if online then
        Step (send conn (c_dump E (json_obj [(''msgid'', JInt LOGIN_MSG_ACK), (''errno'', JInt 2),
          (''errormsg'', JStr already_online_text)]))) (Fin (Inr ()))
        else login_success_prog E conn ?i u)"
    using js by (auto simp: login_prog_def field_int_present field_string_present)
  let ?s1 = "s\<lparr>mem := ?w1, code := (code s)(t := Some (k u))\<rparr>"
  have "(service_step E loop_of)\<^sup>*\<^sup>* s ?s1"
    using code unfolding k Mysql_def by (rule run_act) (simp add: on_mysql_eq q)
  moreover have "(service_step E loop_of)\<^sup>*\<^sup>* ?s1 (?s1\<lparr>mem := ?w2, code := (code ?s1)(t := Some (login_success_prog E conn ?i u))\<rparr>)"
    by (rule run_act) (simp add: k2 Redis_def, simp add: on_redis_eq on)
  ultimately have "(service_step E loop_of)\<^sup>*\<^sup>* s (s\<lparr>mem := ?w2, code := (code s)(t := Some (login_success_prog E conn ?i u))\<rparr>)"
    by (simp del: fun_upd_apply)
  moreover have "may_log_in cfg tv rv u ?w2"
    using ok' mysql_reliable.UserModel_query_keeps [OF db, of "ms (off ?w)" ?i "user_name u" "user_password u" "user_state u"]
      redis_op_rready(1) redis_server.read_ops_view [OF redis_reliable.axioms(1) [OF red] refl]
    by (auto simp: may_log_in_def)
  ultimately show ?thesis by (intro exI [of _ ?w2]) simp
qed

lemma login_reaches_check:
  assumes "mysql_reliable cfg (c_sql E) tv" and "redis_reliable (r_exec (c_redis E)) rv" and "may_log_in cfg tv rv u (mem s)"
    and "c_parse E buf = Some js" and "json_get ''msgid'' js = Some m" and "get_int m = Inr LOGIN_MSG"
    and "json_get ''id'' js = Some v" and "get_int v = Inr (user_id u)" and "json_get ''password'' js = Some (JStr (user_password u))"
    and "code s (Loop (loop_of c)) = None"
  obtains w where "(service_step E loop_of)\<^sup>*\<^sup>* s
      (s\<lparr>mem := w, code := (code s)(Loop (loop_of c) := Some (login_success_prog E c (user_id u) u))\<rparr>)"
    and "may_log_in cfg tv rv u w" and "userConnMap w = userConnMap (mem s)" and "sent w = sent (mem s)"
proof -
  let ?t = "Loop (loop_of c)"
  let ?s = "s\<lparr>code := (code s)(?t := Some (login_prog E c js))\<rparr>"
  have "service_step E loop_of s ?s"
    using service_step.message [of s loop_of c E buf, OF assms(10)] by (simp add: message_is_login [OF assms(4-6)])
  moreover obtain w where "(service_step E loop_of)\<^sup>*\<^sup>* ?s
      (?s\<lparr>mem := w, code := (code ?s)(?t := Some (login_success_prog E c (user_id u) u))\<rparr>)"
    and w: "may_log_in cfg tv rv u w" "userConnMap w = userConnMap (mem s)" "sent w = sent (mem s)"
    using login_checked [OF assms(1,2) _ assms(7-9), of ?s ?t c loop_of] assms(3) by auto
  ultimately have "(service_step E loop_of)\<^sup>*\<^sup>* s
      (s\<lparr>mem := w, code := (code s)(?t := Some (login_success_prog E c (user_id u) u))\<rparr>)"
    by (simp add: converse_rtranclp_into_rtranclp del: fun_upd_apply)
  then show thesis using w by (rule that)
qed

lemma login_finishes:
  "no_locks s \<Longrightarrow> code s t = Some (login_success_prog E c i u) \<Longrightarrow>
   (service_step E loop_of)\<^sup>*\<^sup>* s (s\<lparr>mem := login_success E c i u (mem s), code := (code s)(t := None)\<rparr>)"
  by (rule run_to_end [OF _ _ disciplined_login_success run_login_success])

text \<open>
  C18. The check for a second login is not one step with the login itself. Two connections that
  different loops serve send the same login at the same time, while the user is offline: there is an
  interleaving after which both have got errno 0, but the connection map holds the first connection
  only, so the second client is told it is logged in and no message will ever reach it. One after the
  other the second would have been refused with errno 2.
\<close>

theorem double_login_race:
  assumes "mysql_reliable cfg (c_sql E) tv" and "redis_reliable (r_exec (c_redis E)) rv" and "may_log_in cfg tv rv u w"
    and "map_of (userConnMap w) (user_id u) = None" and "loop_of c1 \<noteq> loop_of c2" and "c2 \<notin> snd ` set (userConnMap w)"
    and "c_parse E buf = Some js" and "json_get ''msgid'' js = Some m" and "get_int m = Inr LOGIN_MSG"
    and "json_get ''id'' js = Some v" and "get_int v = Inr (user_id u)" and "json_get ''password'' js = Some (JStr (user_password u))"
  shows "\<exists>s f1 f2. (service_step E loop_of)\<^sup>*\<^sup>* (all_idle w) s \<and> (\<forall>t. code s t = None) \<and>
    sent (mem s) = sent w @ [(c1, c_dump E (json_obj f1)), (c2, c_dump E (json_obj f2))] \<and>
    json_get ''errno'' (json_obj f1) = Some (JInt 0) \<and> json_get ''errno'' (json_obj f2) = Some (JInt 0) \<and>
    map_of (userConnMap (mem s)) (user_id u) = Some c1 \<and> c2 \<notin> snd ` set (userConnMap (mem s))"
proof -
  let ?R = "(service_step E loop_of)\<^sup>*\<^sup>*" and ?l1 = "Loop (loop_of c1)" and ?l2 = "Loop (loop_of c2)"
  let ?p = "\<lambda>c. Some (login_success_prog E c (user_id u) u)" and ?done = "\<lambda>c. login_success E c (user_id u) u"
  note check = login_reaches_check [OF assms(1,2) _ assms(7-12), where loop_of = loop_of]
  define s0 where "s0 = all_idle w"
  have s0: "code s0 t = None" "held s0 t = []" "mem s0 = w" for t by (simp_all add: s0_def all_idle_def)
  obtain w1 where r1: "?R s0 (s0\<lparr>mem := w1, code := (code s0)(?l1 := ?p c1)\<rparr>)"
    and w1: "may_log_in cfg tv rv u w1" "userConnMap w1 = userConnMap w" "sent w1 = sent w"
    using check [of s0 c1] assms(3) by (auto simp: s0)
  let ?s1 = "s0\<lparr>mem := w1, code := (code s0)(?l1 := ?p c1)\<rparr>"
  obtain w2 where r2: "?R ?s1 (?s1\<lparr>mem := w2, code := (code ?s1)(?l2 := ?p c2)\<rparr>)"
    and w2: "userConnMap w2 = userConnMap w" "sent w2 = sent w"
    using check [of ?s1 c2] w1 assms(5) by (auto simp: s0)
  let ?s2 = "?s1\<lparr>mem := w2, code := (code ?s1)(?l2 := ?p c2)\<rparr>"
  let ?s3 = "?s2\<lparr>mem := ?done c1 w2, code := (code ?s2)(?l1 := None)\<rparr>"
  have r3: "?R ?s2 ?s3" using login_finishes [of ?s2 ?l1 E c1 "user_id u" u] assms(5) by (simp add: no_locks_def s0)
  let ?s4 = "?s3\<lparr>mem := ?done c2 (?done c1 w2), code := (code ?s3)(?l2 := None)\<rparr>"
  have "?R ?s3 ?s4" using login_finishes [of ?s3 ?l2 E c2 "user_id u" u] assms(5) by (simp add: no_locks_def s0)
  with r1 r2 r3 have "?R s0 ?s4" by (meson rtranclp_trans)
  moreover have "\<forall>t. code ?s4 t = None" by (simp add: s0)
  moreover have c: "userConnMap (mem ?s4) = um_insert (user_id u) c1 (userConnMap w)"
    by (simp add: login_success_conns w2 um_insert_def assms(4))
  have "map_of (userConnMap (mem ?s4)) (user_id u) = Some c1" "c2 \<notin> snd ` set (userConnMap (mem ?s4))"
    unfolding c using assms(4-6) by (auto simp: um_insert_def map_add_def)
  moreover obtain f1 f2 where
      "sent (mem ?s4) = sent w @ [(c1, c_dump E (json_obj f1)), (c2, c_dump E (json_obj f2))]"
      "json_get ''errno'' (json_obj f1) = Some (JInt 0)" "json_get ''errno'' (json_obj f2) = Some (JInt 0)"
    using login_success_reply [of E c1 "user_id u" u w2] login_success_reply [of E c2 "user_id u" u "?done c1 w2"] w2 by auto
  ultimately show ?thesis unfolding s0_def by blast
qed

text \<open>With the printer and the parser of \<open>Json_Text\<close>: the message of the client, as the parser reads it.\<close>

definition ex_login_text :: string where
  "ex_login_text = json_text ex_fp (json_obj [(''msgid'', JInt LOGIN_MSG), (''id'', JInt 1), (''password'', JStr ''pa'')])"

lemma ex_login_parsed:
  "c_parse ex_wire ex_login_text = Some (JObj [(''id'', JUint 1), (''msgid'', JUint 1), (''password'', JStr ''pa'')])"
  by code_simp

theorem double_login_race_witness:
  "\<exists>s f1 f2. (service_step ex_wire id)\<^sup>*\<^sup>* (all_idle (ex_state [Some 0, Some 1])) s \<and> (\<forall>t. code s t = None) \<and>
     sent (mem s) = [(7, c_dump ex_wire (json_obj f1)), (8, c_dump ex_wire (json_obj f2))] \<and>
     json_get ''errno'' (json_obj f1) = Some (JInt 0) \<and> json_get ''errno'' (json_obj f2) = Some (JInt 0) \<and>
     map_of (userConnMap (mem s)) 1 = Some 7 \<and> 8 \<notin> snd ` set (userConnMap (mem s))"
proof -
  let ?w = "ex_state [Some 0, Some 1]" and ?u = "User 1 ''ann'' ''pa'' ''offline''"
  let ?js = "JObj [(''id'', JUint 1), (''msgid'', JUint 1), (''password'', JStr ''pa'')]"
  have u: "user_id ?u = 1" "user_name ?u = ''ann''" "user_password ?u = ''pa''" "user_state ?u = ''offline''"
    by (simp_all add: User_def)
  have "(1, ''ann'', ''pa'', ''offline'') \<in> set (t_User (db (ms (off ?w))))" by (simp add: ex_defs)
  moreover have "\<not> user_online (rd (rc ?w)) 1" by (simp add: ex_defs user_online_def user_hash_def hash_at_def)
  ultimately have m: "may_log_in ex_cfg (\<lambda>t. t) (\<lambda>ks. ks) ?u ?w"
    using ex_available ex_tables_wf ex_rready ex_user_hash by (auto simp: may_log_in_def u)
  have r: "redis_reliable (r_exec (c_redis ex_wire)) (\<lambda>ks. ks)" using ex_env_redis by (simp add: ex_wire_def)
  have "json_get ''msgid'' ?js = Some (JUint 1)" "json_get ''id'' ?js = Some (JUint 1)"
      "json_get ''password'' ?js = Some (JStr ''pa'')"
    by (simp_all add: json_get_def)
  moreover have "sent ?w = []" "userConnMap ?w = []" by (simp_all add: ex_state_def)
  ultimately show ?thesis
    using double_login_race [OF ex_wire_sql r m _ _ _ ex_login_parsed, of id 7 8 "JUint 1" "JUint 1"] by (simp add: u to_int32_def msg_defs)
qed

subsection \<open>Locks\<close>

lemma ex_login_running:
  "service_step ex_env id (all_idle (ex_state [Some 0]))
     ((all_idle (ex_state [Some 0]))\<lparr>code := (\<lambda>t. None)(Loop 7 := Some (message_prog ex_env 7 ''login''))\<rparr>)"
  using service_step.message [of "all_idle (ex_state [Some 0])" id 7 ex_env "''login''"] by (simp add: all_idle_def)

text \<open>
  C8. The locks of the service cannot deadlock: in every state of the running node, whatever messages
  arrive, connections close and the subscriber consumes, and however the threads interleave, if some
  thread has work to do then some thread can go on, or is in an operation that never returns, such as
  the retry loop of the offline store.
\<close>

theorem service_never_deadlocks:
  assumes "(service_step E loop_of)\<^sup>*\<^sup>* (all_idle w) s" and "code s t \<noteq> None"
  shows "\<exists>u. code s u \<noteq> None \<and> ((\<exists>s'. thread_step u s s') \<or> (\<exists>f. code s u = Some (Act f) \<and> f (mem s) = None))"
  using some_thread_goes_on [OF service_reach_locks_ok [OF assms(1)], of t] assms(2) by (auto simp: can_go_on_def)

theorem service_never_deadlocks_witness:
  "\<exists>s u. (service_step ex_env id)\<^sup>*\<^sup>* (all_idle (ex_state [Some 0])) s \<and> code s (Loop 7) \<noteq> None \<and>
     ((\<exists>s'. thread_step u s s') \<or> (\<exists>f. code s u = Some (Act f) \<and> f (mem s) = None))"
proof -
  let ?s = "(all_idle (ex_state [Some 0]))\<lparr>code := (\<lambda>t. None)(Loop 7 := Some (message_prog ex_env 7 ''login''))\<rparr>"
  have r: "(service_step ex_env id)\<^sup>*\<^sup>* (all_idle (ex_state [Some 0])) ?s" using ex_login_running by (rule r_into_rtranclp)
  moreover have c: "code ?s (Loop 7) \<noteq> None" by simp
  ultimately show ?thesis using service_never_deadlocks [OF r c] by blast
qed

text \<open>
  C14. There is no data race on the connection map or on the group map: two threads are never both
  about to act so that one writes a map and the other reads or writes it.
\<close>

theorem service_maps_race_free:
  assumes "(service_step E loop_of)\<^sup>*\<^sup>* (all_idle w) s" and "t \<noteq> u"
    and "code s t = Some (Act f)" and "code s u = Some (Act g)"
  shows "(conns_kept f \<or> conns_untouched g) \<and> (groups_kept f \<or> groups_untouched g)"
  using actions_apart [OF service_reach_locks_ok [OF assms(1)] assms(2-4)] by blast

theorem service_maps_race_free_witness:
  "\<exists>s f g. (service_step ex_env id)\<^sup>*\<^sup>* (all_idle (ex_state [Some 0])) s \<and>
     code s (Loop 7) = Some (Act f) \<and> code s Subscriber = Some (Act g) \<and>
     (conns_kept f \<or> conns_untouched g) \<and> (groups_kept f \<or> groups_untouched g)"
proof -
  let ?w = "ex_state [Some 0]"
  let ?js = "json_obj [(''msgid'', JInt 1), (''id'', JInt 1), (''password'', JStr ''pa'')]"
  let ?s1 = "(all_idle ?w)\<lparr>code := (\<lambda>t. None)(Loop 7 := Some (message_prog ex_env 7 ''login''))\<rparr>"
  let ?s2 = "?s1\<lparr>code := (code ?s1)(Subscriber := Some (subscriber_prog ex_env None))\<rparr>"
  have "service_step ex_env id ?s1 ?s2" by (rule service_step.consume) simp
  moreover have "(service_step ex_env id)\<^sup>*\<^sup>* (all_idle ?w) ?s1" using ex_login_running by (rule r_into_rtranclp)
  ultimately have r: "(service_step ex_env id)\<^sup>*\<^sup>* (all_idle ?w) ?s2" by (rule rtranclp.rtrancl_into_rtrancl [rotated])
  have "message_prog ex_env 7 ''login'' = login_prog ex_env 7 ?js"
    by (rule message_is_login [of _ _ _ "JInt 1"]) (simp_all add: ex_env_def ex_parse_def json_get_json_obj msg_defs to_int32_def)
  moreover have "field_int ''id'' ?js = Inr (1, ?js)"
    by (rule field_int_present [of _ _ "JInt 1"]) (simp_all add: json_get_json_obj to_int32_def)
  moreover have "field_string ''password'' ?js = Inr (''pa'', ?js)"
    by (rule field_string_present) (simp add: json_get_json_obj)
  ultimately obtain f where f: "message_prog ex_env 7 ''login'' = Act f" by (simp add: login_prog_def Mysql_def)
  obtain g where g: "subscriber_prog ex_env None = Act g" by (simp add: subscriber_prog_def)
  have "code ?s2 (Loop 7) = Some (Act f)" "code ?s2 Subscriber = Some (Act g)" by (simp_all add: f g)
  with service_maps_race_free [OF r _ this] r show ?thesis by blast
qed

subsection \<open>A node with atomic handlers\<close>

text \<open>
  Every run of a node whose handlers are single steps is one the threads can take: each event finds the
  locks free, runs to its end and leaves them free. What \<open>node_step\<close> shows to be possible is
  possible for the threads.
\<close>

lemma thread_does_handler:
  assumes "service_step E loop_of (all_idle w) ((all_idle w)\<lparr>code := (code (all_idle w))(t := Some p)\<rparr>)"
    and "disciplined p []" and "map_option snd (run p w) = Some w'"
  shows "(service_step E loop_of)\<^sup>*\<^sup>* (all_idle w) (all_idle w')"
proof -
  let ?s = "(all_idle w)\<lparr>code := (code (all_idle w))(t := Some p)\<rparr>"
  obtain r where "run p (mem ?s) = Some (r, w')" using assms(3) by (auto simp: all_idle_def)
  then have "(service_step E loop_of)\<^sup>*\<^sup>* ?s (?s\<lparr>mem := w', code := (code ?s)(t := None)\<rparr>)"
    by (intro run_to_end) (use assms(2) in \<open>simp_all add: no_locks_def all_idle_def\<close>)
  moreover have "?s\<lparr>mem := w', code := (code ?s)(t := None)\<rparr> = all_idle w'" by (simp add: all_idle_def)
  ultimately show ?thesis using assms(1) by (simp add: converse_rtranclp_into_rtranclp)
qed

theorem node_runs_are_thread_runs:
  assumes "node_reach E w0 w"
  shows "(service_step E loop_of)\<^sup>*\<^sup>* (all_idle w0) (all_idle w)"
  using assms
proof (induction rule: node_reach.induct)
  case (step w w')
  have idle: "code (all_idle w) t = None" for t by (simp add: all_idle_def)
  from step.hyps(2) have "(service_step E loop_of)\<^sup>*\<^sup>* (all_idle w) (all_idle w')"
  proof cases
    case (message conn buf)
    then show ?thesis
      by (intro thread_does_handler [OF service_step.message [OF idle] disciplined_message]) (simp add: run_message)
  next
    case (connection conn connected)
    then show ?thesis
      by (intro thread_does_handler [OF service_step.connection [OF idle] disciplined_connection]) (simp add: run_connection)
  next
    case (subscriber consumed)
    then show ?thesis
      by (intro thread_does_handler [OF service_step.consume [OF idle] disciplined_subscriber]) (simp add: run_subscriber)
  qed
  with step.IH show ?case by (rule rtranclp_trans)
qed simp

subsection \<open>Invariants\<close>

text \<open>
  C7. However the threads interleave inside the handlers, on a database that executes statements as
  documented and a working Redis server: the connection map and the group map have
  one entry per key and every member set is strictly ascending; the tables keep the integrity of the
  schema; no MySQL connection is in the pool twice; and \<open>sub_group_set_\<close> is the set of groups whose
  channels are subscribed.
\<close>

theorem concurrent_invariant:
  assumes "(service_step E loop_of)\<^sup>*\<^sup>* (all_idle w) s"
    and "mysql_server cfg (c_sql E) tv" and "redis_reliable (r_exec (c_redis E)) rv"
    and "um_wf (userConnMap w)" and "groups_wf (groupMembers w)" and "tables_wf cfg (tv (db (ms (off w))))"
    and "subscriptions_agree (rv (rd (rc w))) (sub_group_set (rc w))"
  shows "um_wf (userConnMap (mem s)) \<and> groups_wf (groupMembers (mem s)) \<and> tables_wf cfg (tv (db (ms (off (mem s))))) \<and>
    mset (connections (pool (ms (off (mem s))))) \<subseteq># mset (connections (pool (ms (off w)))) \<and>
    subscriptions_agree (rv (rd (rc (mem s)))) (sub_group_set (rc (mem s)))"
proof -
  note d = database_threads [where P = "\<lambda>d. tables_wf cfg (tv d)", OF mysql_server.exec_wf [OF assms(2)]]
  note r = subscriptions_threads [OF assms(3)]
  have "um_wf (userConnMap (mem s)) \<and> groups_wf (groupMembers (mem s))"
    using maps_threads.service_reach_inv [OF assms(1)] assms(4,5) by (simp add: maps_inv.node_inv_def)
  moreover have "tables_wf cfg (tv (db (ms (off (mem s)))))"
    using threads_invariant.service_reach_inv [OF d assms(1)] assms(6)
    by (simp add: node_invariant.node_inv_iff [OF threads_invariant.axioms(1) [OF d]])
  moreover have "mset (connections (pool (ms (off (mem s))))) \<subseteq># mset (connections (pool (ms (off w))))"
    using pool_threads.service_reach_inv [OF assms(1), of "connections (pool (ms (off w)))"] by (simp add: pool_inv.node_inv_def)
  moreover have "subscriptions_agree (rv (rd (rc (mem s)))) (sub_group_set (rc (mem s)))"
    using threads_invariant.service_reach_inv [OF r assms(1)] assms(7)
    by (simp add: node_invariant.node_inv_iff [OF threads_invariant.axioms(1) [OF r]])
  ultimately show ?thesis by blast
qed

theorem concurrent_invariant_witness:
  "\<exists>s. (service_step ex_env id)\<^sup>*\<^sup>* (all_idle (ex_state [Some 0])) s \<and> code s (Loop 7) \<noteq> None \<and>
     um_wf (userConnMap (mem s)) \<and> tables_wf ex_cfg (db (ms (off (mem s))))"
proof -
  let ?s = "(all_idle (ex_state [Some 0]))\<lparr>code := (\<lambda>t. None)(Loop 7 := Some (message_prog ex_env 7 ''login''))\<rparr>"
  have r: "(service_step ex_env id)\<^sup>*\<^sup>* (all_idle (ex_state [Some 0])) ?s" using ex_login_running by (rule r_into_rtranclp)
  have "um_wf (userConnMap (ex_state [Some 0]))" "groups_wf (groupMembers (ex_state [Some 0]))"
    "subscriptions_agree (rd (rc (ex_state [Some 0]))) (sub_group_set (rc (ex_state [Some 0])))"
    by (simp_all add: ex_defs groups_wf_def subscriptions_agree_def group_channel_def)
  from concurrent_invariant [OF r ex_env_mysql ex_env_redis this(1,2) ex_tables_wf this(3)] r show ?thesis by auto
qed

end
