(* ===== verification/Json_Cut.thy ===== *)
theory Json_Cut
  imports Json_Roundtrip
begin

section \<open>Texts that are cut off\<close>

text \<open>
  A receiver takes the bytes of one \<open>recv\<close> for a whole message. Here is what the parser makes of a
  text that is cut off anywhere: the input ends, or a zero byte follows.
\<close>

definition cut_end :: "string \<Rightarrow> bool" where
  "cut_end z \<longleftrightarrow> (case z of [] \<Rightarrow> True | c # r \<Rightarrow> c = CHR 0x00)"

lemma cut_end_cases:
  assumes "cut_end z"
  obtains "z = []" | r where "z = CHR 0x00 # r"
  using assms by (cases z) (auto simp: cut_end_def)

lemma tokens_cut_end: "cut_end z \<Longrightarrow> tokens F z = [TEnd]"
  by (erule cut_end_cases) (simp_all add: tokens_end)

lemma number_ends_cut_end: "cut_end z \<Longrightarrow> number_ends z"
  by (erule cut_end_cases) simp_all

subsection \<open>String literals\<close>

text \<open>
  The scanner never reads past the cut: what it accepts of a text that is cut, it accepts with any
  continuation.
\<close>

lemma next_byte_cut:
  assumes "next_byte_in_range rs (p @ z) = Some (bs, r)" and "cut_end z" and "\<forall>(lo, hi) \<in> set rs. 0 < lo"
  shows "\<exists>r'. r = r' @ z \<and> (\<forall>y. next_byte_in_range rs (p @ y) = Some (bs, r' @ y))"
  using assms
proof (induction rs p arbitrary: bs rule: next_byte_in_range.induct)
  case (2 a rs)
  from "2.prems"(2) show ?case by (rule cut_end_cases) (use "2.prems" in \<open>auto split: prod.splits if_splits\<close>)
qed (auto split: if_splits)

lemma utf8_ranges_pos: "utf8_ranges b = Some rs \<Longrightarrow> \<forall>(lo, hi) \<in> set rs. 0 < lo"
  by (auto simp: utf8_ranges_def split: if_splits)

lemma get_codepoint_cut:
  assumes "get_codepoint (p @ z) = Some (cp, r)" and "cut_end z"
  shows "\<exists>r'. r = r' @ z \<and> (\<forall>y. get_codepoint (p @ y) = Some (cp, r' @ y))"
proof -
  from assms(1) obtain a b c d u where e: "p @ z = a # b # c # d # u" and
    h: "hex_value a \<noteq> None" "hex_value b \<noteq> None" "hex_value c \<noteq> None" "hex_value d \<noteq> None"
    by (cases "p @ z" rule: get_codepoint.cases) (auto split: option.splits)
  have "hex_value (CHR 0x00) = None" by (simp add: hex_value_def)
  with e h assms(2) obtain p' where "p = a # b # c # d # p'"
    by (cases p rule: get_codepoint.cases) (auto simp: append_eq_Cons_conv elim!: cut_end_cases)
  with assms(1) show ?thesis by (auto split: option.splits)
qed

definition item_goes_on :: "(string \<Rightarrow> scan_item) \<Rightarrow> string \<Rightarrow> string \<Rightarrow> bool" where
  "item_goes_on f p z \<longleftrightarrow>
     (\<forall>bs r. f (p @ z) = Added bs r \<longrightarrow> (\<exists>r'. r = r' @ z \<and> (\<forall>y. f (p @ y) = Added bs (r' @ y)))) \<and>
     (\<forall>r. f (p @ z) = Closed r \<longrightarrow> (\<exists>r'. r = r' @ z \<and> (\<forall>y. f (p @ y) = Closed (r' @ y))))"

lemma scan_unicode_cut:
  assumes "cut_end z"
  shows "item_goes_on scan_unicode p z"
proof -
  have "\<exists>r'. r = r' @ z \<and> (\<forall>y. scan_unicode (p @ y) = Added bs (r' @ y))" if a: "scan_unicode (p @ z) = Added bs r" for bs r
  proof -
    from a obtain cp s where c: "get_codepoint (p @ z) = Some (cp, s)" by (auto simp: scan_unicode_def split: option.splits)
    from get_codepoint_cut [OF this assms] obtain s' where s: "s = s' @ z" "\<And>y. get_codepoint (p @ y) = Some (cp, s' @ y)" by blast
    show ?thesis
    proof (cases "0xD800 \<le> cp \<and> cp \<le> 0xDBFF")
      case False
      with a c s show ?thesis by (auto simp: scan_unicode_def split: if_splits)
    next
      case True
      with a c obtain x y u where u: "s = x # y # u" "x = CHR 0x5C" "y = CHR ''u''"
        by (auto simp: scan_unicode_def split: list.splits if_splits)
      with s(1) assms obtain u' where u': "s' = x # y # u'" "u = u' @ z"
        by (cases s' rule: remdups_adj.cases) (auto elim!: cut_end_cases)
      from True a c u obtain cp2 v where c2: "get_codepoint u = Some (cp2, v)" by (auto simp: scan_unicode_def split: option.splits)
      from get_codepoint_cut [OF this [unfolded u'(2)] assms] obtain v' where "v = v' @ z" "\<And>y. get_codepoint (u' @ y) = Some (cp2, v' @ y)"
        by blast
      with True a c u s(2) u' c2 show ?thesis by (auto simp: scan_unicode_def split: if_splits)
    qed
  qed
  moreover have "scan_unicode s \<noteq> Closed r" for s r
    by (auto simp: scan_unicode_def split: option.splits if_splits list.splits)
  ultimately show ?thesis by (simp add: item_goes_on_def)
qed

lemma scan_escape_cut: "cut_end z \<Longrightarrow> item_goes_on scan_escape p z"
proof (cases p)
  case Nil
  assume "cut_end z"
  with Nil show ?thesis by (auto simp: item_goes_on_def elim!: cut_end_cases)
next
  case (Cons c s)
  assume z: "cut_end z"
  from scan_unicode_cut [OF this, of s] Cons show ?thesis by (auto simp: item_goes_on_def)
qed

lemma scan_char_cut:
  assumes "cut_end z"
  shows "item_goes_on scan_char p z"
proof (cases p)
  case Nil
  with assms show ?thesis by (auto simp: item_goes_on_def elim!: cut_end_cases)
next
  case (Cons c s)
  note esc = scan_escape_cut [OF assms, of s, unfolded item_goes_on_def]
  have "\<exists>r'. r = r' @ z \<and> (\<forall>y. scan_char (p @ y) = Added bs (r' @ y))" if a: "scan_char (p @ z) = Added bs r" for bs r
  proof (cases "c = CHR 0x5C")
    case True
    with a esc Cons show ?thesis by simp
  next
    case False
    with a Cons obtain rs cs where rs: "c \<noteq> CHR 0x22" "\<not> byte c < 0x20" "utf8_ranges (byte c) = Some rs"
      "next_byte_in_range rs (s @ z) = Some (cs, r)" "bs = c # cs"
      by (auto split: if_splits option.splits)
    from next_byte_cut [OF rs(4) assms utf8_ranges_pos [OF rs(3)]] False rs Cons show ?thesis by auto
  qed
  moreover have "\<exists>r'. r = r' @ z \<and> (\<forall>y. scan_char (p @ y) = Closed (r' @ y))" if "scan_char (p @ z) = Closed r" for r
    using scan_char_closed [OF that] Cons by auto
  ultimately show ?thesis by (simp add: item_goes_on_def)
qed

lemma scan_string_cut:
  "scan_string buf (p @ z) = Some (str, r) \<Longrightarrow> cut_end z \<Longrightarrow>
    \<exists>r'. r = r' @ z \<and> (\<forall>y. scan_string buf (p @ y) = Some (str, r' @ y))"
proof (induction "length p" arbitrary: buf p rule: less_induct)
  case less
  note c = scan_char_cut [OF less.prems(2), of p, unfolded item_goes_on_def]
  show ?case
  proof (cases "scan_char (p @ z)")
    case Rejected
    with less.prems(1) show ?thesis by (simp add: scan_string.simps [of buf "p @ z"])
  next
    case (Closed u)
    then have "(str, r) = (buf, u)" using less.prems(1) by (simp add: scan_string.simps [of buf "p @ z"])
    moreover from c Closed obtain u' where "u = u' @ z" "\<And>y. scan_char (p @ y) = Closed (u' @ y)" by blast
    ultimately show ?thesis by (simp add: scan_string.simps [of buf "p @ _"])
  next
    case (Added bs u)
    from c this obtain u' where u: "u = u' @ z" "\<And>y. scan_char (p @ y) = Added bs (u' @ y)" by blast
    have "length u' < length p" using scan_char_length [OF u(2), of "[]"] by simp
    moreover have "scan_string (buf @ bs) (u' @ z) = Some (str, r)" using less.prems(1) Added u(1) by (simp add: scan_string_added)
    ultimately obtain r' where "r = r' @ z" "\<And>y. scan_string (buf @ bs) (u' @ y) = Some (str, r' @ y)"
      using less.hyps [OF _ _ less.prems(2)] by blast
    with u(2) show ?thesis by (simp add: scan_string_added)
  qed
qed

lemma scan_string_cut_off:
  assumes "utf8_ok s" and "dump_escaped s = Inr (p @ q)" and "cut_end z"
  shows "scan_string buf (p @ z) = None"
proof (cases "scan_string buf (p @ z)")
  case (Some x)
  obtain str r where x: "x = (str, r)" by fastforce
  from scan_string_cut [OF Some [unfolded x] assms(3)] obtain r' where "\<And>y. scan_string buf (p @ y) = Some (str, r' @ y)" by blast
  from this [of "q @ [CHR 0x22]"] scan_string_dumped [OF assms(1,2), of buf "[]"] show ?thesis by simp
qed

subsection \<open>Literals and numbers\<close>

lemma cut_split:
  assumes "p @ q = u @ c # v"
  obtains q' where "u = p @ q'" and "q' \<noteq> []" | "p = u" | p' where "p = u @ c # p'" and "v = p' @ q"
  using assms by (auto simp: append_eq_append_conv2 Cons_eq_append_conv append_eq_Cons_conv)

lemma parse_state_end: "states \<noteq> [] \<Longrightarrow> parse_state states v [TEnd] = None"
proof (cases states)
  case (Cons f fs)
  then show ?thesis by (cases f) simp_all
qed simp

lemma tokens_error: "scan F s = (TError, r) \<Longrightarrow> tokens F s = [TError]"
  by (subst tokens.simps) simp

lemma tokens_string_cut:
  assumes "utf8_ok s" and "dump_string s = Inr (p @ q)" and "q \<noteq> []" and "cut_end z"
  shows "tokens F (p @ z) = [if p = [] then TEnd else TError]"
proof (cases p)
  case Nil
  with assms(4) show ?thesis by (simp add: tokens_cut_end)
next
  case (Cons c p')
  from assms(2) obtain u where u: "dump_escaped s = Inr u" "p @ q = CHR 0x22 # u @ [CHR 0x22]"
    by (auto simp: dump_string_def bindR_Inr_iff)
  with Cons assms(3) obtain q' where "u = p' @ q'" "c = CHR 0x22"
    by (cases q rule: rev_cases) (auto simp: append_eq_append_conv2)
  with scan_string_cut_off [OF assms(1) _ assms(4)] u(1) have "scan_string [] (p' @ z) = None" by simp
  with Cons \<open>c = CHR 0x22\<close> show ?thesis by (auto simp: scan_def is_space_def intro!: tokens_error)
qed

lemma scan_literal_cut:
  "q \<noteq> [] \<Longrightarrow> CHR 0x00 \<notin> set (p @ q) \<Longrightarrow> cut_end z \<Longrightarrow> fst (scan_literal (p @ q) t (p @ z)) = TError"
proof (induction p)
  case Nil
  then show ?case by (cases q) (auto elim!: cut_end_cases)
qed simp

lemma tokens_literal_cut:
  assumes "c # ls = p @ q" and "q \<noteq> []" and "cut_end z" and "CHR 0x00 \<notin> set ls"
    and "\<And>s. scan F (c # s) = scan_literal ls t s"
  shows "tokens F (p @ z) \<in> {[TEnd], [TError]}"
proof (cases p)
  case Nil
  with assms(3) show ?thesis by (simp add: tokens_cut_end)
next
  case (Cons d p')
  with assms(1) have p: "d = c" "ls = p' @ q" by auto
  with scan_literal_cut [of q p' z t] assms(2-4) have "fst (scan_literal ls t (p' @ z)) = TError" by simp
  moreover have "scan F (p @ z) = scan_literal ls t (p' @ z)" using assms(5) [of "p' @ z"] Cons p(1) by simp
  ultimately have "fst (scan F (p @ z)) = TError" by simp
  then show ?thesis by (metis insertCI prod.collapse tokens_error)
qed

lemma scan_words:
  "scan F (CHR ''t'' # s) = scan_literal ''rue'' TTrue s" "scan F (CHR ''f'' # s) = scan_literal ''alse'' TFalse s"
  "scan F (CHR ''n'' # s) = scan_literal ''ull'' TNull s"
  by (simp_all add: scan_def is_space_def)

fun numeric :: "token \<Rightarrow> bool" where
  "numeric (TUnsigned n) = True"
| "numeric (TInteger i) = True"
| "numeric (TFloat x) = True"
| "numeric _ = False"

lemma scan_number_done_numeric: "\<exists>t. scan_number_done F ty buf s = (t, s) \<and> numeric t"
  by (simp add: scan_number_done_def)

lemma parse_numeric_end:
  assumes "scan F s = (t, z)" and "numeric t" and "cut_end z" and "states \<noteq> []"
  shows "parse_value states (tokens F s) = None"
proof -
  have "tokens F s = [t, TEnd]" using assms(1-3) by (subst tokens.simps) (auto simp: tokens_cut_end)
  with assms(2,4) show ?thesis by (cases t) (auto simp: parse_state_end split: option.splits)
qed

lemma digits_cut:
  assumes "nat_digits n = (c # ds) @ q" and "q \<noteq> []"
  shows "is_digit c" "\<forall>d \<in> set ds. is_digit d" "c \<noteq> CHR ''0''"
proof -
  obtain d es where d: "nat_digits n = d # es" "is_digit d" "\<forall>e \<in> set es. is_digit e" using nat_digits_Cons by blast
  with assms(1) show "is_digit c" "\<forall>d \<in> set ds. is_digit d" by auto
  have "n \<noteq> 0"
  proof
    assume "n = 0"
    with assms have "length (nat_digits 0) > 1" by (cases q) auto
    then show False by (simp add: nat_digits.simps)
  qed
  with nat_digits_hd [of n] assms(1) show "c \<noteq> CHR ''0''" by simp
qed

lemma parse_digits_cut:
  assumes "nat_digits n = p @ q" and "q \<noteq> []" and "cut_end z" and "states \<noteq> []"
  shows "parse_value states (tokens F (p @ z)) = None"
proof (cases p)
  case Nil
  with assms(3) show ?thesis by (simp add: tokens_cut_end)
next
  case (Cons c ds)
  note d = digits_cut [OF assms(1) [unfolded Cons] assms(2)]
  have "scan F (p @ z) = scan_number_any1 F value_unsigned [c] (ds @ z)"
    using Cons d(1,3) digit_not_special [OF d(1)] by (simp add: scan_def scan_number_def)
  then have "scan F (p @ z) = scan_number_done F value_unsigned (c # ds) z"
    using scan_any1_done [OF d(2) number_ends_cut_end [OF assms(3)]] by simp
  with scan_number_done_numeric [of F value_unsigned "c # ds" z] parse_numeric_end [OF _ _ assms(3,4)] show ?thesis by metis
qed

lemma parse_negative_cut:
  assumes "CHR ''-'' # nat_digits n = p @ q" and "q \<noteq> []" and "cut_end z" and "states \<noteq> []"
  shows "parse_value states (tokens F (p @ z)) = None"
proof (cases p)
  case Nil
  with assms(3) show ?thesis by (simp add: tokens_cut_end)
next
  case (Cons c p')
  with assms(1) have c: "c = CHR ''-''" "nat_digits n = p' @ q" by auto
  have m: "scan F (p @ z) = scan_number_minus F ''-'' (p' @ z)" by (simp add: Cons c scan_def is_space_def scan_number_def)
  show ?thesis
  proof (cases p')
    case Nil
    with m assms(3) have "\<exists>r. scan F (p @ z) = (TError, r)"
      by (auto simp: scan_number_minus_def is_digit_def elim!: cut_end_cases)
    then show ?thesis by (auto simp: tokens_error)
  next
    case (Cons e ds)
    note d = digits_cut [OF c(2) [unfolded Cons] assms(2)]
    have "scan F (p @ z) = scan_number_done F value_integer (''-'' @ e # ds) z"
      using d(1,3) scan_any1_done [OF d(2) number_ends_cut_end [OF assms(3)]] by (simp add: m Cons scan_number_minus_def)
    with scan_number_done_numeric [of F value_integer "''-'' @ e # ds" z] parse_numeric_end [OF _ _ assms(3,4)] show ?thesis by metis
  qed
qed

subsection \<open>Values\<close>

text \<open>What the parser does with the tokens of members that follow.\<close>

definition parse_members :: "frame list \<Rightarrow> (string \<times> json) list \<Rightarrow> token list \<Rightarrow> (json \<times> token list) option" where
  "parse_members states acc ts =
     (case ts of TString k # TName # ts' \<Rightarrow> parse_value (FObj acc k # states) ts' | _ \<Rightarrow> None)"

lemma parse_value_members:
  "hd ts \<noteq> TEndObject \<Longrightarrow> parse_value states (TBeginObject # ts) = parse_members states [] ts"
  by (auto simp: parse_members_def split: list.splits token.splits)

lemma parse_state_members:
  "parse_state (FObj kvs k # states) v (TSep # ts) = parse_members states (obj_set k v kvs) ts"
  by (auto simp: parse_members_def split: list.splits token.splits)

lemma parse_members_string: "parse_members states acc (TString k # TName # ts) = parse_value (FObj acc k # states) ts"
  by (simp add: parse_members_def)

text \<open>The first token of a cut text of a value is not a closing bracket.\<close>

lemma tokens_hd:
  assumes "c \<noteq> CHR 0x5D" and "c \<noteq> CHR 0x7D" and "\<not> is_space c"
  shows "hd (tokens F (c # s)) \<notin> {TEndArray, TEndObject}"
proof -
  let ?bad = "{TEndArray, TEndObject}"
  have l: "fst (scan_literal ls t r) \<in> {t, TError}" for ls t r
    by (induction ls t r rule: scan_literal.induct) auto
  have n: "fst (scan_number_done F ty buf r) \<notin> ?bad" for ty buf r by (simp add: scan_number_done_def)
  have a2: "fst (scan_number_any2 F buf r) \<notin> ?bad" for buf r unfolding scan_number_any2_def by (rule n)
  have sg: "fst (scan_number_sign F buf r) \<notin> ?bad" for buf r using a2 by (simp add: scan_number_sign_def split: list.splits)
  have ex: "fst (scan_number_exponent F buf r) \<notin> ?bad" for buf r using a2 sg by (simp add: scan_number_exponent_def split: list.splits)
  have d2: "fst (scan_number_decimal2 F buf r) \<notin> ?bad" for buf r
    using n ex by (simp add: scan_number_decimal2_def Let_def split: list.splits)
  have d1: "fst (scan_number_decimal1 F buf r) \<notin> ?bad" for buf r using d2 by (simp add: scan_number_decimal1_def split: list.splits)
  have z: "fst (scan_number_zero F ty buf r) \<notin> ?bad" for ty buf r using n d1 ex by (simp add: scan_number_zero_def split: list.splits)
  have "fst (scan_number F c r) \<notin> {TEndArray, TEndObject}" for r
    using z by (simp add: scan_number_def scan_number_minus_def scan_number_any1_def split: list.splits)
  moreover have "fst (scan_literal ''rue'' TTrue s) \<notin> ?bad" "fst (scan_literal ''alse'' TFalse s) \<notin> ?bad"
      "fst (scan_literal ''ull'' TNull s) \<notin> ?bad"
    using l [of "''rue''" TTrue s] l [of "''alse''" TFalse s] l [of "''ull''" TNull s] by auto
  moreover have "fst (case scan_string [] s of None \<Rightarrow> (TError, s) | Some (str, r') \<Rightarrow> (TString str, r')) \<notin> ?bad"
    by (simp split: option.splits)
  ultimately have b: "fst (scan F (c # s)) \<notin> ?bad"
    unfolding scan_def using assms by (simp del: scan_literal.simps)
  show ?thesis
  proof (cases "scan F (c # s)")
    case (Pair t r)
    with b show ?thesis by (subst tokens.simps) simp
  qed
qed

text \<open>After a complete value the parser fails too when the input ends inside a container.\<close>

lemma parse_complete_end:
  assumes "json_dump F j = Inr t" and "json_typed j" and "json_no_float j" and "cut_end z" and "states \<noteq> []"
  shows "parse_value states (tokens F (t @ z)) = None"
  using tokens_dump(1) [OF assms(1-3) number_ends_cut_end [OF assms(4)]] parse_toks(1) [OF assms(2), of states "tokens F z"]
  by (simp add: tokens_cut_end [OF assms(4)] parse_state_end [OF assms(5)])

lemma json_dump_hd:
  assumes "json_dump F j = Inr t" and "json_no_float j"
  shows "t \<noteq> [] \<and> hd t \<noteq> CHR 0x5D \<and> hd t \<noteq> CHR 0x7D \<and> \<not> is_space (hd t)"
proof -
  have d: "nat_digits n \<noteq> [] \<and> hd (nat_digits n) \<noteq> CHR 0x5D \<and> hd (nat_digits n) \<noteq> CHR 0x7D \<and> \<not> is_space (hd (nat_digits n))" for n
    using nat_digits_Cons [of n] digit_not_special by force
  show ?thesis
  proof (cases j)
    case (JInt i)
    with assms(1) d [of "nat i"] show ?thesis by (cases "i < 0") (auto simp: to_string_def is_space_def)
  qed (use assms d in \<open>auto simp: bindR_Inr_iff dump_string_def is_space_def split: if_splits\<close>)
qed

lemma dump_elements_hd:
  "dump_elements F js = Inr t \<Longrightarrow> js \<noteq> [] \<Longrightarrow> \<forall>j \<in> set js. json_no_float j \<Longrightarrow>
   t \<noteq> [] \<and> hd t \<noteq> CHR 0x5D \<and> hd t \<noteq> CHR 0x7D \<and> \<not> is_space (hd t)"
  using json_dump_hd [of F "hd js"]
  by (cases js rule: remdups_adj.cases) (auto simp: bindR_Inr_iff)

lemma dump_members_hd: "dump_members F kvs = Inr t \<Longrightarrow> kvs \<noteq> [] \<Longrightarrow> \<exists>r. t = CHR 0x22 # r"
  by (cases kvs rule: remdups_adj.cases) (auto simp: bindR_Inr_iff dump_string_def)

lemma tokens_hd_cut:
  assumes "p @ q = t" and "t \<noteq> []" and "hd t \<noteq> CHR 0x5D" and "hd t \<noteq> CHR 0x7D" and "\<not> is_space (hd t)" and "cut_end z"
  shows "hd (tokens F (p @ z)) \<notin> {TEndArray, TEndObject}"
proof (cases p)
  case Nil
  with assms(6) show ?thesis by (simp add: tokens_cut_end)
next
  case (Cons c p')
  with assms(1) have "hd t = c" by auto
  with assms(3-5) Cons tokens_hd [of c F "p' @ z"] show ?thesis by simp
qed

lemma tokens_not_Nil: "\<exists>t ts. tokens F s = t # ts"
  by (subst tokens.simps) (auto split: prod.splits)

lemma parse_value_array:
  assumes "hd ts \<noteq> TEndArray" and "ts \<noteq> []"
  shows "parse_value states (TBeginArray # ts) = parse_value (FArr [] # states) ts"
  using assms parse_begin_array by (cases ts) auto

lemma parse_cut:
  "json_dump F j = Inr (p @ q) \<Longrightarrow> q \<noteq> [] \<Longrightarrow> json_typed j \<Longrightarrow> json_no_float j \<Longrightarrow> cut_end z \<Longrightarrow>
    states \<noteq> [] \<or> (\<exists>kvs. j = JObj kvs) \<Longrightarrow> parse_value states (tokens F (p @ z)) = None"
  "dump_elements F js = Inr (p @ q) \<Longrightarrow> js \<noteq> [] \<Longrightarrow> \<forall>j \<in> set js. json_typed j \<and> json_no_float j \<Longrightarrow> cut_end z \<Longrightarrow>
    parse_value (FArr vs # states) (tokens F (p @ z)) = None"
  "dump_members F kvs = Inr (p @ q) \<Longrightarrow> kvs \<noteq> [] \<Longrightarrow>
    \<forall>e \<in> set kvs. utf8_ok (fst e) \<and> json_typed (snd e) \<and> json_no_float (snd e) \<Longrightarrow> cut_end z \<Longrightarrow>
    parse_members states acc (tokens F (p @ z)) = None"
proof (induction F j and F js and F kvs arbitrary: p q states and p q vs states and p q acc states
    rule: json_dump_dump_elements_dump_members.induct)
  case (1 F kvs)
  note z = tokens_cut_end [OF "1.prems"(5)]
  show ?case
  proof (cases p)
    case Nil
    with z show ?thesis by simp
  next
    case (Cons c p')
    show ?thesis
    proof (cases "kvs = []")
      case True
      with Cons "1.prems"(1,2) z show ?thesis by (auto simp: Cons_eq_append_conv tokens_structural)
    next
      case False
      with "1.prems" Cons obtain u where u: "dump_members F kvs = Inr u" "c = CHR 0x7B" "p' @ q = u @ CHR 0x7D # []"
        by (auto simp: bindR_Inr_iff)
      obtain q' where q': "u = p' @ q'" using "1.prems"(2) cut_split [OF u(3)] by (metis append_Nil2 append_is_Nil_conv)
      have "parse_members states [] (tokens F (p' @ z)) = None"
        using "1.IH" [OF False u(1) [unfolded q'] False] "1.prems"(3-5) by auto
      moreover obtain r where "u = CHR 0x22 # r" using dump_members_hd [OF u(1) False] by blast
      with tokens_hd_cut [OF q' [symmetric] _ _ _ _ "1.prems"(5), of F] have "hd (tokens F (p' @ z)) \<noteq> TEndObject"
        by (simp add: is_space_def)
      ultimately show ?thesis using Cons u(2) by (simp add: tokens_structural parse_value_members del: parse_value.simps)
    qed
  qed
next
  case (2 F js)
  note z = tokens_cut_end [OF "2.prems"(5)]
  have st: "states \<noteq> []" using "2.prems"(6) by auto
  show ?case
  proof (cases p)
    case Nil
    with z show ?thesis by simp
  next
    case (Cons c p')
    show ?thesis
    proof (cases "js = []")
      case True
      with Cons "2.prems"(1,2) z show ?thesis by (auto simp: Cons_eq_append_conv tokens_structural)
    next
      case False
      with "2.prems" Cons obtain u where u: "dump_elements F js = Inr u" "c = CHR 0x5B" "p' @ q = u @ CHR 0x5D # []"
        by (auto simp: bindR_Inr_iff)
      obtain q' where q': "u = p' @ q'" using "2.prems"(2) cut_split [OF u(3)] by (metis append_Nil2 append_is_Nil_conv)
      have "parse_value (FArr [] # states) (tokens F (p' @ z)) = None"
        using "2.IH" [OF False u(1) [unfolded q'] False] "2.prems"(3-5) by auto
      moreover have "hd (tokens F (p' @ z)) \<notin> {TEndArray, TEndObject}"
        using tokens_hd_cut [OF q' [symmetric] _ _ _ _ "2.prems"(5), of F] dump_elements_hd [OF u(1) False] "2.prems"(4) by simp
      moreover have "tokens F (p' @ z) \<noteq> []" using tokens_not_Nil [of F "p' @ z"] by auto
      ultimately show ?thesis using Cons u(2) by (simp add: tokens_structural parse_value_array del: parse_value.simps)
    qed
  qed
next
  case (3 F s)
  then show ?case using tokens_string_cut [of s p q z F] by auto
next
  case (4 F b)
  then have "tokens F (p @ z) \<in> {[TEnd], [TError]}"
    using tokens_literal_cut [OF _ _ _ _ scan_words(1), of p q z F] tokens_literal_cut [OF _ _ _ _ scan_words(2), of p q z F]
    by (cases b) auto
  then show ?case by auto
next
  case (5 F i)
  then show ?case using parse_digits_cut [of "nat i" p q z states F] parse_negative_cut [of "nat (- i)" p q z states F]
    by (auto simp: to_string_def split: if_splits)
next
  case (6 F n)
  then show ?case using parse_digits_cut [of n p q z states F] by auto
next
  case (8 F)
  then have "tokens F (p @ z) \<in> {[TEnd], [TError]}"
    using tokens_literal_cut [OF _ _ _ _ scan_words(3), of p q z F] by auto
  then show ?case by auto
next
  case (10 F j)
  then show ?case
    using "10.IH" [of p q "FArr vs # states"] parse_complete_end [of F j p z "FArr vs # states"]
    by (cases "q = []") auto
next
  case (11 F j k js)
  then obtain u v where u: "json_dump F j = Inr u" "dump_elements F (k # js) = Inr v" "p @ q = u @ CHR 0x2C # v"
    by (auto simp: bindR_Inr_iff)
  from u(3) show ?case
  proof (cases rule: cut_split)
    case (1 q')
    with "11.IH"(1) [of p q' "FArr vs # states"] u(1) "11.prems" show ?thesis by simp
  next
    case 2
    with parse_complete_end [OF u(1), of z "FArr vs # states"] "11.prems" show ?thesis by simp
  next
    case (3 p')
    have "tokens F (p @ z) = json_toks j @ TSep # tokens F (p' @ z)"
      using tokens_dump(1) [OF u(1), of "CHR 0x2C # p' @ z"] "11.prems"(3) by (simp add: 3 tokens_structural)
    moreover have "parse_value (FArr (vs @ [json_norm j]) # states) (tokens F (p' @ z)) = None"
      using "11.IH"(2) [of p' q "vs @ [json_norm j]" states] u(2) 3(2) "11.prems" by simp
    ultimately show ?thesis using parse_toks(1) [of j "FArr vs # states" "TSep # tokens F (p' @ z)"] "11.prems"(3)
      by (simp del: parse_value.simps)
  qed
next
  case (13 F k j)
  then obtain s u where u: "dump_string k = Inr s" "json_dump F j = Inr u" "p @ q = s @ CHR 0x3A # u"
    by (auto simp: bindR_Inr_iff)
  have k: "utf8_ok k" using "13.prems"(3) by simp
  from u(3) show ?case
  proof (cases rule: cut_split)
    case (1 q')
    with tokens_string_cut [OF k _ 1(2) "13.prems"(4), of p F] u(1) show ?thesis by (simp add: parse_members_def)
  next
    case 2
    with tokens_string [OF k u(1), of F z] tokens_cut_end [OF "13.prems"(4)] show ?thesis by (simp add: parse_members_def)
  next
    case (3 p')
    have "parse_value (FObj acc k # states) (tokens F (p' @ z)) = None"
      using "13.IH" [of p' q "FObj acc k # states"] parse_complete_end [of F j p' z "FObj acc k # states"] u(2) 3(2) "13.prems"
      by (cases "q = []") auto
    with 3(1) tokens_string [OF k u(1), of F "CHR 0x3A # p' @ z"] show ?thesis
      by (simp add: tokens_structural parse_members_string del: parse_value.simps)
  qed
next
  case (14 F k j e kvs)
  then obtain s u v where u: "dump_string k = Inr s" "json_dump F j = Inr u" "dump_members F (e # kvs) = Inr v"
    "p @ q = s @ CHR 0x3A # u @ CHR 0x2C # v"
    by (auto simp: bindR_Inr_iff)
  have k: "utf8_ok k" using "14.prems"(3) by simp
  from u(4) show ?case
  proof (cases rule: cut_split)
    case (1 q')
    with tokens_string_cut [OF k _ 1(2) "14.prems"(4), of p F] u(1) show ?thesis by (simp add: parse_members_def)
  next
    case 2
    with tokens_string [OF k u(1), of F z] tokens_cut_end [OF "14.prems"(4)] show ?thesis by (simp add: parse_members_def)
  next
    case (3 p')
    have "parse_value (FObj acc k # states) (tokens F (p' @ z)) = None"
      using 3(2) [symmetric]
    proof (cases rule: cut_split)
      case (1 q')
      with "14.IH"(1) [of p' q' "FObj acc k # states"] u(2) "14.prems" show ?thesis by simp
    next
      case 2
      with parse_complete_end [OF u(2), of z "FObj acc k # states"] "14.prems" show ?thesis by simp
    next
      case (3 p'')
      have "tokens F (p' @ z) = json_toks j @ TSep # tokens F (p'' @ z)"
        using tokens_dump(1) [OF u(2), of "CHR 0x2C # p'' @ z"] "14.prems"(3) by (simp add: 3 tokens_structural)
      moreover have "parse_members states (obj_set k (json_norm j) acc) (tokens F (p'' @ z)) = None"
        using "14.IH"(2) [of p'' q states] u(3) 3(2) "14.prems" by simp
      ultimately show ?thesis using parse_toks(1) [of j "FObj acc k # states" "TSep # tokens F (p'' @ z)"] "14.prems"(3)
        by (simp add: parse_state_members del: parse_value.simps parse_state.simps)
    qed
    with 3(1) tokens_string [OF k u(1), of F "CHR 0x3A # p' @ z"] show ?thesis
      by (simp add: tokens_structural parse_members_string del: parse_value.simps)
  qed
qed simp_all

lemma json_parse_cut:
  assumes "json_dump F (JObj kvs) = Inr (p @ q)" and "q \<noteq> []" and "json_typed (JObj kvs)" and "json_no_float (JObj kvs)" and "cut_end z"
  shows "json_parse F (p @ z) = None"
proof -
  have "skip_bom (p @ z) = Some (p @ z)"
  proof (cases p)
    case Nil
    with assms(5) show ?thesis by (auto simp: skip_bom_def elim!: cut_end_cases)
  next
    case (Cons c p')
    with assms(1) have "c = CHR 0x7B" by (auto simp: bindR_Inr_iff split: if_splits)
    with Cons show ?thesis by (simp add: skip_bom_def)
  qed
  with parse_cut(1) [OF assms, of "[]"] show ?thesis by (simp add: json_parse_def)
qed

text \<open>So the text of an object has no zero byte: it would be a cut.\<close>

lemma json_text_no_zero:
  assumes "json_dump F (JObj kvs) = Inr t" and "json_typed (JObj kvs)" and "json_no_float (JObj kvs)"
  shows "CHR 0x00 \<notin> set t"
proof
  assume "CHR 0x00 \<in> set t"
  then obtain p r where t: "t = p @ CHR 0x00 # r" using split_list by fastforce
  have "json_parse F (p @ CHR 0x00 # r) = None"
    by (rule json_parse_cut [OF _ _ assms(2,3), of F p "CHR 0x00 # r"]) (use assms(1) t in \<open>simp_all add: cut_end_def\<close>)
  with json_roundtrip [OF assms(2,3,1)] t show False by simp
qed

end
