(* ===== verification/Cut_Replies.thy ===== *)
theory Cut_Replies
  imports Json_Cut Client_Properties
begin

section \<open>Replies that do not arrive in one piece\<close>

text \<open>
  The receiving thread of the client (\<open>readTaskHandler\<close> in \<open>src/client/main.cpp\<close>) and texts that one
  \<open>recv\<close> does not give whole.
\<close>

lemma recv_buffer_cut: "length bytes \<le> 1024 \<Longrightarrow> \<exists>z. recv_buffer bytes = bytes @ z \<and> cut_end z"
  by (intro exI [of _ "replicate (1024 - length bytes) (CHR 0x00)"], cases "1024 - length bytes")
    (auto simp: recv_buffer_def cut_end_def min_def)

lemma read_turn_cut:
  assumes "json_sendable (JObj kvs)" and "json_dump F (JObj kvs) = Inr (bytes @ rest)" and "rest \<noteq> []" and "length bytes \<le> 1024"
  shows "read_turn F (Some bytes) c = Inl parse_error"
proof -
  obtain z where z: "recv_buffer bytes = bytes @ z" "cut_end z" using recv_buffer_cut [OF assms(4)] by blast
  have "json_parse F (bytes @ z) = None"
    using assms(1) json_parse_cut [OF assms(2,3) _ _ z(2)] by (simp add: json_sendable_def)
  then show ?thesis by (simp add: read_turn_def parseR_def z(1))
qed

text \<open>
  C24. A reply that one \<open>recv\<close> does not give whole ends the client: the receiving thread parses
  whatever part it has got, every proper part of the text of an object is rejected by the parser,
  wherever the cut is, and nothing catches the exception. So every reply longer than the buffer of
  1024 bytes ends the client process, the reply to a login of a user with some friends among them,
  and so does every reply the network delivers in two pieces.
\<close>

theorem cut_reply_terminates:
  assumes "json_sendable (JObj kvs)" and "json_dump (ce_fp E) (JObj kvs) = Inr (bytes @ rest)" and "rest \<noteq> []"
    and "bytes \<noteq> []" and "length bytes \<le> 1024" and "alive c"
  shows "client_step E c (c\<lparr>phase := Terminated parse_error\<rparr>)"
proof -
  have "read_turn (ce_fp E) (Some bytes) c = Inl parse_error" using assms(1-3,5) by (rule read_turn_cut)
  with client_step.receive [OF assms(6), of "Some bytes" E] assms(4,5) show ?thesis by (simp add: settle_def)
qed

theorem cut_reply_terminates_witness:
  "client_step ex_client_env (client_start []) ((client_start [])\<lparr>phase := Terminated parse_error\<rparr>)"
  by (rule cut_reply_terminates [of "[]" _ "''{''" "''}''"])
    (simp_all add: json_sendable_def obj_wf_def alive_def client_start_def)

end
