(* ===== verification/Registration.thy ===== *)
theory Registration
  imports Cut_Replies Conversation
begin

section \<open>Registration, from keyboard to screen\<close>

text \<open>
  Choice 2 of the client's menu (\<open>src/client/main.cpp\<close>) through \<open>ChatServer::onMessage\<close> and
  \<open>ChatService::reg\<close> to \<open>doRegResponse\<close>.
\<close>

definition reg_json :: "string \<Rightarrow> string \<Rightarrow> json" where
  "reg_json name pwd = json_obj [(''msgid'', JInt REG_MSG), (''name'', JStr name), (''password'', JStr pwd)]"

lemma reg_json_get:
  "json_get ''msgid'' (reg_json n p) = Some (JInt REG_MSG)" "json_get ''name'' (reg_json n p) = Some (JStr n)"
  "json_get ''password'' (reg_json n p) = Some (JStr p)"
  by (simp_all add: reg_json_def json_get_json_obj)

lemma json_obj_sendable:
  "\<forall>e \<in> set kvs. utf8_ok (fst e) \<and> json_typed (snd e) \<and> json_no_float (snd e) \<Longrightarrow> json_sendable (json_obj kvs)"
  unfolding json_sendable_def by (intro conjI json_obj_props) auto

lemma json_obj_is_object: "\<exists>fields. json_obj kvs = JObj fields"
  by (simp add: json_obj_def)

lemma reg_json_sendable: "utf8_ok n \<Longrightarrow> utf8_ok p \<Longrightarrow> json_sendable (reg_json n p)"
  unfolding reg_json_def by (rule json_obj_sendable) (simp add: msg_defs)

lemma object_text_no_zero: "json_sendable (json_obj kvs) \<Longrightarrow> CHR 0x00 \<notin> set (json_text F (json_obj kvs))"
  using json_text_no_zero [OF json_dump_text, of _ F] unfolding json_sendable_def json_obj_def by blast

text \<open>What is typed: the choice, the name and the password, a line each.\<close>

lemma typed_registration:
  assumes "good (cin a)" and "unread (cin a) = nat_digits 2 @ CHR 0x0A # name @ CHR 0x0A # pwd @ CHR 0x0A # r"
    and "set (name @ pwd) \<inter> {CHR 0x0A, CHR 0x00} = {}" and "length name < 50" and "length pwd < 50"
    and "utf8_ok name" and "utf8_ok pwd" and "\<And>buf d. ce_send A buf d = int (length buf)"
  shows "\<exists>a'. main_turn A a = Inr a' \<and> outbox a' = outbox a @ [json_text (ce_fp A) (reg_json name pwd) @ [CHR 0x00]] \<and>
    phase a' = WaitReg \<and> rwSem a' = rwSem a"
proof -
  let ?s1 = "(cin a)\<lparr>unread := name @ CHR 0x0A # pwd @ CHR 0x0A # r\<rparr>"
    and ?s2 = "(cin a)\<lparr>unread := pwd @ CHR 0x0A # r\<rparr>" and ?t = "json_text (ce_fp A) (reg_json name pwd)"
  have skip: "good s \<Longrightarrow> unread s = CHR 0x0A # u \<Longrightarrow> cin_get s = s\<lparr>unread := u\<rparr>" for s u by (simp add: cin_get_def)
  have g: "good ((cin a)\<lparr>unread := u\<rparr>)" for u using assms(1) by (simp add: good_def)
  have "extract_int 0 (cin a) = (2, (cin a)\<lparr>unread := CHR 0x0A # unread ?s1\<rparr>)"
    using extract_number [OF assms(1,2)] by simp
  then have m: "main_turn A a = choose_register A ((fold print_line menu_lines a)\<lparr>cin := ?s1\<rparr>)"
    by (simp add: main_turn_def Let_def skip g)
  have n: "getline 50 ?s1 = (name, ?s2)" "getline 50 ?s2 = (pwd, (cin a)\<lparr>unread := r\<rparr>)"
    using getline_line [OF g _ _ assms(4), of _ "pwd @ CHR 0x0A # r"] getline_line [OF g _ _ assms(5), of _ r] assms(3) by auto
  have c: "cstr name = name" "cstr pwd = pwd" using assms(3) by (auto intro!: cstr_id)
  have sd: "json_sendable (reg_json name pwd)" using assms(6,7) by (rule reg_json_sendable)
  then have d: "json_dump (ce_fp A) (reg_json name pwd) = Inr ?t" by (simp add: json_sendable_def json_dump_text)
  have t: "cstr ?t = ?t" using object_text_no_zero sd unfolding reg_json_def by (intro cstr_id) blast
  have p: "phase (fold print_line ls x) = phase x" "rwSem (fold print_line ls x) = rwSem x" "outbox (fold print_line ls x) = outbox x" for ls x
    by (induction ls arbitrary: x) simp_all
  show ?thesis
    unfolding m choose_register_def
    by (simp add: n c reg_json_def [symmetric] d t client_send_def assms(8) error_if_def Let_def p)
qed

text \<open>The reply, and what the client makes of it.\<close>

lemma reg_reply_text:
  "json_dump F (json_obj [(''msgid'', JInt REG_MSG_ACK), (''errno'', JInt 0), (''id'', JInt (- 1))]) =
   Inr (CHR 0x7B # CHR 0x22 # ''errno'' @ CHR 0x22 # '':0,'' @ CHR 0x22 # ''id'' @ CHR 0x22 # '':-1,'' @
        CHR 0x22 # ''msgid'' @ CHR 0x22 # '':5'' @ [CHR 0x7D])"
  by code_simp

lemma minus_one_text: "to_string (- 1) = ''-1''"
  by code_simp

lemma reg_reply_read:
  fixes F :: fp_env
  defines "t \<equiv> json_text F (json_obj [(''msgid'', JInt REG_MSG_ACK), (''errno'', JInt 0), (''id'', JInt (- 1))])"
  shows "\<exists>c'. read_turn F (Some t) c = Inr c' \<and> phase c' = phase c \<and> rwSem c' = rwSem c + 1 \<and>
    screen c' = screen c @ [''name register success, userid is -1, do not forget it'']"
proof -
  let ?js = "json_obj [(''msgid'', JInt REG_MSG_ACK), (''errno'', JInt 0), (''id'', JInt (- 1))]"
  have sd: "json_sendable ?js" by (rule json_obj_sendable) (simp add: msg_defs)
  have l: "length t \<le> 1024" by (simp add: t_def json_text_def reg_reply_text)
  have "json_get ''msgid'' ?js = Some (JInt REG_MSG_ACK)" by (simp add: json_get_json_obj)
  note r = read_turn_message [OF sd l [unfolded t_def] this]
  have "json_get ''errno'' (json_norm ?js) = Some (JUint 0)" "json_get ''id'' (json_norm ?js) = Some (JInt (- 1))"
    by (simp_all add: json_get_json_obj)
  then have "doRegResponse F (json_norm ?js) c = Inr (print_line ''name register success, userid is -1, do not forget it'' c)"
    by (simp add: doRegResponse_def json_index_present shown_def minus_one_text)
  with r show ?thesis by (simp add: t_def read_turn_def int32_def msg_defs print_line_def)
qed

text \<open>The server reads the text although the client sends the terminating zero with it.\<close>

lemma onMessage_reg:
  assumes "same_json F E" and "utf8_ok name" and "utf8_ok pwd" and "reg E conn (json_norm (reg_json name pwd)) w = (r, w')"
  shows "onMessage E conn (json_text F (reg_json name pwd) @ [CHR 0x00]) w = Some w'"
proof -
  have sd: "json_sendable (reg_json name pwd)" using assms(2,3) by (rule reg_json_sendable)
  then have "c_parse E (json_text F (reg_json name pwd) @ [CHR 0x00]) = Some (json_norm (reg_json name pwd))"
    using json_parse_terminated [OF json_dump_text, of "reg_json name pwd" F "[]"] assms(1)
    by (simp add: json_sendable_def same_json_def)
  moreover have "field_int ''msgid'' (json_norm (reg_json name pwd)) = Inr (REG_MSG, json_norm (reg_json name pwd))"
    by (rule json_lib.received_int [OF reg_json_get(1)]) (simp add: msg_defs to_int32_def)
  ultimately show ?thesis using assms(4) by (simp add: onMessage_def)
qed

text \<open>
  C19. A registration from keyboard to screen: the user chooses 2 in the menu and types a name and a
  password; the client sends one text, with the terminating zero; on a working database the server
  stores the user under a fresh positive id; and the client prints that the registration succeeded
  with the id -1, whatever the id is, and returns to its menu. The new user is not told the id he
  needs to log in.
\<close>

theorem register_end_to_end:
  assumes "same_json (ce_fp A) E" and "mysql_reliable cfg (c_sql E) tv" and "available (ms (off w))"
    and "tables_wf cfg (tv (db (ms (off w))))" and "sql_enabled cfg (InsertUser name pwd ''offline'') (tv (db (ms (off w))))"
    and "good (cin a)" and "unread (cin a) = nat_digits 2 @ CHR 0x0A # name @ CHR 0x0A # pwd @ CHR 0x0A # r"
    and "set (name @ pwd) \<inter> {CHR 0x0A, CHR 0x00} = {}" and "length name < 50" and "length pwd < 50"
    and "utf8_ok name" and "utf8_ok pwd" and "\<And>buf d. ce_send A buf d = int (length buf)"
  shows "\<exists>a' buf w' c i reply a''. main_turn A a = Inr a' \<and> outbox a' = outbox a @ [buf] \<and>
    onMessage E conn buf w = Some w' \<and> 0 < i \<and>
    tv (db (ms (off w'))) = add_user c i name pwd ''offline'' (tv (db (ms (off w)))) \<and>
    sent w' = sent w @ [(conn, reply)] \<and> read_turn (ce_fp A) (Some reply) a' = Inr a'' \<and>
    screen a'' = screen a' @ [''name register success, userid is -1, do not forget it''] \<and>
    client_step A a'' (a''\<lparr>rwSem := rwSem a, phase := AtMenu\<rparr>)"
proof -
  let ?buf = "json_text (ce_fp A) (reg_json name pwd) @ [CHR 0x00]" and ?js = "json_norm (reg_json name pwd)"
  let ?reply = "json_text (ce_fp A) (json_obj [(''msgid'', JInt REG_MSG_ACK), (''errno'', JInt 0), (''id'', JInt (- 1))])"
  obtain a' where a': "main_turn A a = Inr a'" "outbox a' = outbox a @ [?buf]" "phase a' = WaitReg" "rwSem a' = rwSem a"
    using typed_registration [OF assms(6-13)] by blast
  have "json_get ''name'' ?js = Some (JStr name)" "json_get ''password'' ?js = Some (JStr pwd)"
    by (simp_all add: reg_json_get)
  from reg_effect [OF assms(2-5) this, of conn] obtain w' c i where w': "reg E conn ?js w = (Inr (), w')" "0 < i"
    "tv (db (ms (off w'))) = add_user c i name pwd ''offline'' (tv (db (ms (off w))))"
    "sent w' = sent w @ [(conn, ?reply)]"
    using assms(1) by (auto simp: reg_reply_def same_json_def)
  have m: "onMessage E conn ?buf w = Some w'" using assms(1,11,12) w'(1) by (rule onMessage_reg)
  obtain a'' where a'': "read_turn (ce_fp A) (Some ?reply) a' = Inr a''" "phase a'' = phase a'" "rwSem a'' = rwSem a' + 1"
    "screen a'' = screen a' @ [''name register success, userid is -1, do not forget it'']"
    using reg_reply_read by blast
  have "client_step A a'' (a''\<lparr>rwSem := rwSem a, phase := AtMenu\<rparr>)"
    using client_step.reg_wait [of a'' A] a'(3,4) a''(2,3) by simp
  with a' m w'(2-4) a'' show ?thesis by blast
qed

theorem register_end_to_end_witness:
  "\<exists>a' buf w' i reply a''. main_turn ex_client_env (client_start (''2'' @ CHR 0x0A # ''cat'' @ CHR 0x0A # ''pc'' @ [CHR 0x0A])) = Inr a' \<and>
     outbox a' = [buf] \<and> onMessage ex_wire 7 buf (ex_state [Some 0, Some 1]) = Some w' \<and> 0 < i \<and>
     (i, ''cat'', ''pc'', ''offline'') \<in> set (t_User (db (ms (off w')))) \<and> sent w' = [(7, reply)] \<and>
     read_turn ex_fp (Some reply) a' = Inr a'' \<and> last (screen a'') = ''name register success, userid is -1, do not forget it''"
proof -
  let ?a = "client_start (''2'' @ CHR 0x0A # ''cat'' @ CHR 0x0A # ''pc'' @ [CHR 0x0A])" and ?w = "ex_state [Some 0, Some 1]"
  have j: "same_json (ce_fp ex_client_env) ex_wire" by (simp add: same_json_def ex_client_env_def ex_wire_def)
  have q: "mysql_reliable ex_cfg (c_sql ex_wire) (\<lambda>t. t)" using ex_env_sql by (simp add: ex_wire_def)
  have e: "sql_enabled ex_cfg (InsertUser ''cat'' ''pc'' ''offline'') (db (ms (off ?w)))"
    by (simp add: ex_defs row_ok_defs table_defs keys_left_def utf8_length_def)
  have "nat_digits 2 = ''2''" by code_simp
  then have u: "good (cin ?a)" "unread (cin ?a) = nat_digits 2 @ CHR 0x0A # ''cat'' @ CHR 0x0A # ''pc'' @ CHR 0x0A # []"
    by (simp_all add: client_start_def good_def)
  have "sent ?w = []" "outbox ?a = []" "ce_fp ex_client_env = ex_fp" by (simp_all add: ex_state_def client_start_def ex_client_env_def)
  with register_end_to_end [OF j q ex_available ex_tables_wf e u _ _ _ _ _ ex_send, of 7] show ?thesis
    by (auto simp: utf8_ok_all_ascii add_user_def)
qed

end
