(* ===== verification/Presence_Expiry.thy ===== *)
theory Presence_Expiry
  imports Login_Properties
begin

section \<open>Presence and time\<close>

text \<open>
  \<open>setUserOnline\<close> gives the presence record 120 seconds; the comment in
  \<open>src/server/redisclient.cpp\<close> expects a heartbeat to renew it, and nothing in the server does. Time
  is a step of the Redis server: \<open>elapse n\<close> is its documented effect on the keys.
\<close>

definition elapse :: "int \<Rightarrow> keyspace \<Rightarrow> keyspace" where
  "elapse n ks = ks\<lparr>
     keys := (\<lambda>k. case ttl ks k of None \<Rightarrow> keys ks k | Some m \<Rightarrow> if m \<le> n then None else keys ks k),
     ttl := (\<lambda>k. case ttl ks k of None \<Rightarrow> None | Some m \<Rightarrow> if m \<le> n then None else Some (m - n))\<rparr>"

lemma elapse_expired: "ttl ks k = Some m \<Longrightarrow> m \<le> n \<Longrightarrow> keys (elapse n ks) k = None"
  by (simp add: elapse_def)

lemma elapse_kept: "ttl ks k = None \<Longrightarrow> keys (elapse n ks) k = keys ks k"
  by (simp add: elapse_def)

lemma elapse_add: "0 \<le> m \<Longrightarrow> 0 \<le> n \<Longrightarrow> elapse n (elapse m ks) = elapse (m + n) ks"
  by (auto simp: elapse_def fun_eq_iff split: option.splits)

lemma redis_sem_ttl: "redis_sem c ks = Some (r, ks') \<Longrightarrow> cmd_key c \<noteq> Some k \<Longrightarrow> ttl ks' k = ttl ks k"
  by (cases c) (auto simp: put_key_def del_key_def split: if_splits)

context redis_server
begin

lemma exec_ttl: "cmd_key c \<noteq> Some k \<Longrightarrow> ttl (view (snd (exec c s))) k = ttl (view s) k"
proof -
  assume k: "cmd_key c \<noteq> Some k"
  obtain r s' where e: "exec c s = (r, s')" by fastforce
  with k exec_error [of c s _ s'] exec_reply [of c s _ s'] show ?thesis
    by (cases r) (auto dest: redis_sem_ttl)
qed

lemma redis_call_ttl:
  assumes "\<And>d. ttl (view (snd (body d))) k = ttl (view d) k"
  shows "ttl (view (rd (snd (redis_call R a b body s)))) k = ttl (view (rd s)) k"
proof -
  have "ttl (view d') k = ttl (view d) k" if "body d = (r, d')" for d r d' using assms [of d] that by simp
  then show ?thesis
    by (auto simp: redis_call_def getConnFromPool_def releaseConnToPool_def
        split: option.splits prod.splits sum.splits)
qed

lemma write_ops_ttl:
  assumes "r_exec R = exec"
  shows "k \<noteq> key \<Longrightarrow> ttl (view (rd (snd (redis_set R key v t s)))) k = ttl (view (rd s)) k"
    and "k \<noteq> offline_key i \<Longrightarrow> ttl (view (rd (snd (popOfflineMessages R i s)))) k = ttl (view (rd s)) k"
proof -
  assume k: "k \<noteq> key"
  show "ttl (view (rd (snd (redis_set R key v t s)))) k = ttl (view (rd s)) k"
    unfolding redis_set_def
  proof (rule redis_call_ttl)
    fix d
    let ?c = "SET key v (if 0 < t then Some t else None)"
    have "ttl (view (snd (exec ?c d))) k = ttl (view d) k" using k by (intro exec_ttl) simp
    then show "ttl (view (snd (run_cmds R [?c] d))) k = ttl (view d) k"
      by (auto simp: assms split: prod.splits sum.splits)
  qed
next
  assume k: "k \<noteq> offline_key i"
  show "ttl (view (rd (snd (popOfflineMessages R i s)))) k = ttl (view (rd s)) k"
    unfolding popOfflineMessages_def
  proof (rule redis_call_ttl)
    fix d
    have "ttl (view (snd (exec (LRANGE_ALL (offline_key i)) d))) k = ttl (view d) k"
      "\<And>d1. ttl (view (snd (exec (DEL (offline_key i)) d1))) k = ttl (view d1) k"
      using k by (auto intro!: exec_ttl)
    then show "ttl (view (snd (case r_exec R (LRANGE_ALL (offline_key i)) d of
                (Inr (RArray messages), d1) \<Rightarrow> (Inr messages, snd (r_exec R (DEL (offline_key i)) d1))
              | (_, d1) \<Rightarrow> (Inl RedisError, d1)))) k = ttl (view d) k"
      by (auto simp: assms split: prod.splits sum.splits redis_reply.splits)
  qed
qed

lemma login_friends_ttl:
  assumes "r_exec (c_redis E) = exec" and "k \<noteq> friends_key i"
  shows "ttl (view (rd (rc (snd (login_friends E i w))))) k = ttl (view (rd (rc w))) k"
  by (simp add: login_friends_def on_redis_eq on_mysql_eq split_beta friend_texts_state
      read_ops_view [OF assms(1)] write_ops_ttl(1) [OF assms(1,2)] fold_isUserOnline_view [OF assms(1)]
      split: option.splits)

lemma login_success_ttl:
  assumes "r_exec (c_redis E) = exec" and "k \<noteq> friends_key i" and "k \<noteq> offline_key i"
  shows "ttl (view (rd (rc (login_success E conn i u w)))) k =
    ttl (view (rd (snd (setUserOnline (c_redis E) i (c_name E conn) (snd (getUserNode (c_redis E) i (rc w))))))) k"
  by (simp add: login_success_def on_redis_eq split_beta login_groups_state Let_def
      login_friends_ttl [OF assms(1,2)] write_ops_ttl(2) [OF assms(1,3)])

end

context redis_reliable
begin

lemma login_presence_ttl:
  assumes "r_exec (c_redis E) = exec" and "rready (rc w)" and "user_hash (view (rd (rc w))) i = Some h"
  shows "ttl (view (rd (rc (login_success E conn i u w)))) (user_key i) = Some 120"
proof -
  let ?s = "snd (getUserNode (c_redis E) i (rc w))"
  have "rready ?s" using assms(2) by (rule redis_op_rready)
  moreover have "user_hash (view (rd ?s)) i = Some h" using assms(3) by (simp add: read_ops_view [OF assms(1)])
  ultimately show ?thesis
    using setUserOnline_ok [OF assms(1), of ?s i h "c_name E conn"] login_success_ttl [OF assms(1), of "user_key i" i conn u w]
    by (auto simp: key_simps)
qed

end

text \<open>
  C31. Presence lapses under a connected user: 120 seconds after a login that was accepted, with no
  further login in between, the user is no longer online for the service although the connection map
  still has the connection; so a second login on another connection is accepted too, and the map
  keeps the first connection: the second client is logged in and gets no message.
\<close>

theorem presence_lapses:
  assumes "redis_reliable (r_exec (c_redis E)) rv" and "rready (rc w)" and "user_hash (rv (rd (rc w))) i = Some h"
    and "map_of (userConnMap w) i = None" and "120 \<le> n"
    and "userConnMap w2 = userConnMap (login_success E c1 i u w)"
    and "rv (rd (rc w2)) = elapse n (rv (rd (rc (login_success E c1 i u w))))" and "rready (rc w2)"
    and "fst (UserModel_query (c_sql E) i (ms (off w2))) = User i name pwd st"
    and "json_get ''id'' js = Some v" and "get_int v = Inr i" and "json_get ''password'' js = Some (JStr pwd)"
  shows "\<not> user_online (rv (rd (rc w2))) i \<and> map_of (userConnMap w2) i = Some c1 \<and>
    (\<exists>w3 fields. login E c2 js w2 = (Inr (), w3) \<and> sent w3 = sent w2 @ [(c2, c_dump E (json_obj fields))] \<and>
      json_get ''errno'' (json_obj fields) = Some (JInt 0) \<and> map_of (userConnMap w3) i = Some c1)"
proof -
  have "ttl (rv (rd (rc (login_success E c1 i u w)))) (user_key i) = Some 120"
    using redis_reliable.login_presence_ttl [OF assms(1) refl assms(2,3)] .
  from elapse_expired [OF this assms(5)] have h: "user_hash (rv (rd (rc w2))) i = Some []"
    by (simp add: assms(7) user_hash_def hash_at_def)
  then have off: "\<not> user_online (rv (rd (rc w2))) i" by (simp add: user_online_def)
  have c: "map_of (userConnMap w2) i = Some c1"
    by (simp add: assms(4,6) login_success_conns umap_simps)
  have l: "login E c2 js w2 = (Inr (), login_with E c2 i pwd w2)" using assms(10-12) by (rule login_fields)
  note acc = redis_reliable.login_with_accepted [OF assms(1) refl assms(8) h off assms(9), where conn = c2]
  have "map_of (userConnMap (login_with E c2 i pwd w2)) i = Some c1" using acc(2) c by (simp add: umap_simps)
  with off c l acc(1) show ?thesis by auto
qed

theorem presence_lapses_witness:
  "\<exists>w2 w3 fields. rd (rc w2) = elapse 120 (rd (rc (login_success ex_env 7 1 (User 1 ''ann'' ''pa'' ''offline'') (ex_state [Some 0, Some 1])))) \<and>
     login ex_env 8 (json_obj [(''id'', JInt 1), (''password'', JStr ''pa'')]) w2 = (Inr (), w3) \<and>
     sent w3 = sent w2 @ [(8, c_dump ex_env (json_obj fields))] \<and>
     json_get ''errno'' (json_obj fields) = Some (JInt 0) \<and> map_of (userConnMap w3) 1 = Some 7"
proof -
  let ?w = "ex_state [Some 0, Some 1]" and ?js = "json_obj [(''id'', JInt 1), (''password'', JStr ''pa'')]"
  let ?w1 = "login_success ex_env 7 1 (User 1 ''ann'' ''pa'' ''offline'') ?w"
  let ?w2 = "?w\<lparr>userConnMap := userConnMap ?w1, rc := (rc ?w)\<lparr>rd := elapse 120 (rd (rc ?w1))\<rparr>\<rparr>"
  have "(1, ''ann'', ''pa'', ''offline'') \<in> set (t_User (db (ms (off ?w))))" by (simp add: ex_defs)
  then have "fst (UserModel_query (c_sql ex_env) 1 (ms (off ?w2))) = User 1 ''ann'' ''pa'' ''offline''"
    using mysql_reliable.UserModel_query_ok [OF ex_env_sql ex_available ex_tables_wf] by simp
  moreover have "rready (rc ?w2)" using ex_rready [of "[Some 0, Some 1]"] by (simp add: rready_def)
  moreover have "json_get ''id'' ?js = Some (JInt 1)" "get_int (JInt 1) = Inr 1" "json_get ''password'' ?js = Some (JStr ''pa'')"
    by (simp_all add: json_get_json_obj to_int32_def)
  moreover have "map_of (userConnMap ?w) 1 = None" by (simp add: ex_state_def)
  moreover have "userConnMap ?w2 = userConnMap ?w1" "rd (rc ?w2) = elapse 120 (rd (rc ?w1))" by simp_all
  ultimately have "\<exists>w3 fields. login ex_env 8 ?js ?w2 = (Inr (), w3) \<and> sent w3 = sent ?w2 @ [(8, c_dump ex_env (json_obj fields))] \<and>
      json_get ''errno'' (json_obj fields) = Some (JInt 0) \<and> map_of (userConnMap w3) 1 = Some 7"
    using presence_lapses [OF ex_env_redis ex_rready ex_user_hash _ order.refl, where ?w2.0 = ?w2 and ?c1.0 = 7 and ?c2.0 = 8
        and u = "User 1 ''ann'' ''pa'' ''offline''" and js = ?js and v = "JInt 1" and name = "''ann''" and pwd = "''pa''" and st = "''offline''"]
    by blast
  moreover have "rd (rc ?w2) = elapse 120 (rd (rc ?w1))" by simp
  ultimately show ?thesis by blast
qed

end
