(* ===== verification/Redis_Pool_Threads.thy ===== *)
theory Redis_Pool_Threads
  imports Redis_Pool "HOL-Library.Multiset"
begin

section \<open>RedisConnectionPool under concurrency\<close>

text \<open>
  The threads of \<open>src/server/redisconnectionpool/redisconnectionpool.cpp\<close>. A step is what a thread
  does while it has the mutex: \<open>wait\<close> and \<open>wait_for\<close> give it back, and a waiting thread goes on when
  it has been notified, spuriously, or when its time is up, and looks at the predicate again.
\<close>

datatype rp_pc =
    RP_out
  | RP_wait bool \<comment> \<open>asleep on \<open>cond_\<close>; whether there is a timeout\<close>
  | RP_woken bool
  | RP_expired
  | RP_has nat
  | RP_stopping \<comment> \<open>in \<open>stop\<close>, before \<open>notify_all\<close>\<close>

record rp_sys =
  rps_pool :: redis_pool
  rps_pcs :: "nat \<Rightarrow> rp_pc"

definition acquire_done :: "redis_pool \<Rightarrow> rp_pc \<times> redis_pool" where
  "acquire_done p = (case acquire_front p of (None, q) \<Rightarrow> (RP_out, q) | (Some c, q) \<Rightarrow> (RP_has c, q))"

definition acquire_enter :: "int \<Rightarrow> redis_pool \<Rightarrow> rp_pc \<times> redis_pool" where
  "acquire_enter timeout_ms p =
     (if rp_stopped p then (RP_out, p)
      else if rp_conns p = [] then (RP_wait (0 < timeout_ms), p)
      else acquire_done p)"

definition acquire_awake :: "bool \<Rightarrow> bool \<Rightarrow> redis_pool \<Rightarrow> rp_pc \<times> redis_pool" where
  "acquire_awake timed expired p =
     (if rp_conns p \<noteq> [] \<or> rp_stopped p then acquire_done p
      else if expired then (RP_out, p)
      else (RP_wait timed, p))"

inductive notify_one :: "nat \<Rightarrow> (nat \<Rightarrow> rp_pc) \<Rightarrow> (nat \<Rightarrow> rp_pc) \<Rightarrow> bool" for n :: nat where
  nobody: "(\<And>u b. u < n \<Longrightarrow> f u \<noteq> RP_wait b) \<Longrightarrow> notify_one n f f"
| one: "u < n \<Longrightarrow> f u = RP_wait b \<Longrightarrow> notify_one n f (f(u := RP_woken b))"

definition notify_all :: "(nat \<Rightarrow> rp_pc) \<Rightarrow> nat \<Rightarrow> rp_pc" where
  "notify_all f = (\<lambda>u. case f u of RP_wait b \<Rightarrow> RP_woken b | x \<Rightarrow> x)"

inductive rp_step :: "nat \<Rightarrow> rp_sys \<Rightarrow> rp_sys \<Rightarrow> bool" for n :: nat where
  acquire: "\<lbrakk>t < n; rps_pcs s t = RP_out; acquire_enter timeout_ms (rps_pool s) = (pc, q)\<rbrakk> \<Longrightarrow>
    rp_step n s \<lparr>rps_pool = q, rps_pcs = (rps_pcs s)(t := pc)\<rparr>"
| spurious: "\<lbrakk>t < n; rps_pcs s t = RP_wait b\<rbrakk> \<Longrightarrow> rp_step n s (s\<lparr>rps_pcs := (rps_pcs s)(t := RP_woken b)\<rparr>)"
| timeout: "\<lbrakk>t < n; rps_pcs s t = RP_wait True\<rbrakk> \<Longrightarrow> rp_step n s (s\<lparr>rps_pcs := (rps_pcs s)(t := RP_expired)\<rparr>)"
| awake: "\<lbrakk>t < n; rps_pcs s t = RP_woken b; acquire_awake b False (rps_pool s) = (pc, q)\<rbrakk> \<Longrightarrow>
    rp_step n s \<lparr>rps_pool = q, rps_pcs = (rps_pcs s)(t := pc)\<rparr>"
| expired: "\<lbrakk>t < n; rps_pcs s t = RP_expired; acquire_awake True True (rps_pool s) = (pc, q)\<rbrakk> \<Longrightarrow>
    rp_step n s \<lparr>rps_pool = q, rps_pcs = (rps_pcs s)(t := pc)\<rparr>"
| release: "\<lbrakk>t < n; rps_pcs s t = RP_has c; notify_one n ((rps_pcs s)(t := RP_out)) f\<rbrakk> \<Longrightarrow>
    rp_step n s \<lparr>rps_pool = release (Some c) (rps_pool s), rps_pcs = f\<rparr>"
| stop: "\<lbrakk>t < n; rps_pcs s t = RP_out\<rbrakk> \<Longrightarrow>
    rp_step n s \<lparr>rps_pool = stop (rps_pool s),
      rps_pcs = (if rp_stopped (rps_pool s) then rps_pcs s else (rps_pcs s)(t := RP_stopping))\<rparr>"
| notified: "\<lbrakk>t < n; rps_pcs s t = RP_stopping\<rbrakk> \<Longrightarrow>
    rp_step n s (s\<lparr>rps_pcs := (notify_all (rps_pcs s))(t := RP_out)\<rparr>)"

inductive_cases rp_stepE: "rp_step n s s'"

definition rp_start :: "redis_pool \<Rightarrow> rp_sys" where
  "rp_start p = \<lparr>rps_pool = p, rps_pcs = (\<lambda>t. RP_out)\<rparr>"

subsection \<open>The parts of \<open>acquire\<close>\<close>

text \<open>
  The operation of \<open>Redis_Pool\<close>, in which the effect of the other threads is a parameter, is a wait
  with its two ends.
\<close>

lemma acquire_parts:
  "acquire others timeout_ms p =
     (case acquire_enter timeout_ms p of
        (RP_wait timed, q) \<Rightarrow>
          (case acquire_awake timed timed (others p) of
             (RP_has c, q') \<Rightarrow> Some (Some c, q') | (RP_wait b, q') \<Rightarrow> None | (_, q') \<Rightarrow> Some (None, q'))
      | (RP_has c, q) \<Rightarrow> Some (Some c, q)
      | (_, q) \<Rightarrow> Some (None, q))"
  by (simp add: acquire_def acquire_enter_def acquire_awake_def acquire_done_def acquire_front_def Let_def split: list.splits)

subsection \<open>No wake-up is lost\<close>

fun is_awake :: "rp_pc \<Rightarrow> bool" where
  "is_awake (RP_woken b) = True"
| "is_awake RP_expired = True"
| "is_awake _ = False"

fun is_waiting :: "rp_pc \<Rightarrow> bool" where
  "is_waiting (RP_wait b) = True"
| "is_waiting _ = False"

definition awake_count :: "nat \<Rightarrow> (nat \<Rightarrow> rp_pc) \<Rightarrow> nat" where
  "awake_count n f = (\<Sum>u<n. if is_awake (f u) then 1 else 0)"

text \<open>A sum over the threads after one of them has moved.\<close>

lemma sum_threads_upd:
  fixes h :: "rp_pc \<Rightarrow> 'a :: comm_monoid_add"
  assumes "t < (n :: nat)"
  shows "(\<Sum>u<n. h ((f(t := x)) u)) + h (f t) = (\<Sum>u<n. h (f u)) + h x"
proof -
  have "(\<Sum>u<n. h (g u)) = h (g t) + (\<Sum>u\<in>{..<n} - {t}. h (g u))" for g :: "nat \<Rightarrow> rp_pc"
    using assms by (simp add: sum.remove)
  from this [of "f(t := x)"] this [of f] show ?thesis by (simp add: ac_simps)
qed

lemma awake_count_upd:
  "t < n \<Longrightarrow> awake_count n (f(t := x)) + (if is_awake (f t) then 1 else 0) = awake_count n f + (if is_awake x then 1 else 0)"
  unfolding awake_count_def by (rule sum_threads_upd)

lemma awake_count_pos: "0 < awake_count n f \<Longrightarrow> \<exists>u<n. is_awake (f u)"
  unfolding awake_count_def by (rule ccontr) simp

text \<open>
  While somebody sleeps there are at least as many threads awake as handles in the pool; and after
  \<open>stop\<close> somebody is about to wake all sleepers.
\<close>

definition wakeups_ok :: "nat \<Rightarrow> rp_sys \<Rightarrow> bool" where
  "wakeups_ok n s \<longleftrightarrow>
     (\<not> rp_stopped (rps_pool s) \<longrightarrow> (\<exists>u<n. is_waiting (rps_pcs s u)) \<longrightarrow>
        length (rp_conns (rps_pool s)) \<le> awake_count n (rps_pcs s)) \<and>
     (rp_stopped (rps_pool s) \<longrightarrow> (\<exists>u<n. is_waiting (rps_pcs s u)) \<longrightarrow> (\<exists>u<n. rps_pcs s u = RP_stopping))"

text \<open>What the two ends of a wait do to the pool and to the thread.\<close>

lemma enter_cases:
  assumes "acquire_enter timeout_ms p = (pc, q)"
  obtains "pc = RP_out" "q = p" "rp_stopped p"
  | b where "pc = RP_wait b" "q = p" "\<not> rp_stopped p" "rp_conns p = []"
  | c cs where "pc = RP_has c" "\<not> rp_stopped p" "rp_conns p = c # cs" "q = p\<lparr>rp_conns := cs\<rparr>"
  using assms by (auto simp: acquire_enter_def acquire_done_def acquire_front_def split: if_splits list.splits)

lemma awake_cases:
  assumes "acquire_awake timed expired p = (pc, q)"
  obtains "pc = RP_out" "q = p" "rp_stopped p"
  | "pc = RP_out \<or> pc = RP_wait timed" "q = p" "\<not> rp_stopped p" "rp_conns p = []"
  | c cs where "pc = RP_has c" "\<not> rp_stopped p" "rp_conns p = c # cs" "q = p\<lparr>rp_conns := cs\<rparr>"
  using assms by (auto simp: acquire_awake_def acquire_done_def acquire_front_def split: if_splits list.splits)

text \<open>Three reasons why a step keeps the invariant.\<close>

lemma wakeups_stopped:
  assumes "wakeups_ok n s" and "rp_stopped (rps_pool s)" and "rp_stopped q"
    and "\<And>u. u < n \<Longrightarrow> is_waiting (f u) \<Longrightarrow> is_waiting (rps_pcs s u)"
    and "\<And>u. rps_pcs s u = RP_stopping \<Longrightarrow> f u = RP_stopping"
  shows "wakeups_ok n \<lparr>rps_pool = q, rps_pcs = f\<rparr>"
  using assms unfolding wakeups_ok_def by (simp, blast)

lemma wakeups_running:
  assumes "wakeups_ok n s" and "\<not> rp_stopped (rps_pool s)" and "\<not> rp_stopped q"
    and "\<And>u. u < n \<Longrightarrow> is_waiting (f u) \<Longrightarrow> is_waiting (rps_pcs s u)"
    and "\<lbrakk>length (rp_conns (rps_pool s)) \<le> awake_count n (rps_pcs s); \<exists>u<n. is_waiting (f u)\<rbrakk> \<Longrightarrow>
      length (rp_conns q) \<le> awake_count n f"
  shows "wakeups_ok n \<lparr>rps_pool = q, rps_pcs = f\<rparr>"
  using assms unfolding wakeups_ok_def by (simp, blast)

lemma wakeups_empty: "\<not> rp_stopped q \<Longrightarrow> rp_conns q = [] \<Longrightarrow> wakeups_ok n \<lparr>rps_pool = q, rps_pcs = f\<rparr>"
  by (simp add: wakeups_ok_def)

text \<open>A thread that takes a handle was awake, or was never asleep.\<close>

lemma wakeups_taken:
  assumes "wakeups_ok n s" and t: "t < n" and "\<not> rp_stopped (rps_pool s)" and "rp_conns (rps_pool s) = c # cs"
  shows "wakeups_ok n \<lparr>rps_pool = rps_pool s\<lparr>rp_conns := cs\<rparr>, rps_pcs = (rps_pcs s)(t := RP_has c)\<rparr>"
proof (rule wakeups_running [OF assms(1,3)])
  assume "length (rp_conns (rps_pool s)) \<le> awake_count n (rps_pcs s)"
  with awake_count_upd [OF t, of "rps_pcs s" "RP_has c"] assms(4)
  show "length (rp_conns (rps_pool s\<lparr>rp_conns := cs\<rparr>)) \<le> awake_count n ((rps_pcs s)(t := RP_has c))"
    by (simp del: fun_upd_apply split: if_splits)
qed (use assms(3) in \<open>auto split: if_splits\<close>)

lemma wakeups_enter:
  assumes "wakeups_ok n s" and t: "t < n" "rps_pcs s t = RP_out" and "acquire_enter timeout_ms (rps_pool s) = (pc, q)"
  shows "wakeups_ok n \<lparr>rps_pool = q, rps_pcs = (rps_pcs s)(t := pc)\<rparr>"
  using assms(4)
proof (cases rule: enter_cases)
  case 1
  with assms t show ?thesis by (intro wakeups_stopped [OF assms(1)]) (auto split: if_splits)
qed (simp_all add: wakeups_empty wakeups_taken [OF assms(1) t(1)])

lemma wakeups_awake:
  assumes "wakeups_ok n s" and t: "t < n" "is_awake (rps_pcs s t)" and "acquire_awake timed e (rps_pool s) = (pc, q)"
  shows "wakeups_ok n \<lparr>rps_pool = q, rps_pcs = (rps_pcs s)(t := pc)\<rparr>"
  using assms(4)
proof (cases rule: awake_cases)
  case 1
  with assms t show ?thesis by (intro wakeups_stopped [OF assms(1)]) (auto split: if_splits)
qed (simp_all add: wakeups_empty wakeups_taken [OF assms(1) t(1)])

text \<open>A sleeper that goes on, notified or not.\<close>

lemma wakeups_woken:
  assumes "wakeups_ok n s" and t: "t < n" "is_waiting (rps_pcs s t)" and "is_awake x"
  shows "wakeups_ok n \<lparr>rps_pool = rps_pool s, rps_pcs = (rps_pcs s)(t := x)\<rparr>"
proof (cases "rp_stopped (rps_pool s)")
  case True
  have "\<not> is_waiting x" using assms(4) by (cases x) auto
  with assms True show ?thesis by (intro wakeups_stopped [OF assms(1)]) (auto split: if_splits)
next
  case False
  have "\<not> is_waiting x" "\<not> is_awake (rps_pcs s t)" using assms(3,4) by (cases x; cases "rps_pcs s t"; simp)+
  with False awake_count_upd [OF t(1), of "rps_pcs s" x] assms(4) show ?thesis
    by (intro wakeups_running [OF assms(1)]) (auto split: if_splits simp del: fun_upd_apply, auto split: if_splits)
qed

lemma wakeups_release:
  assumes "wakeups_ok n s" and t: "t < n" "rps_pcs s t = RP_has c" and "notify_one n ((rps_pcs s)(t := RP_out)) f"
  shows "wakeups_ok n \<lparr>rps_pool = release (Some c) (rps_pool s), rps_pcs = f\<rparr>"
  using assms(4)
proof cases
  case nobody
  then have "\<And>u. u < n \<Longrightarrow> \<not> is_waiting (f u)" by (metis is_waiting.elims(2))
  then show ?thesis by (auto simp: wakeups_ok_def)
next
  case (one u b)
  show ?thesis
  proof (cases "rp_stopped (rps_pool s)")
    case True
    with one t show ?thesis
      by (intro wakeups_stopped [OF assms(1)]) (auto simp: release_def split: if_splits)
  next
    case False
    have "awake_count n f = awake_count n ((rps_pcs s)(t := RP_out)) + 1"
      using awake_count_upd [OF one(2), of "(rps_pcs s)(t := RP_out)" "RP_woken b"] one by (simp del: fun_upd_apply)
    also have "awake_count n ((rps_pcs s)(t := RP_out)) = awake_count n (rps_pcs s)"
      using awake_count_upd [OF t(1), of "rps_pcs s" RP_out] t by simp
    finally have "awake_count n f = awake_count n (rps_pcs s) + 1" .
    moreover have "is_waiting (f v) \<Longrightarrow> is_waiting (rps_pcs s v)" for v
      using one(1) by (auto split: if_splits)
    ultimately show ?thesis using False
      by (intro wakeups_running [OF assms(1)]) (simp_all add: release_def)
  qed
qed

lemma wakeups_step: "rp_step n s s' \<Longrightarrow> wakeups_ok n s \<Longrightarrow> wakeups_ok n s'"
proof (induction rule: rp_step.induct)
  case (acquire t s timeout_ms pc q)
  then show ?case by (intro wakeups_enter)
next
  case (spurious t s b)
  with wakeups_woken [of n s t "RP_woken b"] show ?case by (cases s) simp
next
  case (timeout t s)
  with wakeups_woken [of n s t RP_expired] show ?case by (cases s) simp
next
  case (awake t s b pc q)
  then show ?case by (intro wakeups_awake) simp_all
next
  case (expired t s pc q)
  then show ?case by (intro wakeups_awake) simp_all
next
  case (release t s c f)
  then show ?case by (intro wakeups_release)
next
  case (stop t s)
  then show ?case by (cases s) (auto simp: wakeups_ok_def Redis_Pool.stop_def)
next
  case (notified t s)
  have "\<not> is_waiting (notify_all f u)" for f u by (simp add: notify_all_def split: rp_pc.splits)
  then show ?case by (auto simp: wakeups_ok_def)
qed

text \<open>The handles the threads hold, and those in the queue: none is lost and none is held twice.\<close>

fun handle_of :: "rp_pc \<Rightarrow> nat multiset" where
  "handle_of (RP_has c) = {#c#}"
| "handle_of _ = {#}"

definition handles :: "nat \<Rightarrow> rp_sys \<Rightarrow> nat multiset" where
  "handles n s = mset (rp_conns (rps_pool s)) + (\<Sum>u<n. handle_of (rps_pcs s u))"

lemma held_upd:
  "t < (n :: nat) \<Longrightarrow> (\<Sum>u<n. handle_of ((f(t := x)) u)) + handle_of (f t) = (\<Sum>u<n. handle_of (f u)) + handle_of x"
  using sum_threads_upd [of t n handle_of f x] .

lemma held_same: "t < (n :: nat) \<Longrightarrow> handle_of (f t) = {#} \<Longrightarrow> handle_of x = {#} \<Longrightarrow>
    (\<Sum>u<n. handle_of ((f(t := x)) u)) = (\<Sum>u<n. handle_of (f u))"
  using held_upd [of t n f x] by simp

lemma handles_move:
  assumes t: "t < n" and "handle_of (rps_pcs s t) = {#}"
    and "mset (rp_conns q) + handle_of pc = mset (rp_conns (rps_pool s))"
  shows "handles n \<lparr>rps_pool = q, rps_pcs = (rps_pcs s)(t := pc)\<rparr> = handles n s"
  using held_upd [OF t, of "rps_pcs s" pc] assms(2,3)
  by (simp add: handles_def ac_simps del: fun_upd_apply)

lemma enter_handles: "acquire_enter timeout_ms p = (pc, q) \<Longrightarrow> mset (rp_conns q) + handle_of pc = mset (rp_conns p)"
  by (erule enter_cases) auto

lemma awake_handles: "acquire_awake timed e p = (pc, q) \<Longrightarrow> mset (rp_conns q) + handle_of pc = mset (rp_conns p)"
  by (erule awake_cases) auto

lemma notify_one_held: "notify_one n f g \<Longrightarrow> (\<Sum>u<n. handle_of (g u)) = (\<Sum>u<n. handle_of (f u))"
  by (induction rule: notify_one.induct) (auto intro!: held_same simp del: fun_upd_apply)

lemma notify_all_held: "handle_of (notify_all f u) = handle_of (f u)"
  by (simp add: notify_all_def split: rp_pc.splits)

lemma handles_step:
  "rp_step n s s' \<Longrightarrow> handles n s' = handles n s \<or> rp_stopped (rps_pool s') \<and> handles n s' \<subseteq># handles n s"
proof (induction rule: rp_step.induct)
  case (acquire t s timeout_ms pc q)
  then show ?case by (simp add: handles_move enter_handles del: fun_upd_apply)
next
  case (spurious t s b)
  then show ?case using handles_move [of t n s "rps_pool s" "RP_woken b"] by (cases s) simp
next
  case (timeout t s)
  then show ?case using handles_move [of t n s "rps_pool s" RP_expired] by (cases s) simp
next
  case (awake t s b pc q)
  then show ?case by (simp add: handles_move awake_handles del: fun_upd_apply)
next
  case (expired t s pc q)
  then show ?case by (simp add: handles_move awake_handles del: fun_upd_apply)
next
  case (release t s c f)
  then show ?case
    using held_upd [of t n "rps_pcs s" RP_out] notify_one_held [OF release(3)]
    by (simp add: handles_def Redis_Pool.release_def ac_simps del: fun_upd_apply)
next
  case (stop t s)
  then show ?case
    by (simp add: handles_def Redis_Pool.stop_def held_same del: fun_upd_apply)
next
  case (notified t s)
  moreover from this have "handle_of (notify_all (rps_pcs s) t) = {#}" by (simp add: notify_all_held)
  ultimately show ?case by (simp add: handles_def held_same notify_all_held del: fun_upd_apply)
qed

lemma stopped_step: "rp_step n s s' \<Longrightarrow> rp_stopped (rps_pool s) \<Longrightarrow> rp_stopped (rps_pool s')"
  by (induction rule: rp_step.induct)
    (auto elim!: enter_cases awake_cases simp: Redis_Pool.release_def Redis_Pool.stop_def)

subsection \<open>What every schedule keeps\<close>

lemma reach_pool:
  assumes "(rp_step n)\<^sup>*\<^sup>* (rp_start p) s"
  shows "wakeups_ok n s \<and> handles n s \<subseteq># mset (rp_conns p) \<and>
    (rp_stopped (rps_pool s) \<or> handles n s = mset (rp_conns p))"
  using assms
proof (induction rule: rtranclp_induct)
  case base
  then show ?case by (simp add: rp_start_def wakeups_ok_def handles_def)
next
  case (step s s')
  with wakeups_step stopped_step handles_step [OF step(2)] show ?case
    by (metis subset_mset.order_trans)
qed

lemma held_part: "t < (n :: nat) \<Longrightarrow> handle_of (f t) \<subseteq># (\<Sum>u<n. handle_of (f u))"
  by (simp add: sum.remove [of "{..<n}" t])

lemma two_held:
  assumes "t < (n :: nat)" and "u < n" and "t \<noteq> u" and "f t = RP_has c" and "f u = RP_has c"
  shows "{#c, c#} \<subseteq># (\<Sum>u<n. handle_of (f u))"
proof -
  have "(\<Sum>u<n. handle_of (f u)) = handle_of (f t) + (handle_of (f u) + (\<Sum>v\<in>{..<n} - {t} - {u}. handle_of (f v)))"
    using assms(1-3) by (simp add: sum.remove [of "{..<n}" t] sum.remove [of "{..<n} - {t}" u])
  then show ?thesis using assms(4,5) by simp
qed

lemma some_holder: "x \<in># (\<Sum>u<(n :: nat). handle_of (f u)) \<Longrightarrow> \<exists>u<n. f u = RP_has x"
proof -
  assume "x \<in># (\<Sum>u<n. handle_of (f u))"
  then obtain u where "u < n" "x \<in># handle_of (f u)" by (auto simp: set_mset_sum)
  then show ?thesis by (cases "f u") auto
qed

text \<open>What the threads that are not asleep can do for those that are.\<close>

lemma awake_takes:
  assumes "u < n" and "is_awake (rps_pcs s u)" and "\<not> rp_stopped (rps_pool s)" and "rp_conns (rps_pool s) = c # cs"
  shows "\<exists>s'. rp_step n s s' \<and> rps_pcs s' u = RP_has c"
proof -
  let ?q = "rps_pool s\<lparr>rp_conns := cs\<rparr>"
  have a: "acquire_awake timed e (rps_pool s) = (RP_has c, ?q)" for timed e
    using assms(3,4) by (simp add: acquire_awake_def acquire_done_def acquire_front_def)
  then have "rp_step n s \<lparr>rps_pool = ?q, rps_pcs = (rps_pcs s)(u := RP_has c)\<rparr>"
    using assms(1,2) rp_step.awake [OF assms(1) _ a] rp_step.expired [OF assms(1) _ a]
    by (cases "rps_pcs s u") auto
  then show ?thesis by force
qed

lemma holder_wakes:
  assumes "u < n" and "rps_pcs s u = RP_has c" and "t < n" and "is_waiting (rps_pcs s t)"
  shows "\<exists>s'. rp_step n s s' \<and> is_awake (rps_pcs s' t) \<and> c \<in> set (rp_conns (rps_pool s'))"
proof -
  let ?f = "(rps_pcs s)(u := RP_out)"
  obtain b where b: "rps_pcs s t = RP_wait b" using assms(4) by (cases "rps_pcs s t") auto
  with assms(2) have "?f t = RP_wait b" by auto
  from notify_one.one [where f = ?f, OF assms(3) this]
  have "rp_step n s \<lparr>rps_pool = Redis_Pool.release (Some c) (rps_pool s), rps_pcs = ?f(t := RP_woken b)\<rparr>"
    by (rule rp_step.release [OF assms(1,2)])
  then show ?thesis by (force simp: Redis_Pool.release_def)
qed

lemma stopping_wakes:
  assumes "u < n" and "rps_pcs s u = RP_stopping"
  shows "\<exists>s'. rp_step n s s' \<and> (\<forall>v. \<not> is_waiting (rps_pcs s' v))"
proof -
  have "\<not> is_waiting (notify_all f v)" for f v by (simp add: notify_all_def split: rp_pc.splits)
  then have "\<forall>v. \<not> is_waiting (((notify_all (rps_pcs s))(u := RP_out)) v)" by simp
  then show ?thesis
    by (intro exI [where x = "s\<lparr>rps_pcs := (notify_all (rps_pcs s))(u := RP_out)\<rparr>"] conjI rp_step.notified [OF assms]) simp
qed

text \<open>
  C29. A thread asleep in \<open>acquire\<close> is never forgotten, whatever the interleaving of the threads, the
  spurious wake-ups and the timeouts. In every reachable state of a pool that was given a handle: while
  the pool runs, either a handle is queued and some thread that has been woken takes it with its next
  step, or some thread holds a handle and its \<open>release\<close> can queue it and wake the sleeper; once \<open>stop\<close>
  has emptied the pool, the thread in \<open>stop\<close> wakes every sleeper with its next step.
\<close>

theorem redis_pool_no_lost_wakeup:
  assumes "(rp_step n)\<^sup>*\<^sup>* (rp_start p) s" and "rp_conns p \<noteq> []" and "t < n" and "is_waiting (rps_pcs s t)"
  shows "if rp_stopped (rps_pool s)
    then \<exists>u<n. rps_pcs s u = RP_stopping \<and> (\<exists>s'. rp_step n s s' \<and> (\<forall>v. \<not> is_waiting (rps_pcs s' v)))
    else (\<exists>c cs u s'. rp_conns (rps_pool s) = c # cs \<and> u < n \<and> is_awake (rps_pcs s u) \<and> rp_step n s s' \<and> rps_pcs s' u = RP_has c) \<or>
      (\<exists>u<n. \<exists>c s'. rps_pcs s u = RP_has c \<and> rp_step n s s' \<and> is_awake (rps_pcs s' t) \<and> c \<in> set (rp_conns (rps_pool s')))"
proof (cases "rp_stopped (rps_pool s)")
  case True
  with reach_pool [OF assms(1)] assms(3,4) stopping_wakes [where n = n] show ?thesis unfolding wakeups_ok_def by force
next
  case False
  show ?thesis
  proof (cases "rp_conns (rps_pool s)")
    case Nil
    with False reach_pool [OF assms(1)] have "(\<Sum>u<n. handle_of (rps_pcs s u)) = mset (rp_conns p)"
      by (simp add: handles_def)
    with assms(2) obtain c u where "u < n" "rps_pcs s u = RP_has c"
      using some_holder [of "hd (rp_conns p)" "rps_pcs s" n] by auto
    with False holder_wakes [OF this assms(3,4)] show ?thesis by auto
  next
    case (Cons c cs)
    with False reach_pool [OF assms(1)] assms(3,4) have "0 < awake_count n (rps_pcs s)"
      unfolding wakeups_ok_def by force
    with awake_takes [OF _ _ False Cons] Cons False show ?thesis using awake_count_pos [of n "rps_pcs s"] by fastforce
  qed
qed

text \<open>
  C30. No two threads ever hold the same handle, no handle that is held is queued, and until \<open>stop\<close>
  every handle of the pool is queued or held: in every reachable state, whatever the interleaving.
\<close>

theorem redis_pool_exclusive:
  assumes "(rp_step n)\<^sup>*\<^sup>* (rp_start p) s" and "distinct (rp_conns p)" and "u < n" and "rps_pcs s u = RP_has c"
  shows "c \<notin> set (rp_conns (rps_pool s)) \<and> (\<forall>v<n. rps_pcs s v = RP_has c \<longrightarrow> v = u) \<and> distinct (rp_conns (rps_pool s)) \<and>
    (rp_stopped (rps_pool s) \<or> (\<forall>d\<in>set (rp_conns p). d \<in> set (rp_conns (rps_pool s)) \<or> (\<exists>v<n. rps_pcs s v = RP_has d)))"
proof -
  have h: "handles n s \<subseteq># mset (rp_conns p)" using reach_pool [OF assms(1)] by simp
  then have one: "count (handles n s) d \<le> 1" for d
    using mset_subset_eq_count [OF h, of d] assms(2) by (simp add: distinct_count_atmost_1 split: if_splits)
  have "1 \<le> count (\<Sum>u<n. handle_of (rps_pcs s u)) c"
    using mset_subset_eq_count [OF held_part [OF assms(3), of "rps_pcs s"], of c] assms(4) by simp
  with one [of c] have "count (mset (rp_conns (rps_pool s))) c = 0"
    unfolding handles_def count_union by arith
  then have "c \<notin> set (rp_conns (rps_pool s))" by simp
  moreover have "v = u" if "v < n" "rps_pcs s v = RP_has c" for v
    using mset_subset_eq_count [OF two_held [OF that(1) assms(3) _ that(2) assms(4)], of c] one [of c]
    by (fastforce simp: handles_def)
  moreover have "distinct (rp_conns (rps_pool s))"
  proof -
    have "count (mset (rp_conns (rps_pool s))) d \<le> 1" for d using one [of d] by (simp add: handles_def)
    then show ?thesis by (auto simp: distinct_count_atmost_1 le_Suc_eq)
  qed
  moreover have "d \<in> set (rp_conns (rps_pool s)) \<or> (\<exists>v<n. rps_pcs s v = RP_has d)"
    if "\<not> rp_stopped (rps_pool s)" "d \<in> set (rp_conns p)" for d
  proof -
    have "d \<in># handles n s" using that reach_pool [OF assms(1)] by simp
    then show ?thesis using some_holder [of d "rps_pcs s" n] by (auto simp: handles_def)
  qed
  ultimately show ?thesis by blast
qed

text \<open>A pool of one handle, with a thread that holds it and one that waits for it.\<close>

definition rp_example :: redis_pool where
  "rp_example = \<lparr>rp_host = ''h'', rp_port = 6379, rp_stopped = False, rp_password = [], rp_conns = [7]\<rparr>"

definition rp_example_busy :: rp_sys where
  "rp_example_busy = \<lparr>rps_pool = rp_example\<lparr>rp_conns := []\<rparr>, rps_pcs = (\<lambda>t. RP_out)(0 := RP_has 7, 1 := RP_wait False)\<rparr>"

lemma rp_example_reach: "(rp_step 2)\<^sup>*\<^sup>* (rp_start rp_example) rp_example_busy"
proof -
  let ?q = "rp_example\<lparr>rp_conns := []\<rparr>"
  let ?s = "\<lparr>rps_pool = ?q, rps_pcs = (\<lambda>t. RP_out)(0 := RP_has 7)\<rparr>"
  have "rp_step 2 (rp_start rp_example) ?s"
    using rp_step.acquire [of 0 2 "rp_start rp_example" 0 "RP_has 7" ?q]
    by (simp add: rp_start_def rp_example_def acquire_enter_def acquire_done_def acquire_front_def)
  moreover have "rp_step 2 ?s rp_example_busy"
    using rp_step.acquire [of 1 2 ?s 0 "RP_wait False" ?q]
    by (simp add: rp_example_busy_def rp_example_def acquire_enter_def)
  ultimately show ?thesis by (meson rtranclp.simps)
qed

theorem redis_pool_no_lost_wakeup_witness:
  "\<exists>s'. rp_step 2 rp_example_busy s' \<and> is_awake (rps_pcs s' 1)"
proof -
  have "is_waiting (rps_pcs rp_example_busy 1)" by (simp add: rp_example_busy_def)
  from redis_pool_no_lost_wakeup [OF rp_example_reach _ _ this] show ?thesis
    by (auto simp: rp_example_def rp_example_busy_def)
qed

theorem redis_pool_exclusive_witness:
  "7 \<notin> set (rp_conns (rps_pool rp_example_busy)) \<and> rps_pcs rp_example_busy 1 \<noteq> RP_has 7"
  using redis_pool_exclusive [OF rp_example_reach, of 0 7] by (simp add: rp_example_def rp_example_busy_def)

end
