(* ===== verification/Threads_Termination.thy ===== *)
theory Threads_Termination
  imports Threads_Properties "HOL-Library.Multiset"
begin

section \<open>The handlers finish\<close>

text \<open>
  A program is finite: however its actions answer, what is left of it after a step is a smaller
  program. So the threads, left alone, stop after finitely many steps whatever the schedule, and the
  locks do not keep them from their ends. The only action that may not return is the storing of an
  offline message.
\<close>

subsection \<open>What is left of a program\<close>

inductive rest :: "'w prog \<Rightarrow> 'w prog \<Rightarrow> bool" where
  act: "f w = Some (w', p) \<Longrightarrow> rest p (Act f)"
| lock: "rest p (Lock l m p)"
| unlock: "rest p (Unlock l p)"

inductive_cases restE: "rest q p"

lemma accp_rest: "Wellfounded.accp rest p"
proof (induction p)
  case (Act f)
  show ?case
  proof (rule accpI)
    fix q
    assume "rest q (Act f)"
    then obtain w w' where "f w = Some (w', q)" by (auto elim: restE)
    moreover from this have "Some (w', q) \<in> range f" by (metis rangeI)
    ultimately show "Wellfounded.accp rest q" using Act by fastforce
  qed
qed (auto intro: accpI elim: restE)

lemma wf_rest: "wf {(q, p). rest q p}"
proof -
  have "wfp rest" using accp_rest by (intro accp_wfpI) blast
  then show ?thesis unfolding wfp_def .
qed

subsection \<open>The threads left alone\<close>

definition own_step :: "'w threads \<Rightarrow> 'w threads \<Rightarrow> bool" where
  "own_step s s' \<longleftrightarrow> (\<exists>t. thread_step t s s')"

definition busy :: "'w threads \<Rightarrow> tid set" where
  "busy s = {t. code s t \<noteq> None}"

definition jobs :: "'w threads \<Rightarrow> 'w prog multiset" where
  "jobs s = image_mset (\<lambda>t. the (code s t)) (mset_set (busy s))"

lemma jobs_upd:
  assumes "finite (busy s)" and "code s t = Some p"
  obtains M where "jobs s = add_mset p M"
    and "\<And>s' q. code s' = (code s)(t := Some q) \<Longrightarrow> jobs s' = add_mset q M \<and> busy s' = busy s"
    and "\<And>s'. code s' = (code s)(t := None) \<Longrightarrow> jobs s' = M \<and> busy s' = busy s - {t}"
proof
  let ?M = "image_mset (\<lambda>u. the (code s u)) (mset_set (busy s - {t}))"
  have t: "t \<in> busy s" using assms(2) by (simp add: busy_def)
  have other: "image_mset (\<lambda>u. the (((code s)(t := x)) u)) (mset_set (busy s - {t})) = ?M" for x
    by (rule image_mset_cong) (use assms(1) in auto)
  have split: "mset_set (busy s) = add_mset t (mset_set (busy s - {t}))"
    using mset_set.remove [OF assms(1) t] .
  then show "jobs s = add_mset p ?M" using assms(2) by (simp add: jobs_def)
  show "jobs s' = add_mset q ?M \<and> busy s' = busy s" if "code s' = (code s)(t := Some q)" for s' q
  proof -
    have b: "busy s' = busy s" using that t by (auto simp: busy_def)
    with split that other [of "Some q"] show ?thesis by (simp add: jobs_def)
  qed
  show "jobs s' = ?M \<and> busy s' = busy s - {t}" if "code s' = (code s)(t := None)" for s'
  proof -
    have b: "busy s' = busy s - {t}" using that by (auto simp: busy_def)
    with that other [of None] show ?thesis by (simp add: jobs_def)
  qed
qed

lemma own_step_jobs:
  assumes "own_step s s'" and "finite (busy s)"
  shows "(jobs s', jobs s) \<in> mult1 {(q, p). rest q p}" and "finite (busy s')"
proof -
  from assms(1) obtain t where "thread_step t s s'" by (auto simp: own_step_def)
  then obtain p where p: "code s t = Some p" and
    n: "code s' = (code s)(t := None) \<or> (\<exists>q. rest q p \<and> code s' = (code s)(t := Some q))"
    by cases (auto intro: rest.intros)
  obtain M where M: "jobs s = add_mset p M"
    "\<And>q. code s' = (code s)(t := Some q) \<Longrightarrow> jobs s' = add_mset q M \<and> busy s' = busy s"
    "code s' = (code s)(t := None) \<Longrightarrow> jobs s' = M \<and> busy s' = busy s - {t}"
    by (rule jobs_upd [OF assms(2) p]) blast
  show "(jobs s', jobs s) \<in> mult1 {(q, p). rest q p}"
    using n
  proof (elim disjE exE conjE)
    assume "code s' = (code s)(t := None)"
    with M(1,3) show ?thesis by (intro mult1I [of _ p M _ "{#}"]) auto
  next
    fix q
    assume "rest q p" "code s' = (code s)(t := Some q)"
    with M(1,2) show ?thesis by (intro mult1I [of _ p M _ "{#q#}"]) auto
  qed
  from n M assms(2) show "finite (busy s')" by auto
qed

lemma finite_busy_reach: "(service_step E loop_of)\<^sup>*\<^sup>* (all_idle w) s \<Longrightarrow> finite (busy s)"
proof (induction rule: rtranclp_induct)
  case base
  then show ?case by (simp add: busy_def all_idle_def)
next
  case (step s s')
  have start: "finite (busy (s\<lparr>code := (code s)(t := Some p)\<rparr>))" for t p
    by (rule finite_subset [of _ "insert t (busy s)"]) (use step.IH in \<open>auto simp: busy_def\<close>)
  from step(2) show ?case
  proof cases
    case (running t)
    then show ?thesis using own_step_jobs(2) [of s s'] step.IH by (auto simp: own_step_def)
  qed (simp_all add: start)
qed

lemma runs_finite:
  assumes "finite (busy s)"
  shows "\<nexists>\<sigma>. \<sigma> 0 = s \<and> (\<forall>n. own_step (\<sigma> n) (\<sigma> (Suc n)))"
proof
  assume "\<exists>\<sigma>. \<sigma> 0 = s \<and> (\<forall>n. own_step (\<sigma> n) (\<sigma> (Suc n)))"
  then obtain \<sigma> where s: "\<sigma> 0 = s" "\<And>n. own_step (\<sigma> n) (\<sigma> (Suc n))" by blast
  have "finite (busy (\<sigma> n))" for n
    by (induction n) (use assms s own_step_jobs(2) in auto)
  then have "\<forall>n. (jobs (\<sigma> (Suc n)), jobs (\<sigma> n)) \<in> mult1 {(q, p). rest q p}"
    using own_step_jobs(1) [OF s(2)] by blast
  from exI [where P = "\<lambda>f. \<forall>n. (f (Suc n), f n) \<in> mult1 {(q, p). rest q p}", OF this]
  show False using wf_mult1 [OF wf_rest] unfolding wf_iff_no_infinite_down_chain by (rule notE [rotated])
qed

subsection \<open>Where a program may stay\<close>

text \<open>\<open>Q\<close> holds of every action of the program and every state in which it does not return.\<close>

primrec blocks_only :: "('w prog \<Rightarrow> 'w \<Rightarrow> bool) \<Rightarrow> 'w prog \<Rightarrow> bool" where
  "blocks_only Q (Fin r) = True"
| "blocks_only Q (Act f) =
     (\<forall>w. case map_option (map_prod id (blocks_only Q)) (f w) of None \<Rightarrow> Q (Act f) w | Some (w', b) \<Rightarrow> b)"
| "blocks_only Q (Lock l m p) = blocks_only Q p"
| "blocks_only Q (Unlock l p) = blocks_only Q p"

named_theorems blocks_intros \<open>programs whose actions return but for storing\<close>

lemma blocks_Act:
  "(\<And>w. f w = None \<Longrightarrow> Q (Act f) w) \<Longrightarrow> (\<And>w w' p. f w = Some (w', p) \<Longrightarrow> blocks_only Q p) \<Longrightarrow> blocks_only Q (Act f)"
  by (auto split: option.splits)

lemma blocks_ActD:
  assumes "blocks_only Q (Act f)"
  shows "f w = None \<Longrightarrow> Q (Act f) w" and "f w = Some (w', p) \<Longrightarrow> blocks_only Q p"
proof -
  have b: "case map_option (map_prod id (blocks_only Q)) (f w) of None \<Rightarrow> Q (Act f) w | Some (w', b) \<Rightarrow> b" using assms by simp
  show "f w = None \<Longrightarrow> Q (Act f) w" and "f w = Some (w', p) \<Longrightarrow> blocks_only Q p" using b by simp_all
qed

lemma blocks_Fin [blocks_intros]: "blocks_only Q (Fin r)"
  by simp

lemma blocks_Lock [blocks_intros]: "blocks_only Q p \<Longrightarrow> blocks_only Q (Lock l m p)"
  by simp

lemma blocks_Unlock [blocks_intros]: "blocks_only Q p \<Longrightarrow> blocks_only Q (Unlock l p)"
  by simp

lemma blocks_Step [blocks_intros]: "blocks_only Q p \<Longrightarrow> blocks_only Q (Step f p)"
  unfolding Step_def by (rule blocks_Act) auto

lemma blocks_Mysql [blocks_intros]: "(\<And>v. blocks_only Q (k v)) \<Longrightarrow> blocks_only Q (Mysql f k)"
  unfolding Mysql_def by (rule blocks_Act) (auto split: prod.splits)

lemma blocks_Redis [blocks_intros]: "(\<And>v. blocks_only Q (k v)) \<Longrightarrow> blocks_only Q (Redis f k)"
  unfolding Redis_def by (rule blocks_Act) (auto split: prod.splits)

text \<open>The program is about to store a message, and its call of \<open>OfflineMessage::insert\<close> does not return.\<close>

definition store_loops :: "('db, 'rd) chat_env \<Rightarrow> ('db, 'rd) service_prog \<Rightarrow> ('db, 'rd) chat_state \<Rightarrow> bool" where
  "store_loops E p w \<longleftrightarrow> (\<exists>u text q. p = Store E u text q \<and> OfflineMessage_insert (c_sql E) u text (off w) = None)"

lemma blocks_Store [blocks_intros]: "blocks_only (store_loops E) p \<Longrightarrow> blocks_only (store_loops E) (Store E u text p)"
proof -
  assume p: "blocks_only (store_loops E) p"
  show ?thesis
    unfolding Store_def
  proof (rule blocks_Act)
    fix w :: "('a, 'b) chat_state"
    assume "(case OfflineMessage_insert (c_sql E) u text (off w) of None \<Rightarrow> None | Some (stored_ok, o') \<Rightarrow> Some (w\<lparr>off := o'\<rparr>, p)) = None"
    then have "OfflineMessage_insert (c_sql E) u text (off w) = None" by (auto split: option.splits)
    then show "store_loops E (Act (\<lambda>w. case OfflineMessage_insert (c_sql E) u text (off w) of None \<Rightarrow> None
        | Some (stored_ok, o') \<Rightarrow> Some (w\<lparr>off := o'\<rparr>, p))) w"
      unfolding store_loops_def Store_def by blast
  qed (use p in \<open>auto split: option.splits\<close>)
qed

lemma blocks_friend_texts: "(\<And>v. blocks_only Q (k v)) \<Longrightarrow> blocks_only Q (friend_texts_prog E us k)"
  by (induction us arbitrary: k) (auto intro!: blocks_intros simp del: blocks_only.simps)

lemma blocks_member_texts: "(\<And>v. blocks_only Q (k v)) \<Longrightarrow> blocks_only Q (member_texts_prog E us k)"
  by (induction us arbitrary: k) (auto intro!: blocks_intros simp del: blocks_only.simps)

lemma blocks_group_texts: "(\<And>v. blocks_only Q (k v)) \<Longrightarrow> blocks_only Q (group_texts_prog E i gs k)"
  by (induction gs arbitrary: k) (auto intro!: blocks_intros blocks_member_texts simp del: blocks_only.simps)

lemma blocks_login: "blocks_only Q (login_prog E conn js)"
  unfolding login_prog_def login_success_prog_def login_friends_prog_def login_groups_prog_def
  by (auto split: sum.splits intro!: blocks_intros blocks_friend_texts blocks_group_texts simp del: blocks_only.simps)

lemma blocks_leave_entries: "blocks_only Q p \<Longrightarrow> blocks_only Q (leave_entries i k n p)"
proof (induction n arbitrary: k)
  case (Suc n)
  then have "blocks_only Q (leave_entries i (Suc k) n p)" by simp
  then show ?case
    unfolding leave_entries.simps Let_def
    by (intro blocks_Act) (auto intro: blocks_intros split: prod.splits if_splits simp del: blocks_only.simps)
qed simp

lemma blocks_leave: "blocks_only Q (leave_prog i)"
  unfolding leave_prog_def
  by (intro blocks_Lock blocks_Act) (auto intro!: blocks_leave_entries blocks_intros simp del: blocks_only.simps)

lemma blocks_clientQuit: "blocks_only Q (clientQuit_prog E conn)"
  unfolding clientQuit_prog_def
  by (intro blocks_Lock blocks_Act)
    (auto intro!: blocks_intros blocks_leave split: option.splits if_splits simp del: blocks_only.simps)

lemma blocks_deliver: "blocks_only (store_loops E) (deliver_prog E conn t js)"
  unfolding deliver_prog_def store_prog_def
  by (intro blocks_Lock blocks_Act) (auto intro!: blocks_intros split: option.splits simp del: blocks_only.simps)

lemma blocks_enter_group: "blocks_only Q (enter_group_prog E u g)"
  unfolding enter_group_prog_def by (intro blocks_intros)

lemma blocks_load_members: "blocks_only Q p \<Longrightarrow> blocks_only Q (load_members_prog E u g p)"
  unfolding load_members_prog_def
  by (intro blocks_Lock blocks_Act) (auto intro!: blocks_intros split: if_splits simp del: blocks_only.simps)

lemma blocks_handler: "blocks_only (store_loops E) (handler_prog E h conn js)"
  by (cases h)
    (auto simp: reg_prog_def loginOut_prog_def oneChat_prog_def addFriend_prog_def createGroup_prog_def joinGroup_prog_def
      groupChat_prog_def Let_def split: sum.splits simp del: blocks_only.simps
      intro!: blocks_intros blocks_login blocks_leave blocks_deliver blocks_enter_group blocks_load_members)

lemma blocks_message: "blocks_only (store_loops E) (message_prog E conn buf)"
  unfolding message_prog_def
  by (auto split: option.splits sum.splits intro!: blocks_intros blocks_handler simp del: blocks_only.simps)

lemma blocks_send_members: "blocks_only Q p \<Longrightarrow> blocks_only Q (send_members_prog text us p)"
  by (induction us) (auto intro!: blocks_intros simp del: blocks_only.simps)

lemma blocks_swap_tasks: "blocks_only Q (swap_tasks_prog E)"
proof -
  have "blocks_only Q (sub_tasks_prog E ts)" for ts
    by (induction E ts rule: sub_tasks_prog.induct) (auto intro!: blocks_intros simp del: blocks_only.simps)
  then show ?thesis unfolding swap_tasks_prog_def by (intro blocks_Act) auto
qed

lemma blocks_inbox: "blocks_only (store_loops E) p \<Longrightarrow> blocks_only (store_loops E) (inbox_prog E j p)"
  unfolding inbox_prog_def
  by (auto split: option.splits sum.splits simp del: blocks_only.simps
      intro!: blocks_intros blocks_Act blocks_send_members)

lemma blocks_subscriber: "blocks_only (store_loops E) (subscriber_prog E consumed)"
  unfolding subscriber_prog_def
  by (intro blocks_Act)
    (auto split: option.splits if_splits intro!: blocks_intros blocks_swap_tasks blocks_inbox simp del: blocks_only.simps)

lemma blocks_connection: "blocks_only Q (connection_prog E conn connected)"
  unfolding connection_prog_def by (auto intro!: blocks_intros blocks_clientQuit simp del: blocks_only.simps)

lemma blocks_step:
  assumes "service_step E loop_of s s'" and "\<And>t p. code s t = Some p \<Longrightarrow> blocks_only (store_loops E) p"
  shows "code s' t = Some p \<Longrightarrow> blocks_only (store_loops E) p"
proof -
  assume c: "code s' t = Some p"
  from assms(1) show ?thesis
  proof cases
    case (running u)
    from running show ?thesis
    proof cases
      case (act f w' q)
      have "blocks_only (store_loops E) q" by (rule blocks_ActD(2) [OF assms(2) [OF act(2)] act(3)])
      with act c assms(2) show ?thesis by (auto split: if_splits)
    next
      case (lock l m q)
      have "blocks_only (store_loops E) q" using assms(2) [OF lock(2)] by simp
      with lock c assms(2) show ?thesis by (auto split: if_splits)
    next
      case (unlock l q)
      have "blocks_only (store_loops E) q" using assms(2) [OF unlock(2)] by simp
      with unlock c assms(2) show ?thesis by (auto split: if_splits)
    next
      case (finish r)
      with c assms(2) show ?thesis by (auto split: if_splits)
    qed
  qed (use c assms(2) blocks_message blocks_connection blocks_subscriber in \<open>auto split: if_splits simp del: blocks_only.simps\<close>)
qed

lemma blocks_reach:
  "(service_step E loop_of)\<^sup>*\<^sup>* (all_idle w) s \<Longrightarrow> code s t = Some p \<Longrightarrow> blocks_only (store_loops E) p"
proof (induction arbitrary: t p rule: rtranclp_induct)
  case base
  then show ?case by (simp add: all_idle_def)
next
  case (step s s')
  from step(3) blocks_step [OF step(2)] step(4) show ?case by blast
qed

subsection \<open>Every handler finishes\<close>

lemma blocks_own_step:
  "own_step s s' \<Longrightarrow> (\<And>t p. code s t = Some p \<Longrightarrow> blocks_only (store_loops E) p) \<Longrightarrow>
   code s' t = Some p \<Longrightarrow> blocks_only (store_loops E) p"
  using blocks_step [of E id s s' t p] by (auto simp: own_step_def dest: service_step.running)

lemma own_steps_service: "own_step\<^sup>*\<^sup>* s s' \<Longrightarrow> (service_step E loop_of)\<^sup>*\<^sup>* s s'"
  by (induction rule: rtranclp_induct) (auto simp: own_step_def dest: service_step.running intro: rtranclp.rtrancl_into_rtrancl)

text \<open>
  C27. Left alone, the threads finish what they have begun. From every state of the running node, when
  nothing new arrives, every schedule of the threads ends after finitely many steps, fair or not; and
  where it ends all threads wait for the next event and hold no lock, or some thread is storing an
  offline message and its call of \<open>OfflineMessage::insert\<close> does not return.
\<close>

theorem service_quiesces:
  assumes "(service_step E loop_of)\<^sup>*\<^sup>* (all_idle w) s"
  shows "(\<nexists>\<sigma>. \<sigma> 0 = s \<and> (\<forall>n. own_step (\<sigma> n) (\<sigma> (Suc n)))) \<and>
    (\<forall>s'. own_step\<^sup>*\<^sup>* s s' \<longrightarrow> (\<nexists>s''. own_step s' s'') \<longrightarrow>
      (\<forall>t. code s' t = None \<and> held s' t = []) \<or> (\<exists>t p. code s' t = Some p \<and> store_loops E p (mem s')))"
proof (intro conjI allI impI)
  show "\<nexists>\<sigma>. \<sigma> 0 = s \<and> (\<forall>n. own_step (\<sigma> n) (\<sigma> (Suc n)))"
    using finite_busy_reach [OF assms] by (rule runs_finite)
next
  fix s'
  assume "own_step\<^sup>*\<^sup>* s s'" and stuck: "\<nexists>s''. own_step s' s''"
  with assms have r: "(service_step E loop_of)\<^sup>*\<^sup>* (all_idle w) s'" using own_steps_service rtranclp_trans by metis
  note ok = service_reach_locks_ok [OF r]
  show "(\<forall>t. code s' t = None \<and> held s' t = []) \<or> (\<exists>t p. code s' t = Some p \<and> store_loops E p (mem s'))"
  proof (cases "\<forall>t. code s' t = None")
    case True
    with locks_okD(1) [OF ok] show ?thesis by blast
  next
    case False
    then obtain t p where "code s' t = Some p" by auto
    from some_thread_goes_on [OF ok this] obtain u where "can_go_on s' u" by blast
    with stuck obtain f where "code s' u = Some (Act f)" "f (mem s') = None" by (auto simp: can_go_on_def own_step_def)
    with blocks_ActD(1) [OF blocks_reach [OF r]] show ?thesis by blast
  qed
qed

theorem service_quiesces_witness:
  "\<exists>s :: (tables, keyspace) chat_state threads. code s (Loop 7) \<noteq> None \<and> (\<nexists>\<sigma>. \<sigma> 0 = s \<and> (\<forall>n. own_step (\<sigma> n) (\<sigma> (Suc n))))"
proof -
  let ?s = "(all_idle (ex_state [Some 0]))\<lparr>code := (\<lambda>t. None)(Loop 7 := Some (message_prog ex_env 7 ''login''))\<rparr>"
  have "(service_step ex_env id)\<^sup>*\<^sup>* (all_idle (ex_state [Some 0])) ?s" using ex_login_running by (rule r_into_rtranclp)
  note quiet = conjunct1 [OF service_quiesces [OF this]]
  have "code ?s (Loop 7) \<noteq> None" by simp
  from conjI [OF this quiet] show ?thesis by (rule exI [where x = ?s])
qed

subsection \<open>Storing under the lock\<close>








end
