(* ===== verification/Cluster.thy ===== *)
theory Cluster
  imports Login_Properties
begin

section \<open>Several nodes over one MySQL and one Redis\<close>

text \<open>
  Server processes that share the database and the Redis server, each with its own connections,
  maps, pools and subscriber. A step is an event of one node, run on the shared parts as they are.
  The nodes see the same keys of Redis, and each its own subscriptions.
\<close>

record ('db, 'rd) cluster =
  cl_db :: 'db
  cl_rd :: 'rd
  cl_node :: "nat \<Rightarrow> ('db, 'rd) chat_state"

definition attach :: "('db, 'rd) cluster \<Rightarrow> nat \<Rightarrow> ('db, 'rd) chat_state" where
  "attach c k = (let w = cl_node c k in
     w\<lparr>off := (off w)\<lparr>ms := (ms (off w))\<lparr>db := cl_db c\<rparr>\<rparr>, rc := (rc w)\<lparr>rd := cl_rd c\<rparr>\<rparr>)"

definition detach :: "('db, 'rd) cluster \<Rightarrow> nat \<Rightarrow> ('db, 'rd) chat_state \<Rightarrow> ('db, 'rd) cluster" where
  "detach c k w = \<lparr>cl_db = db (ms (off w)), cl_rd = rd (rc w), cl_node = (cl_node c)(k := w)\<rparr>"

lemma attach_fields [simp]:
  "db (ms (off (attach c k))) = cl_db c" "rd (rc (attach c k)) = cl_rd c"
  "pool (ms (off (attach c k))) = pool (ms (off (cl_node c k)))" "rpool (rc (attach c k)) = rpool (rc (cl_node c k))"
  "userConnMap (attach c k) = userConnMap (cl_node c k)" "groupMembers (attach c k) = groupMembers (cl_node c k)"
  "sent (attach c k) = sent (cl_node c k)"
  by (simp_all add: attach_def Let_def)

lemma attach_rready [simp]: "rready (rc (attach c k)) = rready (rc (cl_node c k))"
  by (simp add: rready_def)

lemma attach_detach: "attach (detach c k w) k = w"
  by (simp add: attach_def detach_def)

lemma detach_fields [simp]:
  "cl_db (detach c k w) = db (ms (off w))" "cl_rd (detach c k w) = rd (rc w)"
  "cl_node (detach c k w) j = (if j = k then w else cl_node c j)"
  by (simp_all add: detach_def)

inductive cluster_step ::
  "(nat \<Rightarrow> ('db, 'rd) chat_env) \<Rightarrow> ('db, 'rd) cluster \<Rightarrow> nat \<Rightarrow> node_event \<Rightarrow> ('db, 'rd) cluster \<Rightarrow> bool"
  for E :: "nat \<Rightarrow> ('db, 'rd) chat_env" where
  event: "handle_event (E k) ev (attach c k) = Some w \<Longrightarrow> cluster_step E c k ev (detach c k w)"

inductive_cases cluster_stepE: "cluster_step E c k ev c'"

definition any_step :: "(nat \<Rightarrow> ('db, 'rd) chat_env) \<Rightarrow> ('db, 'rd) cluster \<Rightarrow> ('db, 'rd) cluster \<Rightarrow> bool" where
  "any_step E c c' \<longleftrightarrow> (\<exists>k ev. cluster_step E c k ev c')"

text \<open>Steps that do not withdraw the presence of a given user.\<close>

definition keeping_step :: "(nat \<Rightarrow> ('db, 'rd) chat_env) \<Rightarrow> int \<Rightarrow> ('db, 'rd) cluster \<Rightarrow> ('db, 'rd) cluster \<Rightarrow> bool" where
  "keeping_step E i c c' \<longleftrightarrow> (\<exists>k ev. cluster_step E c k ev c' \<and> \<not> withdraws (E k) ev (attach c k) i)"

text \<open>What the nodes rely on of the Redis server they share.\<close>

definition shared_redis :: "(nat \<Rightarrow> ('db, 'rd) chat_env) \<Rightarrow> (nat \<Rightarrow> 'rd \<Rightarrow> keyspace) \<Rightarrow> bool" where
  "shared_redis E rv \<longleftrightarrow>
     (\<forall>k. redis_reliable (r_exec (c_redis (E k))) (rv k)) \<and> (\<forall>j k d. keys (rv j d) = keys (rv k d))"

lemma shared_redisD:
  assumes "shared_redis E rv"
  shows "redis_reliable (r_exec (c_redis (E k))) (rv k)" and "keys (rv j d) = keys (rv k d)"
  using assms unfolding shared_redis_def by blast+

lemma shared_hash: "shared_redis E rv \<Longrightarrow> user_hash (rv j d) i = user_hash (rv k d) i"
  unfolding user_hash_def by (rule at_keys_cong) (simp add: shared_redisD(2) [of E rv j d k])

lemma shared_online: "shared_redis E rv \<Longrightarrow> user_online (rv j d) i = user_online (rv k d) i"
  unfolding user_online_def using shared_hash [of E rv j d i k] by simp

subsection \<open>Presence through the steps of a node\<close>

text \<open>
  Every presence record is a hash, the pool has a handle, and the users of \<open>is\<close> are online.
\<close>

definition presence_ok :: "('rd \<Rightarrow> keyspace) \<Rightarrow> int set \<Rightarrow> 'rd redis_state \<Rightarrow> bool" where
  "presence_ok v is s \<longleftrightarrow> rready s \<and> (\<forall>j. user_hash (v (rd s)) j \<noteq> None) \<and> (\<forall>j\<in>is. user_online (v (rd s)) j)"

lemma presence_ok_cong:
  assumes "presence_ok v is s" and "rready s'" and "\<And>j. keys (v (rd s')) (user_key j) = keys (v (rd s)) (user_key j)"
  shows "presence_ok v is s'"
proof -
  have "user_hash (v (rd s')) j = user_hash (v (rd s)) j" for j
    unfolding user_hash_def by (rule at_keys_cong) (rule assms(3))
  with assms(1,2) show ?thesis by (simp add: presence_ok_def user_online_def)
qed

context redis_reliable
begin

lemma run_sub_tasks_keys:
  assumes "r_exec R = exec"
  shows "keys (view (rd (run_sub_tasks R ts s))) k = keys (view (rd s)) k"
  using assms
proof (induction R ts s rule: run_sub_tasks.induct)
  case (2 R g ts s)
  obtain r d where e: "exec (SUBSCRIBE (group_channel g)) (rd s) = (r, d)" by fastforce
  then have "keys (view d) k = keys (view (rd s)) k" using exec_frame [of "SUBSCRIBE (group_channel g)" k "rd s"] by simp
  with 2 e show ?case by (cases r) simp_all
next
  case (3 R g ts s)
  obtain r d where e: "exec (UNSUBSCRIBE (group_channel g)) (rd s) = (r, d)" by fastforce
  then have "keys (view d) k = keys (view (rd s)) k" using exec_frame [of "UNSUBSCRIBE (group_channel g)" k "rd s"] by simp
  with 3 e show ?case by (cases r) simp_all
qed simp_all

lemma run_sub_tasks_rpool: "rpool (run_sub_tasks R ts s) = rpool s \<and> rp_stopped (rpool (run_sub_tasks R ts s)) = rp_stopped (rpool s)"
  by (induction R ts s rule: run_sub_tasks.induct) (auto split: prod.splits sum.splits)

lemma presence_set_online:
  assumes "r_exec R = exec" and "presence_ok view is s"
  shows "presence_ok view (insert i is) (snd (setUserOnline R i c s))"
proof -
  let ?s = "snd (setUserOnline R i c s)"
  have o: "user_hash (view (rd ?s)) j = user_hash (view (rd s)) j" if "j \<noteq> i" for j
    unfolding user_hash_def by (rule at_keys_cong) (rule write_ops_keep [OF assms(1)], use that in \<open>simp add: key_inject\<close>)
  from assms(2) obtain h where "rready s" "user_hash (view (rd s)) i = Some h" by (auto simp: presence_ok_def)
  with setUserOnline_ok [OF assms(1)] obtain h' where
    "user_hash (view (rd ?s)) i = Some h'" "map_of h' ''online'' = Some ''1''" by metis
  moreover have "rready ?s" using \<open>rready s\<close> by (rule redis_op_rready)
  moreover have "user_hash (view (rd ?s)) j \<noteq> None" for j
    using o [of j] calculation assms(2) by (cases "j = i") (auto simp: presence_ok_def)
  moreover have "user_online (view (rd ?s)) j" if "j \<in> insert i is" for j
    using o [of j] calculation assms(2) that by (cases "j = i") (auto simp: presence_ok_def user_online_def)
  ultimately show ?thesis by (simp add: presence_ok_def)
qed

lemma presence_set_offline:
  assumes "r_exec R = exec" and "presence_ok view is s"
  shows "presence_ok view (is - {i}) (snd (setUserOffline R i s))"
proof -
  let ?s = "snd (setUserOffline R i s)"
  have o: "user_hash (view (rd ?s)) j = user_hash (view (rd s)) j" if "j \<noteq> i" for j
    unfolding user_hash_def by (rule at_keys_cong) (rule write_ops_keep [OF assms(1)], use that in \<open>simp add: key_inject\<close>)
  from assms(2) obtain h where h: "rready s" "user_hash (view (rd s)) i = Some h" by (auto simp: presence_ok_def)
  with setUserOffline_ok [OF assms(1)] obtain h' where "user_hash (view (rd ?s)) i = Some h'" by metis
  moreover have "rready ?s" using \<open>rready s\<close> by (simp add: client_ops redis_call_rready)
  moreover have "user_hash (view (rd ?s)) j \<noteq> None" for j
    using o [of j] calculation assms(2) by (cases "j = i") (auto simp: presence_ok_def)
  moreover have "user_online (view (rd ?s)) j" if "j \<in> is - {i}" for j
    using setUserOffline_online [OF assms(1) h] assms(2) that by (auto simp: presence_ok_def)
  ultimately show ?thesis by (simp add: presence_ok_def)
qed

lemma frame_op_rready: "frame_op R f \<Longrightarrow> rready s \<Longrightarrow> rready (f s)"
  by (elim frame_op.cases)
    (simp_all add: client_ops redis_call_rready,
     simp_all add: rready_def process_sub_tasks_def run_sub_tasks_rpool)

lemma frame_op_keys:
  assumes "frame_op R f" and "r_exec R = exec" and "\<And>i c. f \<noteq> (\<lambda>s. snd (setUserOnline R i c s))"
  shows "keys (view (rd (f s))) (user_key j) = keys (view (rd s)) (user_key j)"
  using assms(1)
proof cases
  case work
  then show ?thesis by (simp add: process_sub_tasks_def run_sub_tasks_keys [OF assms(2)])
qed (use assms(3) in \<open>simp_all add: read_ops_view [OF assms(2)] write_ops_keep [OF assms(2)]
      popOfflineMessages_keeps [OF assms(2)] key_simps\<close>)

lemma frame_op_presence:
  assumes "frame_op R f" and "r_exec R = exec" and p: "presence_ok view is s"
  shows "presence_ok view is (f s)"
proof (cases "\<exists>i c. f = (\<lambda>s. snd (setUserOnline R i c s))")
  case True
  with presence_set_online [OF assms(2,3)] show ?thesis by (auto simp: presence_ok_def)
next
  case False
  have "rready (f s)" using frame_op_rready [OF assms(1)] p by (simp add: presence_ok_def)
  with p show ?thesis
    by (rule presence_ok_cong) (rule frame_op_keys [OF assms(1,2)], use False in blast)
qed

text \<open>Only withdrawing the presence of a user of \<open>is\<close> may break it.\<close>

lemma presence_frame:
  assumes "r_exec (c_redis E) = exec"
  shows "node_frame E (\<lambda>st. True) (presence_ok view is) (\<lambda>um. True) (\<lambda>gm. True) (\<lambda>j. j \<notin> is)"
proof unfold_locales
  fix g s
  assume "frame_op (c_redis E) g" "presence_ok view is s"
  then show "presence_ok view is (g s)" by (rule frame_op_presence [OF _ assms])
next
  fix i s
  assume "i \<notin> is" "presence_ok view is s"
  with presence_set_offline [OF assms, of "is" s i] show "presence_ok view is (snd (setUserOffline (c_redis E) i s))" by simp
qed simp_all

lemma presence_event:
  assumes "r_exec (c_redis E) = exec" and "presence_ok view is (rc w)" and "handle_event E ev w = Some w'"
    and "\<And>i. i \<in> is \<Longrightarrow> \<not> withdraws E ev w i"
  shows "presence_ok view is (rc w')"
proof -
  note f = presence_frame [OF assms(1), of "is"]
  have "node_frame.node_inv (\<lambda>st. True) (presence_ok view is) (\<lambda>um. True) (\<lambda>gm. True) w'"
    by (rule node_frame.inv_event [OF f _ _ assms(3)])
      (use assms(2,4) in \<open>auto simp: node_frame.node_inv_def [OF f]\<close>)
  then show ?thesis by (simp add: node_frame.node_inv_def [OF f])
qed

end

subsection \<open>Presence through the steps of the cluster\<close>

definition cluster_presence :: "(nat \<Rightarrow> 'rd \<Rightarrow> keyspace) \<Rightarrow> int set \<Rightarrow> ('db, 'rd) cluster \<Rightarrow> bool" where
  "cluster_presence rv is c \<longleftrightarrow> (\<forall>k. presence_ok (rv k) is (rc (attach c k)))"

text \<open>What one node does to the shared keys is good for all.\<close>

lemma cluster_presence_detach:
  assumes "shared_redis E rv" and "cluster_presence rv js c" and "presence_ok (rv k) is (rc w)"
  shows "cluster_presence rv is (detach c k w)"
proof -
  have "presence_ok (rv j) is (rc (attach (detach c k w) j))" for j
    using assms(2,3) shared_hash [OF assms(1), of j "rd (rc w)" _ k] shared_online [OF assms(1), of j "rd (rc w)" _ k]
    by (cases "j = k") (auto simp: presence_ok_def cluster_presence_def)
  then show ?thesis by (simp add: cluster_presence_def)
qed

lemma cluster_presence_step:
  assumes "shared_redis E rv" and "keeping_step E i c c'" and "cluster_presence rv {i} c"
  shows "cluster_presence rv {i} c'"
proof -
  from assms(2) obtain k ev w where h: "handle_event (E k) ev (attach c k) = Some w" and c': "c' = detach c k w"
    and n: "\<not> withdraws (E k) ev (attach c k) i"
    by (auto simp: keeping_step_def elim: cluster_stepE)
  have "presence_ok (rv k) {i} (rc (attach c k))" using assms(3) by (simp add: cluster_presence_def)
  then have "presence_ok (rv k) {i} (rc w)"
    by (rule redis_reliable.presence_event [OF shared_redisD(1) [OF assms(1)] refl _ h]) (use n in simp)
  with assms(1,3) show ?thesis unfolding c' by (rule cluster_presence_detach)
qed

lemma cluster_presence_run:
  "(keeping_step E i)\<^sup>*\<^sup>* c c' \<Longrightarrow> shared_redis E rv \<Longrightarrow> cluster_presence rv {i} c \<Longrightarrow> cluster_presence rv {i} c'"
  by (induction rule: rtranclp_induct) (auto dest: cluster_presence_step)

text \<open>An accepted login.\<close>

lemma cluster_presence_login:
  assumes "shared_redis E rv" and "cluster_presence rv {} c"
  shows "cluster_presence rv {i} (detach c a (login_success (E a) conn i u (attach c a)))"
proof -
  let ?w = "attach c a" and ?w' = "login_success (E a) conn i u (attach c a)"
  note R = shared_redisD(1) [OF assms(1), of a]
  have p: "presence_ok (rv a) {} (rc ?w)" using assms(2) by (simp add: cluster_presence_def)
  note f = redis_reliable.presence_frame [OF R refl, of "{}"]
  have "presence_ok (rv a) {} (rc ?w')"
    using node_frame.inv_login_success [OF f, of ?w conn i u] p by (simp add: node_frame.node_inv_def [OF f])
  moreover obtain h where "rready (rc ?w)" "user_hash (rv a (rd (rc ?w))) i = Some h"
    using p unfolding presence_ok_def by blast
  then have "user_online (rv a (rd (rc ?w'))) i"
    using redis_reliable.login_success_presence [OF R refl, of ?w i h conn u] by (auto simp: user_online_def)
  ultimately have "presence_ok (rv a) {i} (rc ?w')" by (simp add: presence_ok_def)
  with assms show ?thesis by (rule cluster_presence_detach)
qed

text \<open>
  C28. One login per user in the whole cluster, as long as nothing withdraws it: after \<open>login\<close> has
  accepted a user on one node (its branch \<open>login_success\<close>), and whatever events the nodes then handle, in any order, none of them a
  log-out that names the user or the loss of a connection the user is found under, a login as this
  user on any node and any connection is refused, with errno 2 for the right password and errno 1 for
  a wrong one, and changes no map. Handlers are atomic here and no time passes, which
  \<open>double_login_race\<close> and \<open>presence_lapses\<close> show to matter.
\<close>

theorem cluster_single_login:
  assumes "shared_redis E rv" and "\<And>k. rready (rc (cl_node c k))" and "\<And>j. user_hash (rv a (cl_rd c)) j \<noteq> None"
    and "(keeping_step E i)\<^sup>*\<^sup>* (detach c a (login_success (E a) conn i u (attach c a))) c'"
    and "fst (UserModel_query (c_sql (E b)) i (ms (off (attach c' b)))) = User i n p st"
    and "json_get ''id'' js = Some v" and "get_int v = Inr i" and "json_get ''password'' js = Some (JStr pwd)"
  shows "\<exists>w. login (E b) conn' js (attach c' b) = (Inr (), w) \<and>
    sent w = sent (cl_node c' b) @
      [(conn', if pwd = p then login_refusal (E b) 2 already_online_text else login_refusal (E b) 1 wrong_password_text)] \<and>
    userConnMap w = userConnMap (cl_node c' b) \<and> groupMembers w = groupMembers (cl_node c' b)"
proof -
  let ?w = "attach c' b"
  have "user_hash (rv k (cl_rd c)) j \<noteq> None" for k j
    using assms(3) shared_hash [OF assms(1), of k "cl_rd c" j a] by simp
  then have "cluster_presence rv {} c" using assms(2) by (simp add: cluster_presence_def presence_ok_def)
  then have "cluster_presence rv {i} c'"
    by (intro cluster_presence_run [OF assms(4,1)] cluster_presence_login [OF assms(1)])
  then have p: "presence_ok (rv b) {i} (rc ?w)" unfolding cluster_presence_def by blast
  then obtain h where "rready (rc ?w)" "user_hash (rv b (rd (rc ?w))) i = Some h" unfolding presence_ok_def by blast
  from redis_reliable.isUserOnline_ok [OF shared_redisD(1) [OF assms(1)] refl this] p
  have on: "fst (isUserOnline (c_redis (E b)) i (rc ?w))" by (simp add: presence_ok_def)
  have l: "login (E b) conn' js ?w = (Inr (), login_with (E b) conn' i pwd ?w)" using assms(6-8) by (rule login_fields)
  show ?thesis
  proof (cases "pwd = p")
    case True
    with login_with_online [of "E b" i ?w pwd conn'] assms(5) on obtain m s where
      "login_with (E b) conn' i pwd ?w =
         ?w\<lparr>off := (off ?w)\<lparr>ms := m\<rparr>, rc := s, sent := sent ?w @ [(conn', login_refusal (E b) 2 already_online_text)]\<rparr>"
      by auto
    with l True show ?thesis by simp
  next
    case False
    with login_with_wrong [of "E b" i ?w pwd conn'] assms(5) obtain m where
      "login_with (E b) conn' i pwd ?w =
         ?w\<lparr>off := (off ?w)\<lparr>ms := m\<rparr>, sent := sent ?w @ [(conn', login_refusal (E b) 1 wrong_password_text)]\<rparr>"
      by auto
    with l False show ?thesis by simp
  qed
qed

subsection \<open>Tables and maps\<close>

lemma cluster_step_node: "any_step E c c' \<longleftrightarrow> (\<exists>k w. node_step (E k) (attach c k) w \<and> c' = detach c k w)"
  by (auto simp: any_step_def node_step_event cluster_step.simps)

text \<open>
  However the events of the nodes alternate, the tables they share keep their integrity and every
  node keeps well-formed maps and, of its own pool, no more than the connections it started with: no
  node relies on being the only one.
\<close>

theorem cluster_invariant:
  assumes "\<And>k. mysql_server cfg (c_sql (E k)) tv" and "(any_step E)\<^sup>*\<^sup>* c c'" and "tables_wf cfg (tv (cl_db c))"
    and "\<And>k. um_wf (userConnMap (cl_node c k))" and "\<And>k. groups_wf (groupMembers (cl_node c k))"
  shows "tables_wf cfg (tv (cl_db c')) \<and> um_wf (userConnMap (cl_node c' k)) \<and> groups_wf (groupMembers (cl_node c' k)) \<and>
    mset (connections (pool (ms (off (cl_node c' k))))) \<subseteq># mset (connections (pool (ms (off (cl_node c k)))))"
proof -
  define J :: "('a, 'b) cluster \<Rightarrow> bool" where "J d \<longleftrightarrow> tables_wf cfg (tv (cl_db d)) \<and> (\<forall>k. um_wf (userConnMap (cl_node d k)) \<and> groups_wf (groupMembers (cl_node d k)) \<and>
    mset (connections (pool (ms (off (cl_node d k))))) \<subseteq># mset (connections (pool (ms (off (cl_node c k))))))" for d
  have "J c'" using assms(2)
  proof (induction rule: rtranclp_induct)
    case base
    then show ?case using assms(3-5) by (simp add: J_def)
  next
    case (step d d')
    then obtain k w where n: "node_step (E k) (attach d k) w" and d': "d' = detach d k w"
      unfolding cluster_step_node by blast
    have i: "node_invariant (E k) (\<lambda>st. tables_wf cfg (tv (db (ms st)))) (\<lambda>s. True) (\<lambda>um. True) (\<lambda>gm. True)"
      by (rule database_invariant [where P = "\<lambda>d. tables_wf cfg (tv d)"]) (rule mysql_server.exec_wf [OF assms(1)])
    have "tables_wf cfg (tv (db (ms (off w))))"
      using node_invariant.inv_step [OF i n] step.IH by (simp add: node_invariant.node_inv_iff [OF i] J_def)
    moreover have "um_wf (userConnMap w) \<and> groups_wf (groupMembers w)"
      using maps_inv.inv_step [OF n] step.IH by (simp add: maps_inv.node_inv_def J_def)
    moreover have "mset (connections (pool (ms (off w)))) \<subseteq># mset (connections (pool (ms (off (cl_node c k)))))"
      using pool_inv.inv_step [OF n, of "connections (pool (ms (off (cl_node c k))))"] step.IH
      by (simp add: pool_inv.node_inv_def J_def)
    ultimately show ?case using step.IH by (simp add: J_def d')
  qed
  then show ?thesis by (simp add: J_def)
qed

subsection \<open>A cluster of two nodes\<close>

text \<open>The concrete Redis server of \<open>Redis_Server\<close>, with the subscriptions of every node apart.\<close>

definition own_view :: "nat \<Rightarrow> keyspace \<times> (nat \<Rightarrow> string list) \<Rightarrow> keyspace" where
  "own_view k d = (fst d)\<lparr>channels := snd d k\<rparr>"

definition own_exec :: "nat \<Rightarrow> (keyspace \<times> (nat \<Rightarrow> string list)) redis_exec" where
  "own_exec k c d = (case ref_redis c (own_view k d) of (r, ks) \<Rightarrow> (r, (ks, (snd d)(k := channels ks))))"

lemma own_exec_reliable: "redis_reliable (own_exec k) (own_view k)"
  by unfold_locales (auto simp: own_exec_def own_view_def ref_redis_def split: option.splits prod.splits)

definition ex_nodes :: "nat \<Rightarrow> (tables, keyspace \<times> (nat \<Rightarrow> string list)) chat_env" where
  "ex_nodes k = \<lparr>c_sql = ref_sql ex_cfg, c_redis = \<lparr>r_exec = own_exec k, r_others = (\<lambda>p. p)\<rparr>,
     c_dump = ex_dump, c_parse = ex_parse, c_name = (\<lambda>c. ''conn'' @ nat_digits c)\<rparr>"

definition ex_cluster :: "(tables, keyspace \<times> (nat \<Rightarrow> string list)) cluster" where
  "ex_cluster = \<lparr>cl_db = ex_tables, cl_rd = (ex_ks, \<lambda>k. []),
     cl_node = (\<lambda>k. \<lparr>off = \<lparr>ms = \<lparr>pool = ex_pool (if k = 0 then [] else [Some 0]), db = ex_tables\<rparr>, failedQueue = []\<rparr>,
       rc = \<lparr>rpool = ex_rpool, rd = (ex_ks, \<lambda>k. []), localNodeId = [], rc_stopped = False, sub_tasks = [], sub_group_set = []\<rparr>,
       userConnMap = [], groupMembers = [], sent = []\<rparr>)\<rparr>"

lemma ex_nodes_redis: "shared_redis ex_nodes own_view"
  using own_exec_reliable by (simp add: shared_redis_def ex_nodes_def own_view_def)

lemma ex_nodes_sql: "mysql_server ex_cfg (c_sql (ex_nodes k)) (\<lambda>t. t)"
  using ref_mysql.mysql_server_axioms [of ex_cfg] by (simp add: ex_nodes_def)

theorem cluster_invariant_witness:
  "tables_wf ex_cfg (cl_db (detach ex_cluster 1 (onConnection (ex_nodes 1) 7 False (attach ex_cluster 1))))"
proof -
  have "any_step ex_nodes ex_cluster (detach ex_cluster 1 (onConnection (ex_nodes 1) 7 False (attach ex_cluster 1)))"
    unfolding cluster_step_node using node_step.connection by blast
  then have r: "(any_step ex_nodes)\<^sup>*\<^sup>* ex_cluster (detach ex_cluster 1 (onConnection (ex_nodes 1) 7 False (attach ex_cluster 1)))" ..
  have "tables_wf ex_cfg (cl_db ex_cluster)" using ex_tables_wf [of "[]"] by (simp add: ex_cluster_def ex_state_def)
  from cluster_invariant [OF ex_nodes_sql r this, of 1] show ?thesis
    by (simp add: ex_cluster_def groups_wf_def)
qed

text \<open>A node without a free connection reads nothing.\<close>

lemma sql_call_exhausted: "connections (pool m) = [] \<Longrightarrow> sql_call a b r body m = (a, m)"
  by (simp add: sql_call_def getConnection_def)

lemma login_success_exhausted:
  assumes "connections (pool (ms (off w))) = []"
  shows "ms (off (login_success E conn i u w)) = ms (off w)"
  using assms
  by (simp add: login_success_def on_redis_eq on_mysql_eq Let_def split_beta login_groups_state login_friends_def
      friend_texts_state GroupModel_queryGroups_def FriendModel_query_def sql_call_exhausted split: option.splits)

theorem cluster_single_login_witness:
  "\<exists>w. login (ex_nodes 1) 8 (json_obj [(''id'', JInt 1), (''password'', JStr ''pa'')])
      (attach (detach ex_cluster 0 (login_success (ex_nodes 0) 7 1 (User 1 ''ann'' ''pa'' ''offline'') (attach ex_cluster 0))) 1) = (Inr (), w) \<and>
    sent w = [(8, login_refusal (ex_nodes 1) 2 already_online_text)] \<and> userConnMap w = []"
proof -
  let ?w = "login_success (ex_nodes 0) 7 1 (User 1 ''ann'' ''pa'' ''offline'') (attach ex_cluster 0)"
  let ?c = "detach ex_cluster 0 ?w"
  let ?js = "json_obj [(''id'', JInt 1), (''password'', JStr ''pa'')]"
  have "connections (pool (ms (off (attach ex_cluster 0)))) = []" by (simp add: ex_cluster_def ex_pool_def)
  from login_success_exhausted [OF this] have m: "ms (off (attach ?c 1)) = ms (off (ex_state [Some 0]))"
    by (simp add: attach_def detach_def Let_def ex_cluster_def ex_state_def)
  have "(1, ''ann'', ''pa'', ''offline'') \<in> set (t_User (db (ms (off (ex_state [Some 0])))))" by (simp add: ex_defs)
  moreover have "available (ms (off (ex_state [Some 0])))" by (simp add: ex_defs available_def no_null_def)
  ultimately have q: "fst (UserModel_query (c_sql (ex_nodes 1)) 1 (ms (off (attach ?c 1)))) = User 1 ''ann'' ''pa'' ''offline''"
    unfolding m using mysql_reliable.UserModel_query_ok [OF ex_env_sql _ ex_tables_wf] by (simp add: ex_nodes_def ex_env_def)
  have r: "rready (rc (cl_node ex_cluster k))" for k by (simp add: ex_cluster_def ex_rpool_def rready_def)
  have h: "user_hash (own_view 0 (cl_rd ex_cluster)) j \<noteq> None" for j
    by (simp add: ex_cluster_def own_view_def ex_ks_def user_hash_def hash_at_def)
  have f: "json_get ''id'' ?js = Some (JInt 1)" "get_int (JInt 1) = Inr 1" "json_get ''password'' ?js = Some (JStr ''pa'')"
    by (simp_all add: json_get_json_obj to_int32_def)
  have n: "cl_node ?c 1 = cl_node ex_cluster 1" by simp
  show ?thesis
    using cluster_single_login [where c = ex_cluster and a = 0 and b = 1 and u = "User 1 ''ann'' ''pa'' ''offline''" and conn = 7
        and conn' = 8, OF ex_nodes_redis r h rtranclp.rtrancl_refl q f]
    by (auto simp: n ex_cluster_def)
qed

end
