(* ===== verification/Cluster_Delivery.thy ===== *)
theory Cluster_Delivery
  imports Cluster Group_Properties
begin

section \<open>What one node publishes and the others receive\<close>

text \<open>
  The cluster of \<open>Cluster\<close> with the messages Redis has ready for the subscriber of each node. What a
  node publishes during an event is queued, in order, for every node whose subscriber had the channel
  when the event began; a turn of the subscriber takes the first message of its queue, or none.
\<close>

record ('db, 'rd) pubsub =
  ps_cluster :: "('db, 'rd) cluster"
  ps_inbox :: "nat \<Rightarrow> (string \<times> string) list"

definition news :: "keyspace \<Rightarrow> keyspace \<Rightarrow> (string \<times> string) list" where
  "news ks ks' = drop (length (published ks)) (published ks')"

definition subscriber_news :: "(nat \<Rightarrow> 'rd \<Rightarrow> keyspace) \<Rightarrow> nat \<Rightarrow> 'rd \<Rightarrow> 'rd \<Rightarrow> nat \<Rightarrow> (string \<times> string) list" where
  "subscriber_news rv k d d' j = filter (\<lambda>x. fst x \<in> set (channels (rv j d))) (news (rv k d) (rv k d'))"

definition after_event ::
  "(nat \<Rightarrow> 'rd \<Rightarrow> keyspace) \<Rightarrow> nat \<Rightarrow> ('db, 'rd) chat_state \<Rightarrow> ('db, 'rd) pubsub \<Rightarrow> ('db, 'rd) pubsub" where
  "after_event rv k w s = \<lparr>ps_cluster = detach (ps_cluster s) k w,
     ps_inbox = (\<lambda>j. ps_inbox s j @ subscriber_news rv k (cl_rd (ps_cluster s)) (rd (rc w)) j)\<rparr>"

inductive pubsub_step ::
  "(nat \<Rightarrow> ('db, 'rd) chat_env) \<Rightarrow> (nat \<Rightarrow> 'rd \<Rightarrow> keyspace) \<Rightarrow> ('db, 'rd) pubsub \<Rightarrow> nat \<Rightarrow> node_event \<Rightarrow> ('db, 'rd) pubsub \<Rightarrow> bool"
  for E :: "nat \<Rightarrow> ('db, 'rd) chat_env" and rv :: "nat \<Rightarrow> 'rd \<Rightarrow> keyspace" where
  event: "(\<And>m. ev \<noteq> Turn (Some m)) \<Longrightarrow> handle_event (E k) ev (attach (ps_cluster s) k) = Some w \<Longrightarrow>
    pubsub_step E rv s k ev (after_event rv k w s)"
| consume: "ps_inbox s k = (ch, m) # rest_ms \<Longrightarrow> \<not> rc_stopped (rc (attach (ps_cluster s) k)) \<Longrightarrow>
    handle_event (E k) (Turn (Some m)) (attach (ps_cluster s) k) = Some w \<Longrightarrow>
    pubsub_step E rv s k (Turn (Some m)) (after_event rv k w (s\<lparr>ps_inbox := (ps_inbox s)(k := rest_ms)\<rparr>))"

inductive_cases pubsub_stepE: "pubsub_step E rv s k ev s'"

lemma pubsub_step_cluster: "pubsub_step E rv s k ev s' \<Longrightarrow> cluster_step E (ps_cluster s) k ev (ps_cluster s')"
  by (erule pubsub_stepE) (simp_all add: after_event_def cluster_step.event)




subsection \<open>Group messages\<close>

text \<open>A message with the fields of a group message.\<close>

definition group_message :: "json \<Rightarrow> int \<Rightarrow> int \<Rightarrow> string \<Rightarrow> bool" where
  "group_message js u g body \<longleftrightarrow>
     (\<exists>v. json_get ''msgid'' js = Some v \<and> get_int v = Inr GROUP_CHAT_MSG) \<and>
     (\<exists>v. json_get ''id'' js = Some v \<and> get_int v = Inr u) \<and>
     (\<exists>v. json_get ''groupid'' js = Some v \<and> get_int v = Inr g) \<and>
     json_get ''msg'' js = Some (JStr body) \<and> body \<noteq> [] \<and> json_get ''to'' js = None"

lemma group_message_received:
  assumes "c_parse E buf = Some js" and "group_message js u g body"
  shows "onMessage E conn buf w = Some ((load_members E u g w)\<lparr>rc :=
    snd (publishGroupMessage (c_redis E) g (c_dump E js) (rc (load_members E u g w)))\<rparr>)"
proof -
  from assms(2) obtain v v' v'' where v: "json_get ''msgid'' js = Some v" "get_int v = Inr GROUP_CHAT_MSG"
    "json_get ''id'' js = Some v'" "get_int v' = Inr u" "json_get ''groupid'' js = Some v''" "get_int v'' = Inr g"
    "json_get ''msg'' js = Some (JStr body)" "body \<noteq> []"
    by (auto simp: group_message_def)
  have "getHandler GROUP_CHAT_MSG = Some H_groupChat" by (simp add: getHandler_def msgHandlerMap_def msg_defs)
  with groupChat_fields [OF v(7,8,3-6), of E conn w] assms(1) show ?thesis
    by (simp add: onMessage_def field_int_present [OF v(1,2)])
qed

text \<open>What is queued for a node by a group message, whoever sends it.\<close>

lemma group_message_news:
  assumes R: "redis_reliable (r_exec (c_redis E)) v" and "rready (rc w)"
    and "c_parse E buf = Some js" and "group_message js u g body" and "onMessage E conn buf w = Some w'"
  shows "news (v (rd (rc w))) (v (rd (rc w'))) = [(group_channel g, c_dump E js)]"
proof -
  have "rready (rc (load_members E u g w))" using assms(2) by (simp add: rready_def load_members_rest)
  from redis_reliable.publishGroupMessage_ok [OF R refl this] group_message_received [OF assms(3,4), of conn w] assms(5)
  show ?thesis by (auto simp: news_def load_members_rest)
qed



text \<open>
  C33. The first message to a group a node does not know is not delivered on that node: on a working
  database \<open>groupChat\<close> loads the members and queues the task to subscribe, but publishes at once, so
  nothing is queued for the node's own subscriber. And the members it loads are those without the
  sender: as long as the set stays as it is, a later group message is sent to every connected member of
  the group but the one who spoke first.
\<close>

theorem first_group_message_missed:
  assumes "mysql_reliable cfg (c_sql (E a)) tv" and "redis_reliable (r_exec (c_redis (E a))) (rv a)"
    and "available (ms (off (attach (ps_cluster s) a)))" and "rready (rc (cl_node (ps_cluster s) a))"
    and "c_parse (E a) buf = Some js" and "group_message js u g body"
    and "map_of (groupMembers (cl_node (ps_cluster s) a)) g = None"
    and "group_channel g \<notin> set (channels (rv a (cl_rd (ps_cluster s))))"
  shows "\<exists>s1 uids. pubsub_step E rv s a (Received conn buf) s1 \<and> ps_inbox s1 a = ps_inbox s a \<and>
    sent (cl_node (ps_cluster s1) a) = sent (cl_node (ps_cluster s) a) \<and>
    set uids = {x. x \<noteq> u \<and> (\<exists>r. (g, x, r) \<in> set (t_GroupUser (tv (cl_db (ps_cluster s)))))} \<and>
    (\<forall>w js' u' body'. map_of (groupMembers w) g = map_of (groupMembers (cl_node (ps_cluster s1) a)) g \<longrightarrow>
       group_message js' u' g body' \<longrightarrow> inbox_callback (E a) js' w = Some (Inr (), w\<lparr>sent := sent w @ group_copies (E a) js' uids w\<rparr>))"
proof -
  let ?w = "attach (ps_cluster s) a"
  let ?q = "GroupModel_queryGroupUsers (c_sql (E a)) u g (ms (off ?w))"
  obtain w where w: "onMessage (E a) conn buf ?w = Some w" "sent w = sent (cl_node (ps_cluster s) a)"
    and gm: "groupMembers w = groupMembers (load_members (E a) u g ?w)"
    using group_message_received [OF assms(5,6), of conn ?w] by (simp add: load_members_rest)
  let ?s1 = "after_event rv a w s"
  let ?uids = "case map_of (groupMembers w) g of None \<Rightarrow> [] | Some m \<Rightarrow> m"
  have "news (rv a (cl_rd (ps_cluster s))) (rv a (rd (rc w))) = [(group_channel g, c_dump (E a) js)]"
    using group_message_news [OF assms(2) _ assms(5,6) w(1)] assms(4) by simp
  then have inbox: "ps_inbox ?s1 a = ps_inbox s a" using assms(8) by (simp add: after_event_def subscriber_news_def)
  have one: "pubsub_step E rv s a (Received conn buf) ?s1" by (rule pubsub_step.event) (simp_all add: w(1))
  have "groupMembers w = fold (\<lambda>i gm. um_modify g [] (ss_insert i) gm) (fst ?q) (groupMembers ?w)"
    using assms(7) by (simp add: gm load_members_def on_mysql_eq Let_def)
  then have "set ?uids = set (fst ?q)"
    using fold_join_lookup [of g "fst ?q" "groupMembers ?w"] assms(7) by simp
  then have members: "set ?uids = {x. x \<noteq> u \<and> (\<exists>r. (g, x, r) \<in> set (t_GroupUser (tv (cl_db (ps_cluster s)))))}"
    using mysql_reliable.GroupModel_queryGroupUsers_ok [OF assms(1,3), of u g] by simp
  have later: "inbox_callback (E a) js' w' = Some (Inr (), w'\<lparr>sent := sent w' @ group_copies (E a) js' ?uids w'\<rparr>)"
    if "map_of (groupMembers w') g = map_of (groupMembers (cl_node (ps_cluster ?s1) a)) g" "group_message js' u' g body'"
    for w' js' u' body'
  proof -
    from that(2) obtain v where "json_get ''groupid'' js' = Some v" "get_int v = Inr g" "json_get ''to'' js' = None"
      by (auto simp: group_message_def)
    with inbox_group [of js' v g "E a" w'] that(1) show ?thesis by (simp add: after_event_def)
  qed
  show ?thesis
    by (rule exI [of _ ?s1], rule exI [of _ ?uids], intro conjI allI impI one inbox members later)
      (simp_all add: after_event_def w(2))
qed

subsection \<open>Two nodes and a group\<close>

text \<open>Node 1 knows the group 5 and has its channel; node 0, where user 1 is, does neither.\<close>

definition ex_hi :: json where
  "ex_hi = json_obj [(''msgid'', JInt GROUP_CHAT_MSG), (''id'', JInt 1), (''groupid'', JInt 5), (''msg'', JStr ''hi'')]"

definition ex_talk :: "nat \<Rightarrow> (tables, keyspace \<times> (nat \<Rightarrow> string list)) chat_env" where
  "ex_talk k = (ex_nodes k)\<lparr>c_dump := (\<lambda>j. if j = ex_hi then ''hi'' else []), c_parse := (\<lambda>t. if t = ''hi'' then Some ex_hi else None)\<rparr>"

definition ex_ps :: "(tables, keyspace \<times> (nat \<Rightarrow> string list)) pubsub" where
  "ex_ps = (let c = ex_cluster in
     \<lparr>ps_cluster = c\<lparr>cl_rd := (ex_ks, (\<lambda>k. [])(1 := [group_channel 5])),
        cl_node := (\<lambda>k. if k = 1 then (cl_node c 1)\<lparr>userConnMap := [(2, 8)], groupMembers := [(5, [1, 2])]\<rparr>
                        else (cl_node c k)\<lparr>off := off (ex_state [Some 0, Some 1])\<rparr>)\<rparr>,
      ps_inbox = (\<lambda>k. [])\<rparr>)"

lemma ex_talk_redis: "redis_reliable (r_exec (c_redis (ex_talk k))) (own_view k)"
  using own_exec_reliable by (simp add: ex_talk_def ex_nodes_def)

lemma ex_talk_message: "c_parse (ex_talk k) ''hi'' = Some ex_hi" "c_dump (ex_talk k) ex_hi = ''hi''" "group_message ex_hi 1 5 ''hi''"
  by (simp_all add: ex_talk_def group_message_def ex_hi_def json_get_json_obj to_int32_def msg_defs)

lemma ex_ps_fields:
  "cl_node (ps_cluster ex_ps) 1 = (cl_node ex_cluster 1)\<lparr>userConnMap := [(2, 8)], groupMembers := [(5, [1, 2])]\<rparr>"
  "sent (cl_node (ps_cluster ex_ps) k) = []" "rready (rc (cl_node (ps_cluster ex_ps) k))"
  "group_channel 5 \<in> set (channels (own_view 1 (cl_rd (ps_cluster ex_ps))))" "ps_inbox ex_ps k = []"
  "\<not> rc_stopped (rc (cl_node (ps_cluster ex_ps) k))"
  by (simp_all add: ex_ps_def Let_def ex_cluster_def ex_rpool_def rready_def own_view_def)


theorem first_group_message_missed_witness:
  "\<exists>s1 uids. pubsub_step ex_talk own_view ex_ps 0 (Received 7 ''hi'') s1 \<and> ps_inbox s1 0 = [] \<and> set uids = {2} \<and>
     inbox_callback (ex_talk 0) ex_hi (cl_node (ps_cluster s1) 0) = Some (Inr (), (cl_node (ps_cluster s1) 0)\<lparr>sent :=
       sent (cl_node (ps_cluster s1) 0) @ group_copies (ex_talk 0) ex_hi uids (cl_node (ps_cluster s1) 0)\<rparr>)"
proof -
  have q: "mysql_reliable ex_cfg (c_sql (ex_talk 0)) (\<lambda>t. t)"
    using ex_env_sql by (simp add: ex_talk_def ex_nodes_def ex_env_def)
  have av: "available (ms (off (attach (ps_cluster ex_ps) 0)))"
    by (simp add: attach_def Let_def ex_ps_def ex_cluster_def ex_defs available_def no_null_def)
  have none: "map_of (groupMembers (cl_node (ps_cluster ex_ps) 0)) 5 = None"
    and ch: "group_channel 5 \<notin> set (channels (own_view 0 (cl_rd (ps_cluster ex_ps))))"
    by (simp_all add: ex_ps_def Let_def ex_cluster_def own_view_def)
  have rows: "{x. x \<noteq> 1 \<and> (\<exists>r. (5, x, r) \<in> set (t_GroupUser (cl_db (ps_cluster ex_ps))))} = {2}"
    by (auto simp: ex_ps_def Let_def ex_cluster_def ex_tables_def)
  obtain s1 uids where s1: "pubsub_step ex_talk own_view ex_ps 0 (Received 7 ''hi'') s1" "ps_inbox s1 0 = ps_inbox ex_ps 0"
      "set uids = {x. x \<noteq> 1 \<and> (\<exists>r. (5, x, r) \<in> set (t_GroupUser (cl_db (ps_cluster ex_ps))))}"
    and cb: "\<And>w js' u' body'. map_of (groupMembers w) 5 = map_of (groupMembers (cl_node (ps_cluster s1) 0)) 5 \<Longrightarrow>
      group_message js' u' 5 body' \<Longrightarrow>
      inbox_callback (ex_talk 0) js' w = Some (Inr (), w\<lparr>sent := sent w @ group_copies (ex_talk 0) js' uids w\<rparr>)"
    using first_group_message_missed [where E = ex_talk and a = 0 and rv = own_view and s = ex_ps and conn = 7,
        OF q ex_talk_redis av ex_ps_fields(3) ex_talk_message(1,3) none ch]
    by (elim exE conjE) (rule that, assumption+, blast)
  with cb [OF refl ex_talk_message(3)] rows show ?thesis by (intro exI [of _ s1] exI [of _ uids]) (simp add: ex_ps_fields(5))
qed

end
