(* ===== verification/Spec2Isabelle.thy ===== *)
theory Spec2Isabelle
  imports Store_Properties Message_Fields Pool_Concurrency Startup_Properties Threads_Properties Registration
    Presence_Expiry Redis_Pool_Threads Threads_Termination Cluster_Delivery
begin

text \<open>
  A verification library for a clustered chat server (C++, muduo, MySQL, Redis). Source paths are
  relative to the repository.

  \<^bold>\<open>The program.\<close> \<open>ChatServer\<close> (\<open>src/server/chatserver.cpp\<close>) parses each received
  buffer as JSON and hands it to the handler \<open>ChatService::getHandler\<close> gives for its
  \<open>msgid\<close>. \<open>ChatService\<close> (\<open>src/server/chatservice.cpp\<close>) has the handlers \<open>login\<close>,
  \<open>loginOut\<close>, \<open>reg\<close>, \<open>oneChat\<close>, \<open>addFriend\<close>, \<open>createGroup\<close>, \<open>joinGroup\<close> and
  \<open>groupChat\<close>, the handler of a lost connection, and the callback for messages that arrive over
  Redis. It keeps two maps, from users to connections and from groups to local members. Users,
  friendships, groups and stored messages are in MySQL, reached through the data classes
  (\<open>src/server/model/\<close>) and a connection pool (\<open>src/server/mysqlconnectionpool/\<close>); presence,
  offline lists, caches and the channels between nodes are in Redis, reached through
  \<open>RedisClient\<close> (\<open>src/server/redisclient.cpp\<close>) and its pool
  (\<open>src/server/redisconnectionpool/\<close>). A subscriber thread hands published messages to the
  service and works through a queue of subscription tasks. The client (\<open>src/client/main.cpp\<close>) has
  two threads: one reads commands from the keyboard and sends requests, the other receives and
  prints what the server sends.

  \<^bold>\<open>Theories and sources.\<close>
  \<^item> \<open>Chat_Prelude\<close>: results, decimal rendering, \<open>std::unordered_map\<close> and \<open>std::set\<close>, and
    the interface \<open>conn_pool\<close> both pools implement.
  \<^item> \<open>Json_Value\<close>: the part of \<open>thirdparty/json.hpp\<close> the server uses on values
    (\<open>operator[]\<close>, \<open>contains\<close>, \<open>get<int>\<close>, \<open>get<string>\<close>, \<open>get<vector<string>>\<close>).
    \<open>Json_Text\<close>: its printer (\<open>serializer::dump\<close>, with the UTF-8 automaton) and its lexer and
    parser. \<open>Json_Roundtrip\<close>: well-formed values, and the interface \<open>json_codec\<close> the printer and
    the parser implement together.
  \<^item> \<open>Sql_Database\<close>: the fifteen statements and their texts, the tables of
    \<open>sql/init_chat.sql\<close> and their integrity, the documented effect of each statement
    (\<open>sql_effect\<close>), the interfaces \<open>mysql_server\<close> and \<open>mysql_reliable\<close>, and a concrete
    server \<open>ref_sql\<close>.
  \<^item> \<open>Mysql_Pool\<close>: \<open>MySQLConnectionPool\<close>, sequentially (\<open>getConnection\<close>,
    \<open>releaseConnection\<close>, \<open>initPool\<close>, ...) and as a step relation \<open>pool_step\<close> of threads whose
    steps are the parts of the two operations between lock operations. \<open>Pool_Concurrency\<close>: the
    interface \<open>stuttering_simulation\<close>, the sequential specification the threads implement while they
    keep clear of the race (\<open>calm_step\<close>), and \<open>getInstance\<close>.
  \<^item> \<open>Data_Models\<close>: \<open>User\<close>, \<open>Group\<close>, \<open>GroupUser\<close>, \<open>UserModel\<close>,
    \<open>FriendModel\<close>, \<open>GroupModel\<close>. \<open>Offline_Store\<close>: \<open>OfflineMessage\<close> with its retry loop.
  \<^item> \<open>Redis_Server\<close>: the commands, their documented effect on the key space, the interfaces
    \<open>redis_server\<close> and \<open>redis_reliable\<close>, and a concrete server \<open>ref_redis\<close>.
  \<^item> \<open>Redis_Pool\<close>: \<open>RedisConnectionPool\<close>. \<open>Redis_Pool_Threads\<close>: its callers as a step relation
    \<open>rp_step\<close>, with the condition variable. \<open>Redis_Client\<close>: every operation of
    \<open>RedisClient\<close>, the subscription tasks.
  \<^item> \<open>Chat_Service\<close>: the state, the handlers and the inbox callback, one definition per handler.
    \<open>Chat_Server\<close>: \<open>onMessage\<close>, \<open>onConnection\<close>, a turn of the subscriber, and the step
    relation \<open>node_step\<close> with its reachable states \<open>node_reach\<close>.
  \<^item> \<open>Chat_Service_Facts\<close>: closed forms of the loops of the handlers and the invariant
    principle \<open>node_invariant\<close>: what the data operations, the client operations and the map
    updates keep, every step of a node keeps; \<open>node_frame\<close> is the same for what a withdrawn presence
    may break. \<open>Subscriptions\<close>, \<open>Presence\<close>: what happens to the
    channels and to the presence keys. \<open>Presence_Expiry\<close>: what the passing of time does to them.
    \<open>Cluster\<close>: several nodes over one database and one Redis (\<open>cluster_step\<close>). \<open>Cluster_Delivery\<close>: what
    one publishes is queued for the others (\<open>pubsub_step\<close>).
  \<^item> \<open>Example_Node\<close>: a small installation on which theorems with hypotheses are applied.
  \<^item> \<open>Client\<close>: standard input with its state bits, the commands, the responses, the two threads as
    a step relation. \<open>Client_Facts\<close>, \<open>Client_Properties\<close>: what its steps keep and do.
  \<^item> \<open>Config\<close>: \<open>include/config.hpp\<close>. \<open>Startup\<close>: the constructors and destructors, the life of the
    subscriber thread, \<open>ChatServer\<close>, \<open>src/server/main.cpp\<close> and the step relation \<open>server_step\<close> of
    the running process; \<open>Startup_Properties\<close>: its invariants.
  \<^item> \<open>Conversation\<close>, \<open>Registration\<close>: client and server put together, from keyboard to screen.
    \<open>Message_Fields\<close>: messages with fields a handler cannot read, and numbers out of range.
    \<open>Json_Cut\<close>, \<open>Cut_Replies\<close>: texts that are cut off, in the parser and in the client.
  \<^item> \<open>Service_Threads\<close>: the handlers once more, as programs of atomic actions and operations on the
    locks \<open>user_conn_mutex_\<close>, \<open>group_mutex_\<close> and \<open>callback_mutex_\<close>, and the threads that run them:
    the loops of the network library and the subscriber (\<open>thread_step\<close>, \<open>service_step\<close>).
    \<open>Threads_Alone\<close>: a program on its own is its handler. \<open>Lock_Discipline\<close>: every program takes the
    locks in one order, gives them back and touches the maps under their locks only.
    \<open>Threads_Invariants\<close>: the principle \<open>threads_invariant\<close>, which carries what \<open>node_invariant\<close>
    shows to interleaved handlers. \<open>Threads_Locks\<close>, \<open>Threads_Properties\<close>: deadlocks, data races,
    invariants, and a race of two logins. \<open>Threads_Termination\<close>: programs are finite, so the threads
    come to rest.
  \<^item> \<open>Login_Properties\<close>, \<open>Chat_Properties\<close>, \<open>Group_Properties\<close>, \<open>Store_Properties\<close> and
    this theory: the properties of the service and the stores.

  \<^bold>\<open>How state and operations correspond.\<close> An operation takes and returns the state it changes.
  \<open>chat_state\<close> has the members of \<open>ChatService\<close>, what has been sent so far, and the states of
  the two clients. A connection is a number, a null connection is \<open>None\<close>. Members keep their
  names without the trailing underscore. A handler gives the exception that leaves it, or nothing,
  and the state. Logging is left out. Concurrency is modelled four times: in \<open>node_step\<close> a
  handler is one step and the lock objects are left out; in \<open>service_step\<close> a handler is a program
  whose steps are its lock operations and what lies between them, an operation of a data class or of
  the Redis client, a \<open>send\<close>, a storing of an offline message and a task of the subscriber being
  atomic; in \<open>pool_step\<close> the steps are those of the MySQL pool itself, and in \<open>rp_step\<close> those of the
  Redis pool: what a thread does while it has the mutex, and the ends of a wait.

  \<^bold>\<open>Code outside the source.\<close> MySQL with its connector, Redis with its client library, the names of
  connections, the sockets and the clock are parameters (\<open>chat_env\<close>, \<open>sql_driver\<close>,
  \<open>client_env\<close>). What is relied on is stated by locales and appears as a hypothesis of the theorems:
  \<open>mysql_server\<close> (a statement that succeeds has its documented effect, one that raises has been
  rolled back), \<open>mysql_reliable\<close> (and a statement that violates no constraint succeeds),
  \<open>redis_server\<close> (a command that raises may or may not have been executed) and
  \<open>redis_reliable\<close> (and a command on a value of the right type succeeds); \<open>connector_ok\<close> says that
  connecting succeeds and changes no table. The service has the printer and the parser as parameters
  too; \<open>same_json\<close> says that they are those of \<open>Json_Text\<close>, and \<open>Conversation\<close> uses it. The
  conversion of floating-point numbers to and from text is a parameter (\<open>fp_env\<close>). The printer of the
  service (\<open>c_dump\<close>) is a function without exceptions: that \<open>dump\<close> raises \<open>type_error\<close> 316 on text that
  is not UTF-8 is in \<open>json_dump\<close> and left out in the handlers. What the parser has accepted can be printed
  (\<open>json_parse_well_formed\<close>), so the difference could show only on names and messages that reached the
  database or Redis in another way. \<open>mysql_server\<close> takes a statement that raises to be rolled back; a
  connection that is lost after the commit is outside it.

  \<^bold>\<open>What is shown.\<close> The functional behaviour of the handlers over all their branches
  (\<open>login_correct\<close>, \<open>reg_correct\<close>, \<open>loginOut_correct\<close>, \<open>oneChat_online_correct\<close>,
  \<open>oneChat_offline_stored\<close>, \<open>createGroup_correct\<close>, \<open>group_message_delivery\<close>, ...); that a lost
  connection is a log-out; the round trip of the JSON text and that everything the parser accepts can
  be printed; conversations from the keyboard of one client to the screen of another
  (\<open>chat_end_to_end\<close>, \<open>login_end_to_end\<close>, \<open>register_end_to_end\<close>, \<open>group_chat_end_to_end\<close>); what start-up brings up and
  that an interrupt ends the subscriber thread; invariants of all reachable states of a node and of
  the running process (well-formed maps, integrity of the tables, no duplicated connection, no lost
  handle, subscribed channels); no message lost by a failing store; that concurrent callers of the
  MySQL pool implement its sequential operations as long as they keep clear of the race in
  \<open>getConnection\<close> (\<open>pool_refines_sequential\<close>) and get one pool, and that those of the Redis pool
  never share a handle and never miss a wake-up (\<open>redis_pool_exclusive\<close>,
  \<open>redis_pool_no_lost_wakeup\<close>); round trips of the stores; that a
  message a handler cannot read changes nothing (\<open>malformed_message_ignored\<close>) and what numbers out of
  range stand for (\<open>int_field_wraps\<close>); and, as theorems too, the places where the code does not do what it is meant to
  (default credentials accepted, a connection lost per friend query, one-way friendships, a retry loop
  that never ends, messages stored where login does not look, the race in \<open>getConnection\<close>, lost
  subscriptions, nodes that share an inbox, two logins at once, private messages that never reach
  another node, presence that lapses under a connected user, a client that a long line, a long reply, a reply in pieces or two messages in one
  packet bring down, or lock for ever (\<open>long_password_locks_client\<close>)). Of the threads: every run with atomic
  handlers is one of theirs (\<open>node_runs_are_thread_runs\<close>), the locks cannot deadlock (\<open>service_never_deadlocks\<close>), the maps are free of data races
  (\<open>service_maps_race_free\<close>) and the invariants hold in every interleaving
  (\<open>concurrent_invariant\<close>), and the threads finish what they have begun under every schedule, unless
  the retry loop of the offline store does not end (\<open>service_quiesces\<close>), during which the callback keeps
  the connection map locked (\<open>callback_store_blocks_logins\<close>). Of a cluster: an accepted user is refused on every node until a log-out or
  a lost connection withdraws the presence (\<open>cluster_single_login\<close>), and the shared tables and the
  maps of all nodes stay as they should (\<open>cluster_invariant\<close>); a group message reaches the members on
  every subscribed node, whatever the others do in between (\<open>cluster_group_delivery\<close>), but not those on
  a node that hears of the group for the first time (\<open>first_group_message_missed\<close>).

  \<^bold>\<open>Loops.\<close> All loops but one are structural recursions. The retry loop \<open>insert_loop\<close> is a
  \<open>partial_function\<close>: \<open>None\<close> means that it never returns, so handlers that call it give an
  option; that they return is proved where it holds (\<open>oneChat_offline_stored\<close>,
  \<open>offline_insert_empty_pool\<close>) and that they do not where it does not
  (\<open>oneChat_runs_forever\<close>). There is no fuel.

  \<^bold>\<open>Not modelled.\<close> The event loop of the network server, interleavings inside the operations of
  the data classes and of the Redis client (but those of the two pools), fairness of the locks, what
  Redis does with the subscriptions of a connection that breaks, the order in which \<open>help\<close> prints the
  commands (an unordered map; \<open>client_help\<close> takes that of the source), and the passing of time in the runs
  of a node (\<open>Presence_Expiry\<close> has it between two logins). Of the JSON library the shortest-digits printing and
  the reading of floating-point numbers, and everything the program does not call. The tests and the
  load generator are not part of the program.
\<close>

section \<open>Properties of a whole node\<close>

text \<open>
  In every state a node can get into, whatever clients send, connections close, Redis publishes
  and the two servers answer: the connection map and the group map have one entry per key and every
  local member set is strictly ascending.
\<close>

theorem node_maps_wf:
  assumes "node_reach E w0 w" and "um_wf (userConnMap w0)" and "groups_wf (groupMembers w0)"
  shows "um_wf (userConnMap w) \<and> groups_wf (groupMembers w)"
  using maps_inv.inv_reach [OF assms(1)] assms(2,3) by (simp add: maps_inv.node_inv_def)

lemma ex_disconnected: "node_reach E w (onConnection E conn False w)"
  by (rule node_reach.step [OF node_reach.start node_step.connection])

theorem node_maps_wf_witness:
  "um_wf (userConnMap (onConnection ex_env 7 False (ex_state [Some 0]))) \<and>
   groups_wf (groupMembers (onConnection ex_env 7 False (ex_state [Some 0])))"
  by (rule node_maps_wf [OF ex_disconnected]) (simp_all add: ex_defs groups_wf_def)

text \<open>
  In every state a node can get into the tables keep the integrity of the schema, as far as the
  database executes statements as documented: primary and unique keys stay unique, and friendships,
  memberships and stored messages name registered users and existing groups.
\<close>

theorem node_tables_wf:
  assumes "mysql_server cfg (c_sql E) tv" and "node_reach E w0 w" and "tables_wf cfg (tv (db (ms (off w0))))"
  shows "tables_wf cfg (tv (db (ms (off w))))"
proof -
  have "node_invariant E (\<lambda>st. tables_wf cfg (tv (db (ms st)))) (\<lambda>s. True) (\<lambda>um. True) (\<lambda>gm. True)"
    by (rule database_invariant [where P = "\<lambda>d. tables_wf cfg (tv d)"]) (rule mysql_server.exec_wf [OF assms(1)])
  from node_invariant.inv_reach [OF this assms(2)] assms(3) show ?thesis
    by (simp add: node_invariant.node_inv_iff [OF \<open>node_invariant E _ _ _ _\<close>])
qed

theorem node_tables_wf_witness:
  "tables_wf ex_cfg (db (ms (off (onConnection ex_env 7 False (ex_state [Some 0])))))"
  by (rule node_tables_wf [OF ex_env_mysql ex_disconnected ex_tables_wf])

text \<open>
  In every state a node can get into the idle MySQL connections are some of the initial ones, none
  of them twice when they were distinct: no operation returns a connection it did not take, or returns
  one twice.
\<close>

theorem node_pool_no_duplicates:
  assumes "node_reach E w0 w"
  shows "mset (connections (pool (ms (off w)))) \<subseteq># mset (connections (pool (ms (off w0))))"
  using pool_inv.inv_reach [OF assms, of "connections (pool (ms (off w0)))"] by (simp add: pool_inv.node_inv_def)

theorem node_pool_no_duplicates_witness:
  "mset (connections (pool (ms (off (onConnection ex_env 7 False (ex_state [Some 0])))))) \<subseteq>#
     mset (connections (pool (ms (off (ex_state [Some 0])))))"
  by (rule node_pool_no_duplicates [OF ex_disconnected])

text \<open>
  In every state a node can get into, with Redis working, \<open>sub_group_set_\<close> is exactly the set
  of groups whose channels the subscriber has subscribed.
\<close>

theorem node_subscriptions_agree:
  assumes "redis_reliable (r_exec (c_redis E)) rv" and "node_reach E w0 w"
    and "subscriptions_agree (rv (rd (rc w0))) (sub_group_set (rc w0))"
  shows "subscriptions_agree (rv (rd (rc w))) (sub_group_set (rc w))"
proof -
  have i: "node_invariant E (\<lambda>st. True) (\<lambda>s. subscriptions_agree (rv (rd s)) (sub_group_set s)) (\<lambda>um. True) (\<lambda>gm. True)"
    by (rule redis_reliable.subscriptions_invariant [OF assms(1) refl])
  from node_invariant.inv_reach [OF i assms(2)] assms(3) show ?thesis
    by (simp add: node_invariant.node_inv_iff [OF i])
qed

theorem node_subscriptions_agree_witness:
  "subscriptions_agree (rd (rc (onConnection ex_env 7 False (ex_state [])))) (sub_group_set (rc (onConnection ex_env 7 False (ex_state []))))"
  by (rule node_subscriptions_agree [OF ex_env_redis ex_disconnected])
    (simp add: ex_defs subscriptions_agree_def group_channel_def)

end
